(* ===== verification/Prelude.thy ===== *)
theory Prelude
  imports Main
begin

section \<open>Shared vocabulary: failing computations, Python indexing\<close>

text \<open>
  What every theory of the development uses: computations that read and write a state and may
  raise (a Python method of an object), computations that only may raise (a Python function of
  immutable values), the index rule of Python sequences, and the collections of rewrite rules the
  component theories extend.
\<close>

named_theorems exec_simps \<open>evaluation of state-and-error computations\<close>
named_theorems wf_intros \<open>well-formedness of the results of operations\<close>

subsection \<open>Computations with a state and exceptions\<close>

text \<open>
  A computation gets the state and gives back the outcome, an error or a value, and the new state.
  A raise keeps the state it was raised in: Python does not undo the writes made before it.
\<close>

type_synonym ('e, 's, 'a) exec = "'s \<Rightarrow> ('e + 'a) \<times> 's"

definition pure :: "'a \<Rightarrow> ('e, 's, 'a) exec" where
  "pure x s = (Inr x, s)"

definition raise :: "'e \<Rightarrow> ('e, 's, 'a) exec" where
  "raise e s = (Inl e, s)"

definition chain :: "('e, 's, 'a) exec \<Rightarrow> ('a \<Rightarrow> ('e, 's, 'b) exec) \<Rightarrow> ('e, 's, 'b) exec" where
  "chain m f s =
     (case m s of (Inl e, s') \<Rightarrow> (Inl e, s') | (Inr x, s') \<Rightarrow> f x s')"

definition gets :: "('s \<Rightarrow> 'a) \<Rightarrow> ('e, 's, 'a) exec" where
  "gets f s = (Inr (f s), s)"

definition modify :: "('s \<Rightarrow> 's) \<Rightarrow> ('e, 's, unit) exec" where
  "modify f s = (Inr (), f s)"

definition lift :: "'e + 'a \<Rightarrow> ('e, 's, 'a) exec" where
  "lift r s = (r, s)"

definition attempt :: "'e + 'a \<Rightarrow> ('a \<Rightarrow> 'e + 'b) \<Rightarrow> 'e + 'b" where
  "attempt r f = (case r of Inl e \<Rightarrow> Inl e | Inr x \<Rightarrow> f x)"

lemma pure_apply [simp, exec_simps]: "pure x s = (Inr x, s)"
  by (simp add: pure_def)

lemma raise_apply [simp, exec_simps]: "raise e s = (Inl e, s)"
  by (simp add: raise_def)

lemma gets_apply [simp, exec_simps]: "gets f s = (Inr (f s), s)"
  by (simp add: gets_def)

lemma modify_apply [simp, exec_simps]: "modify f s = (Inr (), f s)"
  by (simp add: modify_def)

lemma lift_apply [simp, exec_simps]: "lift r s = (r, s)"
  by (simp add: lift_def)

lemma chain_Inr [simp, exec_simps]: "m s = (Inr x, s') \<Longrightarrow> chain m f s = f x s'"
  by (simp add: chain_def)

lemma chain_Inl [simp, exec_simps]: "m s = (Inl e, s') \<Longrightarrow> chain m f s = (Inl e, s')"
  by (simp add: chain_def)

lemma chain_assoc: "chain (chain m f) g = chain m (\<lambda>x. chain (f x) g)"
  by (rule ext) (auto simp: chain_def split: prod.splits sum.splits)

lemma chain_eq_Inr:
  "chain m f s = (Inr y, t) \<longleftrightarrow> (\<exists>x s'. m s = (Inr x, s') \<and> f x s' = (Inr y, t))"
  by (auto simp: chain_def split: prod.splits sum.splits)

lemma chain_eq_Inl:
  "chain m f s = (Inl e, t) \<longleftrightarrow>
     m s = (Inl e, t) \<or> (\<exists>x s'. m s = (Inr x, s') \<and> f x s' = (Inl e, t))"
  by (auto simp: chain_def split: prod.splits sum.splits)

lemma attempt_simps [simp, exec_simps]:
  "attempt (Inl e) f = Inl e"
  "attempt (Inr x) f = f x"
  by (simp_all add: attempt_def)

lemma attempt_eq_Inr: "attempt r f = Inr y \<longleftrightarrow> (\<exists>x. r = Inr x \<and> f x = Inr y)"
  by (cases r) auto

lemma attempt_eq_Inl: "attempt r f = Inl e \<longleftrightarrow> r = Inl e \<or> (\<exists>x. r = Inr x \<and> f x = Inl e)"
  by (cases r) auto

text \<open>Running a loop body over the elements of a sequence, stopping at the first error.\<close>

fun each :: "('a \<Rightarrow> ('e, 's, unit) exec) \<Rightarrow> 'a list \<Rightarrow> ('e, 's, unit) exec" where
  "each f [] s = (Inr (), s)"
| "each f (x # xs) s = chain (f x) (\<lambda>_. each f xs) s"

fun gather :: "('a \<Rightarrow> 'e + 'b) \<Rightarrow> 'a list \<Rightarrow> 'e + 'b list" where
  "gather f [] = Inr []"
| "gather f (x # xs) = attempt (f x) (\<lambda>y. attempt (gather f xs) (\<lambda>ys. Inr (y # ys)))"

lemma each_append: "each f (xs @ ys) s = chain (each f xs) (\<lambda>_. each f ys) s"
  by (induction xs arbitrary: s) (auto simp: chain_def split: prod.splits sum.splits)

lemma gather_eq_Inr: "gather f xs = Inr ys \<longleftrightarrow> list_all2 (\<lambda>x y. f x = Inr y) xs ys"
proof (induction xs arbitrary: ys)
  case Nil
  then show ?case by auto
next
  case (Cons x xs)
  then show ?case by (auto simp: attempt_eq_Inr list_all2_Cons1)
qed

lemma gather_append:
  "gather f (xs @ ys) = attempt (gather f xs) (\<lambda>us. attempt (gather f ys) (\<lambda>vs. Inr (us @ vs)))"
  by (induction xs) (auto simp: attempt_def split: sum.splits)

subsection \<open>Indexing a Python sequence\<close>

text \<open>
  \<open>xs[i]\<close> counts from the end for a negative \<open>i\<close> and raises \<open>IndexError\<close> outside
  \<open>-len \<le> i < len\<close>.
\<close>

definition py_index :: "nat \<Rightarrow> int \<Rightarrow> nat option" where
  "py_index n i =
     (let j = (if i < 0 then int n + i else i)
      in if 0 \<le> j \<and> j < int n then Some (nat j) else None)"

lemma py_index_nonneg [simp]: "0 \<le> i \<Longrightarrow> i < int n \<Longrightarrow> py_index n i = Some (nat i)"
  by (simp add: py_index_def)

lemma py_index_ge [simp]: "int n \<le> i \<Longrightarrow> py_index n i = None"
  by (simp add: py_index_def)

lemma py_index_negative: "i < 0 \<Longrightarrow> - int n \<le> i \<Longrightarrow> py_index n i = Some (nat (int n + i))"
  by (simp add: py_index_def)

lemma py_index_bound: "py_index n i = Some j \<Longrightarrow> j < n"
  by (auto simp: py_index_def Let_def split: if_splits)

lemma py_index_defined: "(\<exists>j. py_index n i = Some j) \<longleftrightarrow> - int n \<le> i \<and> i < int n"
  by (auto simp: py_index_def Let_def)

subsection \<open>Slices of lists\<close>

definition slice :: "'a list \<Rightarrow> nat \<Rightarrow> nat \<Rightarrow> 'a list" where
  "slice xs i j = take (j - i) (drop i xs)"

lemma length_slice [simp]: "j \<le> length xs \<Longrightarrow> length (slice xs i j) = j - i"
  by (simp add: slice_def)

lemma slice_empty [simp]: "j \<le> i \<Longrightarrow> slice xs i j = []"
  by (simp add: slice_def)

lemma nth_slice [simp]: "k < j - i \<Longrightarrow> j \<le> length xs \<Longrightarrow> slice xs i j ! k = xs ! (i + k)"
  by (simp add: slice_def)

lemma slice_Cons: "i < j \<Longrightarrow> j \<le> length xs \<Longrightarrow> slice xs i j = xs ! i # slice xs (Suc i) j"
  by (simp add: slice_def Cons_nth_drop_Suc [symmetric] take_Cons' Suc_diff_Suc)

lemma slice_update_outside [simp]:
  "k < i \<or> j \<le> k \<Longrightarrow> slice (xs[k := v]) i j = slice xs i j"
  by (rule nth_equalityI) (auto simp: slice_def)

lemma slice_update_inside:
  "i \<le> k \<Longrightarrow> k < j \<Longrightarrow> j \<le> length xs \<Longrightarrow> slice (xs[k := v]) i j = (slice xs i j)[k - i := v]"
  by (rule nth_equalityI) (auto simp: nth_list_update)

lemma slice_append_split:
  assumes "i \<le> j" and "j \<le> k"
  shows "slice xs i k = slice xs i j @ slice xs j k"
proof -
  have "take (k - i) (drop i xs) = take ((j - i) + (k - j)) (drop i xs)"
    using assms by simp
  also have "\<dots> = take (j - i) (drop i xs) @ take (k - j) (drop (j - i) (drop i xs))"
    by (rule take_add)
  finally show ?thesis
    using assms by (simp add: slice_def)
qed

end
