(* ===== verification/Domain.thy ===== *)
theory Domain
  imports Prelude
begin

section \<open>The domain: opcodes, transfer objects, errors and the memory map\<close>

text \<open>
  The value types of \<^verbatim>\<open>domain/\<close>, the exception hierarchy of \<^verbatim>\<open>errors.py\<close> and the memory map of
  \<^verbatim>\<open>layout.py\<close>. Addresses, program indices and cells are unbounded Python integers (\<^verbatim>\<open>domain/types.py\<close>
  gives them distinct names for the type checker only), so they are HOL integers. Source text, labels,
  mnemonics and register names are \<^typ>\<open>string\<close>, that is Python strings of code points below 256.
  Word names that live in memory are lists of code points, because a memory cell can hold any integer.
\<close>

subsection \<open>Scalar types\<close>

type_synonym address = int
type_synonym program_index = int
type_synonym cell = int
type_synonym pystr = "int list"

definition codes :: "string \<Rightarrow> pystr" where
  "codes s = map of_char s"

lemma codes_simps [simp]:
  "codes [] = []"
  "codes (c # s) = of_char c # codes s"
  "codes (s @ t) = codes s @ codes t"
  "length (codes s) = length s"
  by (simp_all add: codes_def)

lemma codes_inject [simp]: "codes s = codes t \<longleftrightarrow> s = t"
  by (simp add: codes_def inj_def inj_map_eq_map)

subsection \<open>Opcodes and the operand descriptors\<close>

datatype opcode =
  LOAD | STORE | ADD | SUB | JMP | JZ | JS | PUSH_D | POP_D | PUSH_R | POP_R
| OP_AND | OP_OR | INVERT | IN | OUT | HALT

datatype instruction_field = FieldA | FieldB | FieldOffset

datatype operand_kind = RegisterKind | RegisterOrImmediate | OffsetKind

type_synonym operand_spec = "instruction_field \<times> operand_kind"

text \<open>The members of \<^verbatim>\<open>Opcode\<close> in definition order, with their values, the mnemonics.\<close>

fun opcode_value :: "opcode \<Rightarrow> string" where
  "opcode_value LOAD = ''LOAD''"
| "opcode_value STORE = ''STORE''"
| "opcode_value ADD = ''ADD''"
| "opcode_value SUB = ''SUB''"
| "opcode_value JMP = ''JMP''"
| "opcode_value JZ = ''JZ''"
| "opcode_value JS = ''JS''"
| "opcode_value PUSH_D = ''PUSH_D''"
| "opcode_value POP_D = ''POP_D''"
| "opcode_value PUSH_R = ''PUSH_R''"
| "opcode_value POP_R = ''POP_R''"
| "opcode_value OP_AND = ''AND''"
| "opcode_value OP_OR = ''OR''"
| "opcode_value INVERT = ''INVERT''"
| "opcode_value IN = ''IN''"
| "opcode_value OUT = ''OUT''"
| "opcode_value HALT = ''HALT''"

definition opcodes :: "opcode list" where
  "opcodes = [LOAD, STORE, ADD, SUB, JMP, JZ, JS, PUSH_D, POP_D, PUSH_R, POP_R,
     OP_AND, OP_OR, INVERT, IN, OUT, HALT]"

lemma opcodes_complete [simp]: "op \<in> set opcodes"
  by (cases op) (simp_all add: opcodes_def)

text \<open>The reserved registers of \<^verbatim>\<open>domain/register.py\<close>: their values are plain register names.\<close>

definition Register_IP :: string where "Register_IP = ''IP''"
definition Register_W :: string where "Register_W = ''W''"
definition Register_XT :: string where "Register_XT = ''XT''"
definition Register_NEXT_POINTER :: string where "Register_NEXT_POINTER = ''NEXTREG''"

lemmas register_names = Register_IP_def Register_W_def Register_XT_def Register_NEXT_POINTER_def

subsection \<open>Transfer objects\<close>

datatype operand = Reg string | Imm int

record instruction =
  opcode :: opcode
  opa :: "string option"
  opb :: "operand option"
  offset :: "int option"

definition instr :: "opcode \<Rightarrow> string option \<Rightarrow> operand option \<Rightarrow> int option \<Rightarrow> instruction" where
  "instr op x y z = \<lparr>opcode = op, opa = x, opb = y, offset = z\<rparr>"

lemma instr_sel [simp]:
  "opcode (instr op x y z) = op"
  "opa (instr op x y z) = x"
  "opb (instr op x y z) = y"
  "offset (instr op x y z) = z"
  by (simp_all add: instr_def)

lemma instr_eq [simp]:
  "instr op x y z = instr op' x' y' z' \<longleftrightarrow> op = op' \<and> x = x' \<and> y = y' \<and> z = z'"
  by (auto simp: instr_def)

type_synonym program = "instruction list"

record line =
  lineno :: nat
  labels :: "string list"
  mnemonic :: "string option"
  operands :: "string list"
  laddress :: int

definition with_address :: "line \<Rightarrow> int \<Rightarrow> line" where
  "with_address l a = l\<lparr>laddress := a\<rparr>"

text \<open>A label table is a Python dictionary from names to program indices.\<close>

type_synonym label_table = "string \<rightharpoonup> program_index"

record resolved_program =
  rlines :: "line list"
  rlabels :: label_table

record assembly =
  aprogram :: program
  alabels :: label_table

record code_word =
  cw_name :: string
  cw_routine_label :: string
  cw_immediate :: bool

record colon_word =
  col_name :: string
  col_words :: "string list"
  col_immediate :: bool

datatype word_spec = CodeWord code_word | ColonWord colon_word

datatype thread_item = WordReference string | LiteralCell cell

text \<open>
  The header layout \<^verbatim>\<open>[link][immediate][smudge][name-length][name...][code-field]\<close>: the offset of
  each field from the header's first cell (\<^verbatim>\<open>HeaderField\<close>).
\<close>

definition LINK :: int where "LINK = 0"
definition IMMEDIATE :: int where "IMMEDIATE = 1"
definition SMUDGE :: int where "SMUDGE = 2"
definition NAME_LENGTH :: int where "NAME_LENGTH = 3"
definition NAME :: int where "NAME = 4"

lemmas header_fields [simp] = LINK_def IMMEDIATE_def SMUDGE_def NAME_LENGTH_def NAME_def

record dictionary_header =
  hname :: pystr
  hlink :: address
  himmediate :: bool
  hsmudge :: bool
  hcfa :: address

record kernel_image =
  kprogram :: program
  kword_cfas :: "string \<rightharpoonup> address"
  kboot_ip :: address

subsection \<open>Errors\<close>

text \<open>
  \<^verbatim>\<open>errors.py\<close>, and the built-in exceptions the code can let through. Messages are kept as the data
  they are formatted from.
\<close>

datatype asm_fault =
  MalformedMnemonic string
| DuplicateLabel nat string
| UnknownMnemonic nat string
| OperandCount nat string nat nat
| ExpectedRegisterName nat string
| UndefinedBranchLabel nat string
| ExpectedConstant nat string

datatype emu_fault =
  ExpectedRegister "operand option"
| MissingOffset
| ExceededSteps int

datatype kernel_fault = StartMisplaced | NotInstalled string

datatype error =
  StackError string
| EmulatorError emu_fault
| InputExhaustedError
| AssemblerError asm_fault
| UnknownWordError string
| KernelError kernel_fault
| IndexError
| KeyError string
| ValueError
| ZeroDivisionError
| TypeError
| RecursionError
| OverflowError string
| AttributeError string

text \<open>The subclasses of \<^verbatim>\<open>MachineError\<close>: everything the package itself raises.\<close>

fun is_machine_error :: "error \<Rightarrow> bool" where
  "is_machine_error (StackError _) = True"
| "is_machine_error (EmulatorError _) = True"
| "is_machine_error InputExhaustedError = True"
| "is_machine_error (AssemblerError _) = True"
| "is_machine_error (UnknownWordError _) = True"
| "is_machine_error (KernelError _) = True"
| "is_machine_error _ = False"

subsection \<open>The memory map\<close>

definition CELL_SIZE :: int where [simp]: "CELL_SIZE = 1"
definition DICTIONARY_SIZE :: int where [simp]: "DICTIONARY_SIZE = 2048"
definition DATA_STACK_SIZE :: int where [simp]: "DATA_STACK_SIZE = 1024"
definition RETURN_STACK_SIZE :: int where [simp]: "RETURN_STACK_SIZE = 1024"
definition DATA_STACK_BASE :: address where [simp]: "DATA_STACK_BASE = DICTIONARY_SIZE + DATA_STACK_SIZE"
definition RETURN_STACK_BASE :: address where [simp]: "RETURN_STACK_BASE = DATA_STACK_BASE + RETURN_STACK_SIZE"
definition MEMORY_SIZE :: int where [simp]: "MEMORY_SIZE = RETURN_STACK_BASE"
definition SYSTEM_VARS_BASE :: address where [simp]: "SYSTEM_VARS_BASE = 0"
definition DP_ADDR :: address where [simp]: "DP_ADDR = SYSTEM_VARS_BASE + 0"
definition LATEST_ADDR :: address where [simp]: "LATEST_ADDR = SYSTEM_VARS_BASE + 1"
definition SYSTEM_VARS_SIZE :: int where [simp]: "SYSTEM_VARS_SIZE = 8"
definition DICTIONARY_BASE :: address where [simp]: "DICTIONARY_BASE = SYSTEM_VARS_BASE + SYSTEM_VARS_SIZE"
definition DICTIONARY_TOP :: address where [simp]: "DICTIONARY_TOP = DICTIONARY_SIZE"
definition WORD_BUFFER_SIZE :: int where [simp]: "WORD_BUFFER_SIZE = 64"
definition WORD_BUFFER_BASE :: address where [simp]: "WORD_BUFFER_BASE = DICTIONARY_SIZE - WORD_BUFFER_SIZE"

end
