(* ===== verification/PyText.thy ===== *)
theory PyText
  imports Prelude
begin

section \<open>The Python string operations the assembler uses\<close>

text \<open>
  \<^verbatim>\<open>str.splitlines\<close>, \<^verbatim>\<open>str.strip\<close>, \<^verbatim>\<open>str.split\<close>, \<^verbatim>\<open>str.isalnum\<close>, \<^verbatim>\<open>str.isidentifier\<close>, \<^verbatim>\<open>int(s, 0)\<close> and the
  character classes of \<^verbatim>\<open>re\<close>, on strings of code points below 256 (a HOL \<^typ>\<open>char\<close> is one such code
  point). The classes are those of the Unicode database for that range.
\<close>

subsection \<open>Character classes\<close>

definition between :: "nat \<Rightarrow> nat \<Rightarrow> nat \<Rightarrow> bool" where
  "between lo hi n \<longleftrightarrow> lo \<le> n \<and> n \<le> hi"

definition code_point :: "char \<Rightarrow> nat" where
  "code_point c = of_char c"

definition is_upper :: "nat \<Rightarrow> bool" where "is_upper n = between 65 90 n"
definition is_lower :: "nat \<Rightarrow> bool" where "is_lower n = between 97 122 n"
definition is_digit :: "nat \<Rightarrow> bool" where "is_digit n = between 48 57 n"

text \<open>\<^verbatim>\<open>str.isspace\<close>, which is also the \<^verbatim>\<open>\s\<close> of \<^verbatim>\<open>re\<close> and what \<^verbatim>\<open>strip\<close> and \<^verbatim>\<open>split\<close> remove.\<close>

definition isspace :: "char \<Rightarrow> bool" where
  "isspace c = (let n = code_point c in between 9 13 n \<or> between 28 32 n \<or> n = 133 \<or> n = 160)"

text \<open>Letters outside ASCII, and the digits and fractions \<^verbatim>\<open>isalnum\<close> also accepts.\<close>

definition latin_letter :: "nat \<Rightarrow> bool" where
  "latin_letter n \<longleftrightarrow> n = 170 \<or> n = 181 \<or> n = 186 \<or> between 192 214 n \<or> between 216 246 n \<or> between 248 255 n"

definition latin_number :: "nat \<Rightarrow> bool" where
  "latin_number n \<longleftrightarrow> n = 178 \<or> n = 179 \<or> n = 185 \<or> between 188 190 n"

definition isalnum_char :: "char \<Rightarrow> bool" where
  "isalnum_char c =
     (let n = code_point c in is_upper n \<or> is_lower n \<or> is_digit n \<or> latin_letter n \<or> latin_number n)"

text \<open>\<^verbatim>\<open>\w\<close> and the first character of \<^verbatim>\<open>[A-Za-z_]\w*\<close>.\<close>

definition word_char :: "char \<Rightarrow> bool" where
  "word_char c \<longleftrightarrow> c = CHR ''_'' \<or> isalnum_char c"

definition label_start :: "char \<Rightarrow> bool" where
  "label_start c \<longleftrightarrow> c = CHR ''_'' \<or> (let n = code_point c in is_upper n \<or> is_lower n)"

text \<open>\<^verbatim>\<open>str.isidentifier\<close>: \<open>XID_Start\<close> or an underscore, then \<open>XID_Continue\<close>.\<close>

definition ident_start :: "char \<Rightarrow> bool" where
  "ident_start c \<longleftrightarrow> c = CHR ''_'' \<or> (let n = code_point c in is_upper n \<or> is_lower n \<or> latin_letter n)"

definition ident_char :: "char \<Rightarrow> bool" where
  "ident_char c \<longleftrightarrow> ident_start c \<or> (let n = code_point c in is_digit n \<or> n = 183)"

fun isidentifier :: "string \<Rightarrow> bool" where
  "isidentifier [] = False"
| "isidentifier (c # cs) = (ident_start c \<and> list_all ident_char cs)"

definition isalnum :: "string \<Rightarrow> bool" where
  "isalnum s \<longleftrightarrow> s \<noteq> [] \<and> list_all isalnum_char s"

lemmas char_classes = code_point_def between_def is_upper_def is_lower_def is_digit_def isspace_def
  latin_letter_def latin_number_def isalnum_char_def word_char_def label_start_def
  ident_start_def ident_char_def Let_def

subsection \<open>Lines and fields\<close>

text \<open>
  \<^verbatim>\<open>str.splitlines()\<close>: a carriage return followed by a line feed is one boundary, and a boundary at
  the end starts no further line.
\<close>

definition is_line_break :: "char \<Rightarrow> bool" where
  "is_line_break c = (let n = code_point c in between 10 13 n \<or> between 28 30 n \<or> n = 133)"

definition onto_first :: "char \<Rightarrow> string list \<Rightarrow> string list" where
  "onto_first c ls = (case ls of [] \<Rightarrow> [[c]] | l # ls' \<Rightarrow> (c # l) # ls')"

fun splitlines :: "string \<Rightarrow> string list" where
  "splitlines [] = []"
| "splitlines (c # cs) =
     (if c = CHR 0x0D then
        (case cs of
           d # ds \<Rightarrow> [] # splitlines (if d = CHR 0x0A then ds else cs)
         | [] \<Rightarrow> [[]])
      else if is_line_break c then [] # splitlines cs
      else onto_first c (splitlines cs))"

definition lstrip :: "string \<Rightarrow> string" where
  "lstrip s = dropWhile isspace s"

definition strip :: "string \<Rightarrow> string" where
  "strip s = rev (lstrip (rev (lstrip s)))"

text \<open>\<^verbatim>\<open>s.split(c, 1)[0]\<close>, \<^verbatim>\<open>s.split(c)\<close> and \<^verbatim>\<open>s.split(None, 1)\<close> for an \<open>s\<close> that starts with no space.\<close>

definition before :: "char \<Rightarrow> string \<Rightarrow> string" where
  "before d s = takeWhile (\<lambda>c. c \<noteq> d) s"

fun split_on :: "char \<Rightarrow> string \<Rightarrow> string \<Rightarrow> string list" where
  "split_on d acc [] = [rev acc]"
| "split_on d acc (c # cs) =
     (if c = d then rev acc # split_on d [] cs else split_on d (c # acc) cs)"

definition first_field :: "string \<Rightarrow> string \<times> string" where
  "first_field s = (takeWhile (\<lambda>c. \<not> isspace c) s, lstrip (dropWhile (\<lambda>c. \<not> isspace c) s))"

subsection \<open>Integer literals: \<open>int(s, 0)\<close>\<close>

fun digit_value :: "char \<Rightarrow> nat option" where
  "digit_value c =
     (let n = code_point c in
      if is_digit n then Some (n - 48)
      else if is_lower n then Some (n - 87)
      else if is_upper n then Some (n - 55)
      else None)"

text \<open>
  Digits of the base, with single underscores between them. \<open>seen\<close> says whether the previous
  character was a digit; the literal must end with one.
\<close>

fun digits_from :: "nat \<Rightarrow> bool \<Rightarrow> nat \<Rightarrow> string \<Rightarrow> nat option" where
  "digits_from b seen acc [] = (if seen then Some acc else None)"
| "digits_from b seen acc (c # cs) =
     (if c = CHR ''_'' then (if seen then digits_from b False acc cs else None)
      else case digit_value c of
             None \<Rightarrow> None
           | Some d \<Rightarrow> if d < b then digits_from b True (acc * b + d) cs else None)"

text \<open>
  CPython refuses a literal of more than 4300 digits in a base that is not a power of two
  (\<^verbatim>\<open>sys.set_int_max_str_digits\<close>, default value).
\<close>

definition int_max_str_digits :: nat where [simp]: "int_max_str_digits = 4300"

definition decimal_digits :: "string \<Rightarrow> nat option" where
  "decimal_digits s =
     (if length (filter (\<lambda>c. c \<noteq> CHR ''_'') s) > int_max_str_digits then None
      else digits_from 10 False 0 s)"

text \<open>After a base prefix one underscore is allowed before the first digit.\<close>

definition prefixed_digits :: "nat \<Rightarrow> string \<Rightarrow> nat option" where
  "prefixed_digits b s =
     (case s of c # cs \<Rightarrow> if c = CHR ''_'' then digits_from b False 0 cs else digits_from b False 0 s
      | [] \<Rightarrow> None)"

text \<open>
  No prefix and a leading zero: only zero itself may be written so (\<^verbatim>\<open>0\<close>, \<^verbatim>\<open>00\<close>, \<^verbatim>\<open>0_0\<close>).
\<close>

definition unsigned_literal :: "string \<Rightarrow> nat option" where
  "unsigned_literal s =
     (case s of
        [] \<Rightarrow> None
      | c # cs \<Rightarrow>
          if c \<noteq> CHR ''0'' then decimal_digits s
          else (case cs of
                  [] \<Rightarrow> Some 0
                | p # ps \<Rightarrow>
                    if p = CHR ''x'' \<or> p = CHR ''X'' then prefixed_digits 16 ps
                    else if p = CHR ''o'' \<or> p = CHR ''O'' then prefixed_digits 8 ps
                    else if p = CHR ''b'' \<or> p = CHR ''B'' then prefixed_digits 2 ps
                    else (case decimal_digits s of
                            Some n \<Rightarrow> if n = 0 then Some 0 else None
                          | None \<Rightarrow> None)))"

definition int_literal :: "string \<Rightarrow> int option" where
  "int_literal t =
     (case strip t of
        [] \<Rightarrow> None
      | c # cs \<Rightarrow>
          if c = CHR ''-'' then map_option (\<lambda>n. - int n) (unsigned_literal cs)
          else if c = CHR ''+'' then map_option int (unsigned_literal cs)
          else map_option int (unsigned_literal (c # cs)))"

text \<open>An identifier is never an integer literal: it has no blanks and starts with a letter or an underscore.\<close>

lemma ident_char_no_space: "ident_char c \<Longrightarrow> \<not> isspace c"
  by (auto simp: ident_char_def ident_start_def isspace_def latin_letter_def is_upper_def is_lower_def
      is_digit_def between_def code_point_def Let_def)

lemma lstrip_no_space: "list_all (\<lambda>c. \<not> isspace c) s \<Longrightarrow> lstrip s = s"
  by (cases s) (auto simp: lstrip_def)

lemma strip_no_space: "list_all (\<lambda>c. \<not> isspace c) s \<Longrightarrow> strip s = s"
  by (simp add: strip_def lstrip_no_space)

lemma ident_start_not_digit: "ident_start c \<Longrightarrow> c \<noteq> CHR ''_'' \<Longrightarrow> digit_value c = Some d \<Longrightarrow> \<not> d < 10"
  by (auto simp: ident_start_def latin_letter_def is_upper_def is_lower_def is_digit_def between_def Let_def
      split: if_splits)

lemma ident_start_punctuation [simp]: "\<not> ident_start CHR ''-''" "\<not> ident_start CHR ''+''" "\<not> ident_start CHR ''0''"
  by (simp_all add: ident_start_def latin_letter_def is_upper_def is_lower_def between_def code_point_def)

lemma int_literal_identifier:
  assumes "isidentifier t"
  shows "int_literal t = None"
proof (cases t)
  case (Cons c cs)
  with assms have c: "ident_start c" "list_all ident_char (c # cs)" by (auto simp: ident_char_def)
  then have "strip (c # cs) = c # cs"
    by (intro strip_no_space) (auto simp: list_all_iff ident_char_no_space)
  moreover have "decimal_digits (c # cs) = None"
    using ident_start_not_digit [OF c(1)] by (auto simp: decimal_digits_def split: option.splits simp del: digit_value.simps)
  moreover from c have "c \<noteq> CHR ''-''" "c \<noteq> CHR ''+''" "c \<noteq> CHR ''0''" by auto
  ultimately show ?thesis
    by (simp add: Cons int_literal_def unsigned_literal_def)
qed (use assms in simp)

subsection \<open>Decimal rendering: \<open>str(n)\<close> in an f-string\<close>

fun decimal :: "nat \<Rightarrow> string" where
  "decimal n =
     (if n < 10 then [''0123456789'' ! n] else decimal (n div 10) @ [''0123456789'' ! (n mod 10)])"

declare decimal.simps [simp del]

definition py_str_int :: "int \<Rightarrow> string" where
  "py_str_int i = (if i < 0 then CHR ''-'' # decimal (nat (- i)) else decimal (nat i))"

subsection \<open>Deciding the classes on literal characters\<close>

text \<open>
  The same classes by the bits of an ASCII character, least significant bit first. These equations
  let the simplifier run the string functions on the texts of the program without arithmetic.
\<close>

named_theorems text_simps \<open>evaluation of string functions on literals\<close>

lemma is_line_break_bits [text_simps]:
  "is_line_break (Char b0 b1 b2 b3 b4 True b6 b7) = False"
  "is_line_break (Char b0 b1 b2 b3 b4 b5 True b7) = False"
  by (cases b0; cases b1; cases b2; cases b3; cases b4; cases b6; cases b7;
      simp add: is_line_break_def char_classes)
    (cases b0; cases b1; cases b2; cases b3; cases b4; cases b5; cases b7;
      simp add: is_line_break_def char_classes)

lemma isspace_bits [text_simps]:
  "isspace (Char b0 b1 b2 b3 b4 b5 True b7) = False"
  "isspace (Char b0 b1 b2 b3 b4 True False b7) \<longleftrightarrow> \<not> b0 \<and> \<not> b1 \<and> \<not> b2 \<and> \<not> b3 \<and> \<not> b4"
  by (cases b0; cases b1; cases b2; cases b3; cases b4; cases b5; cases b7; simp add: char_classes)
    (cases b0; cases b1; cases b2; cases b3; cases b4; cases b7; simp add: char_classes)

lemma isalnum_char_bits [text_simps]:
  "isalnum_char (Char b0 b1 b2 b3 b4 b5 b6 False) \<longleftrightarrow>
     b6 \<and> (b0 \<or> b1 \<or> b2 \<or> b3 \<or> b4) \<and> \<not> (b4 \<and> b3 \<and> (b2 \<or> b1 \<and> b0)) \<or>
     \<not> b6 \<and> b5 \<and> b4 \<and> \<not> (b3 \<and> (b1 \<or> b2))"
  by (cases b0; cases b1; cases b2; cases b3; cases b4; cases b5; cases b6; simp add: char_classes)

lemma word_char_bits [text_simps]:
  "word_char (Char b0 b1 b2 b3 b4 b5 b6 False) \<longleftrightarrow>
     b6 \<and> (b0 \<or> b1 \<or> b2 \<or> b3 \<or> b4) \<and> \<not> (b4 \<and> b3 \<and> (b2 \<or> b1 \<and> b0)) \<or>
     b6 \<and> \<not> b5 \<and> b4 \<and> b3 \<and> b2 \<and> b1 \<and> b0 \<or>
     \<not> b6 \<and> b5 \<and> b4 \<and> \<not> (b3 \<and> (b1 \<or> b2))"
  by (cases b0; cases b1; cases b2; cases b3; cases b4; cases b5; cases b6; simp add: char_classes)

lemma label_start_bits [text_simps]:
  "label_start (Char b0 b1 b2 b3 b4 b5 b6 False) \<longleftrightarrow>
     b6 \<and> (b0 \<or> b1 \<or> b2 \<or> b3 \<or> b4) \<and> \<not> (b4 \<and> b3 \<and> (b2 \<or> b1 \<and> b0)) \<or>
     b6 \<and> \<not> b5 \<and> b4 \<and> b3 \<and> b2 \<and> b1 \<and> b0"
  by (cases b0; cases b1; cases b2; cases b3; cases b4; cases b5; cases b6; simp add: char_classes)

lemma ident_start_bits [text_simps]:
  "ident_start (Char b0 b1 b2 b3 b4 b5 b6 False) =
   label_start (Char b0 b1 b2 b3 b4 b5 b6 False)"
  by (cases b0; cases b1; cases b2; cases b3; cases b4; cases b5; cases b6; simp add: char_classes)

lemma ident_char_bits [text_simps]:
  "ident_char (Char b0 b1 b2 b3 b4 b5 b6 False) =
   word_char (Char b0 b1 b2 b3 b4 b5 b6 False)"
  by (cases b0; cases b1; cases b2; cases b3; cases b4; cases b5; cases b6; simp add: char_classes)

lemma onto_first_simps [text_simps]:
  "onto_first c [] = [[c]]"
  "onto_first c (l # ls) = (c # l) # ls"
  by (simp_all add: onto_first_def)

lemma splitlines_bits [text_simps]:
  "splitlines [] = []"
  "splitlines (Char b0 b1 b2 b3 b4 True b6 b7 # cs) =
     onto_first (Char b0 b1 b2 b3 b4 True b6 b7) (splitlines cs)"
  "splitlines (Char b0 b1 b2 b3 b4 b5 True b7 # cs) =
     onto_first (Char b0 b1 b2 b3 b4 b5 True b7) (splitlines cs)"
  "splitlines (CHR 0x0A # cs) = [] # splitlines cs"
  by (simp_all add: is_line_break_bits) (simp add: is_line_break_def char_classes)

declare splitlines.simps [simp del]

end
