(* ===== verification/Parser.thy ===== *)
theory Parser
  imports Domain PyText
begin

section \<open>The first assembler stage: the line parser\<close>

text \<open>
  \<^verbatim>\<open>services/assembler/parser.py\<close>: source text to one \<^typ>\<open>line\<close> per source line, with the comment
  and the leading \<^verbatim>\<open>label:\<close> definitions peeled off. Addresses are not assigned yet (\<open>-1\<close>).
\<close>

subsection \<open>The code\<close>

text \<open>One match of \<^verbatim>\<open>_LABEL_PREFIX\<close>, \<^verbatim>\<open>\s*([A-Za-z_]\w*):\<close>: the label and the text after the colon.\<close>

definition label_prefix :: "string \<Rightarrow> (string \<times> string) option" where
  "label_prefix s =
     (case lstrip s of
        [] \<Rightarrow> None
      | c # cs \<Rightarrow>
          if label_start c then
            (case dropWhile word_char (c # cs) of
               [] \<Rightarrow> None
             | d # rest \<Rightarrow> if d = CHR '':'' then Some (takeWhile word_char (c # cs), rest) else None)
          else None)"

lemma length_lstrip: "length (lstrip s) \<le> length s"
  by (simp add: lstrip_def length_dropWhile_le)

lemma label_prefix_shorter: "label_prefix s = Some (l, r) \<Longrightarrow> length r < length s"
proof -
  assume m: "label_prefix s = Some (l, r)"
  then obtain c cs d where s: "lstrip s = c # cs" and d: "dropWhile word_char (c # cs) = d # r"
    by (auto simp: label_prefix_def split: list.splits if_splits)
  have "length (d # r) \<le> length (c # cs)"
    using length_dropWhile_le [of word_char "c # cs"] d by simp
  also have "\<dots> \<le> length s"
    using length_lstrip [of s] s by simp
  finally show ?thesis by simp
qed

text \<open>The \<^verbatim>\<open>while\<close> loop of \<^verbatim>\<open>_parse_line\<close>: all leading labels and the remaining text.\<close>

function peel_labels :: "string \<Rightarrow> string list \<times> string" where
  "peel_labels work =
     (case label_prefix work of
        None \<Rightarrow> ([], work)
      | Some (l, rest) \<Rightarrow> (case peel_labels rest of (ls, w) \<Rightarrow> (l # ls, w)))"
  by pat_completeness auto
termination
  by (relation "measure length") (auto dest: label_prefix_shorter)

declare peel_labels.simps [simp del]

definition remove_underscores :: "string \<Rightarrow> string" where
  "remove_underscores s = filter (\<lambda>c. c \<noteq> CHR ''_'') s"

definition split_mnemonic :: "string \<Rightarrow> error + (string \<times> string)" where
  "split_mnemonic txt =
     (let (first, rest) = first_field txt in
      if isalnum (remove_underscores first) then Inr (first, rest)
      else Inl (AssemblerError (MalformedMnemonic first)))"

definition split_operands :: "string \<Rightarrow> string list" where
  "split_operands s = filter (\<lambda>p. p \<noteq> []) (map strip (split_on CHR '','' [] s))"

definition mk_line :: "nat \<Rightarrow> string list \<Rightarrow> string option \<Rightarrow> string list \<Rightarrow> line" where
  "mk_line n ls m ops = \<lparr>lineno = n, labels = ls, mnemonic = m, operands = ops, laddress = -1\<rparr>"

definition parse_line :: "nat \<Rightarrow> string \<Rightarrow> error + line" where
  "parse_line n raw =
     (let (ls, rest) = peel_labels (before CHR '';'' raw); work = strip rest in
      if work = [] then Inr (mk_line n ls None [])
      else attempt (split_mnemonic work) (\<lambda>(m, remainder).
             Inr (mk_line n ls (Some m) (split_operands remainder))))"

text \<open>\<^verbatim>\<open>enumerate(source.splitlines(), start=1)\<close>, parsed in order: the first bad line raises.\<close>

fun parse_lines :: "nat \<Rightarrow> string list \<Rightarrow> error + line list" where
  "parse_lines n [] = Inr []"
| "parse_lines n (raw # raws) =
     attempt (parse_line n raw) (\<lambda>l. attempt (parse_lines (Suc n) raws) (\<lambda>ls. Inr (l # ls)))"

definition parse :: "string \<Rightarrow> error + line list" where
  "parse source = parse_lines 1 (splitlines source)"

subsection \<open>Joining texts\<close>

text \<open>
  The lines of a text that is empty or ends with a line feed and has no other kind of line boundary:
  such texts can be joined without touching each other's lines.
\<close>

fun grow :: "char \<Rightarrow> string list option \<Rightarrow> string list option" where
  "grow c (Some (l # ls)) = Some ((c # l) # ls)"
| "grow c (Some []) = None"
| "grow c None = None"

fun closed_lines :: "string \<Rightarrow> string list option" where
  "closed_lines [] = Some []"
| "closed_lines (c # cs) =
     (if c = CHR 0x0A then map_option (Cons []) (closed_lines cs)
      else if is_line_break c then None
      else grow c (closed_lines cs))"

lemma grow_Some: "grow c x = Some ys \<longleftrightarrow> (\<exists>l ls. x = Some (l # ls) \<and> ys = (c # l) # ls)"
  by (cases "(c, x)" rule: grow.cases) auto

lemma closed_lines_append: "closed_lines s = Some ls \<Longrightarrow> splitlines (s @ t) = ls @ splitlines t"
proof (induction s arbitrary: ls)
  case Nil
  then show ?case by simp
next
  case (Cons c s)
  show ?case
  proof (cases "c = CHR 0x0A")
    case True
    with Cons show ?thesis by (auto simp: splitlines_bits)
  next
    case False
    with Cons.prems obtain l ls' where *: "\<not> is_line_break c" "closed_lines s = Some (l # ls')" "ls = (c # l) # ls'"
      by (auto simp: grow_Some split: if_splits)
    then have "c \<noteq> CHR 0x0D" by (auto simp: is_line_break_def char_classes)
    with * Cons.IH [OF *(2)] show ?thesis by (simp add: splitlines.simps(2) [of c] onto_first_def)
  qed
qed

lemma closed_lines_split: "closed_lines s = Some ls \<Longrightarrow> splitlines s = ls"
  using closed_lines_append [of s ls "[]"] by (simp add: splitlines_bits)

lemma closed_lines_join:
  "closed_lines s = Some ls \<Longrightarrow> closed_lines t = Some ls' \<Longrightarrow> closed_lines (s @ t) = Some (ls @ ls')"
proof (induction s arbitrary: ls)
  case Nil
  then show ?case by simp
next
  case (Cons c s)
  then show ?case by (auto simp: grow_Some split: if_splits)
qed

lemma closed_lines_bits [text_simps]:
  "closed_lines [] = Some []"
  "closed_lines (Char b0 b1 b2 b3 b4 True b6 b7 # cs) =
     grow (Char b0 b1 b2 b3 b4 True b6 b7) (closed_lines cs)"
  "closed_lines (Char b0 b1 b2 b3 b4 b5 True b7 # cs) =
     grow (Char b0 b1 b2 b3 b4 b5 True b7) (closed_lines cs)"
  "closed_lines (CHR 0x0A # cs) = map_option (Cons []) (closed_lines cs)"
  by (simp_all add: is_line_break_bits)

declare closed_lines.simps [simp del]

lemma parse_lines_append:
  "parse_lines n (xs @ ys) = attempt (parse_lines n xs) (\<lambda>us.
     attempt (parse_lines (n + length xs) ys) (\<lambda>vs. Inr (us @ vs)))"
  by (induction xs arbitrary: n) (auto simp: attempt_def split: sum.splits)

subsection \<open>Evaluation on literal text\<close>

lemma mk_line_sel [simp]:
  "lineno (mk_line n ls m ops) = n"
  "labels (mk_line n ls m ops) = ls"
  "mnemonic (mk_line n ls m ops) = m"
  "operands (mk_line n ls m ops) = ops"
  "laddress (mk_line n ls m ops) = -1"
  by (simp_all add: mk_line_def)

lemmas parse_evals = parse_line_def label_prefix_def lstrip_def strip_def before_def
  split_mnemonic_def split_operands_def first_field_def remove_underscores_def isalnum_def

end
