(* ===== verification/Resolver.thy ===== *)
theory Resolver
  imports Parser
begin

section \<open>The second assembler stage: the label address resolver\<close>

text \<open>
  \<^verbatim>\<open>services/assembler/resolver.py\<close>: one walk over the parsed lines that gives every label the program
  index of the line it stands on, and every line its own index. The lemmas say that the table holds
  exactly the labels of the unit, that it is refused exactly when a label is defined twice, and that
  line addresses are the running sum of the line sizes.
\<close>

subsection \<open>The code\<close>

definition SET_MNEMONIC :: string where [simp]: "SET_MNEMONIC = ''SET''"
definition MOV_MNEMONIC :: string where [simp]: "MOV_MNEMONIC = ''MOV''"

definition PSEUDO_OP_SIZES :: "string \<rightharpoonup> int" where
  "PSEUDO_OP_SIZES = [SET_MNEMONIC \<mapsto> 2, MOV_MNEMONIC \<mapsto> 2]"

definition line_size :: "line \<Rightarrow> int" where
  "line_size l =
     (case mnemonic l of
        None \<Rightarrow> 0
      | Some m \<Rightarrow> (case PSEUDO_OP_SIZES m of Some n \<Rightarrow> n | None \<Rightarrow> 1))"

fun define_labels :: "nat \<Rightarrow> program_index \<Rightarrow> string list \<Rightarrow> label_table \<Rightarrow> error + label_table" where
  "define_labels n addr [] tab = Inr tab"
| "define_labels n addr (name # names) tab =
     (if tab name \<noteq> None then Inl (AssemblerError (DuplicateLabel n name))
      else define_labels n addr names (tab(name \<mapsto> addr)))"

fun place_lines :: "line list \<Rightarrow> program_index \<Rightarrow> label_table \<Rightarrow> error + (line list \<times> label_table)" where
  "place_lines [] addr tab = Inr ([], tab)"
| "place_lines (l # ls) addr tab =
     attempt (define_labels (lineno l) addr (labels l) tab) (\<lambda>tab'.
     attempt (place_lines ls (addr + line_size l) tab') (\<lambda>(placed, tab'').
       Inr (with_address l addr # placed, tab'')))"

definition resolve :: "line list \<Rightarrow> error + resolved_program" where
  "resolve ls =
     attempt (place_lines ls 0 (\<lambda>_. None)) (\<lambda>(placed, tab). Inr \<lparr>rlines = placed, rlabels = tab\<rparr>)"

subsection \<open>Sizes and addresses\<close>

lemma with_address_sel [simp]:
  "lineno (with_address l a) = lineno l"
  "labels (with_address l a) = labels l"
  "mnemonic (with_address l a) = mnemonic l"
  "operands (with_address l a) = operands l"
  "laddress (with_address l a) = a"
  by (simp_all add: with_address_def)

lemma line_size_with_address [simp]: "line_size (with_address l a) = line_size l"
  by (simp add: line_size_def)

lemma line_size_cases: "line_size l = 0 \<or> line_size l = 1 \<or> line_size l = 2"
  by (auto simp: line_size_def PSEUDO_OP_SIZES_def split: option.splits)

lemma line_size_nonneg [simp]: "0 \<le> line_size l"
  using line_size_cases [of l] by auto

definition total_size :: "line list \<Rightarrow> int" where
  "total_size ls = sum_list (map line_size ls)"

lemma total_size_simps [simp]:
  "total_size [] = 0"
  "total_size (l # ls) = line_size l + total_size ls"
  "total_size (ls @ ls') = total_size ls + total_size ls'"
  by (simp_all add: total_size_def)

lemma total_size_nonneg [simp]: "0 \<le> total_size ls"
  by (induction ls) auto

fun addresses_from :: "int \<Rightarrow> line list \<Rightarrow> bool" where
  "addresses_from a [] = True"
| "addresses_from a (l # ls) = (laddress l = a \<and> addresses_from (a + line_size l) ls)"

lemma addresses_from_append:
  "addresses_from a (ls @ ls') \<longleftrightarrow> addresses_from a ls \<and> addresses_from (a + total_size ls) ls'"
  by (induction ls arbitrary: a) (auto simp: algebra_simps)

subsection \<open>The label table\<close>

lemma define_labels_eq:
  "define_labels n a names tab = Inr tab' \<longleftrightarrow>
     distinct names \<and> (\<forall>x \<in> set names. tab x = None) \<and>
     tab' = (\<lambda>x. if x \<in> set names then Some a else tab x)"
proof (induction names arbitrary: tab)
  case Nil
  then show ?case by auto
next
  case (Cons x xs)
  then show ?case by (auto simp: fun_eq_iff)
qed

lemma define_labels_error:
  "define_labels n a names tab = Inl e \<Longrightarrow> \<exists>x \<in> set names. e = AssemblerError (DuplicateLabel n x)"
  by (induction names arbitrary: tab) (auto split: if_splits)

text \<open>Where each label of the unit stands: the address its line will get.\<close>

fun label_sites :: "int \<Rightarrow> line list \<Rightarrow> (string \<times> int) list" where
  "label_sites a [] = []"
| "label_sites a (l # ls) = map (\<lambda>x. (x, a)) (labels l) @ label_sites (a + line_size l) ls"

definition all_labels :: "line list \<Rightarrow> string list" where
  "all_labels ls = concat (map labels ls)"

lemma all_labels_simps [simp]:
  "all_labels [] = []"
  "all_labels (l # ls) = labels l @ all_labels ls"
  by (simp_all add: all_labels_def)

lemma map_fst_label_sites [simp]: "map fst (label_sites a ls) = all_labels ls"
  by (induction ls arbitrary: a) (auto simp: comp_def)

lemma set_all_labels: "set (all_labels ls) = fst ` set (label_sites a ls)"
  by (metis list.set_map map_fst_label_sites)

text \<open>The placed lines are determined by the parsed ones and the start address.\<close>

fun placed_from :: "int \<Rightarrow> line list \<Rightarrow> line list" where
  "placed_from a [] = []"
| "placed_from a (l # ls) = with_address l a # placed_from (a + line_size l) ls"

lemma place_lines_eq:
  "place_lines ls a tab = Inr (placed, tab') \<longleftrightarrow>
     distinct (all_labels ls) \<and> (\<forall>x \<in> set (all_labels ls). tab x = None) \<and>
     tab' = tab ++ map_of (label_sites a ls) \<and> placed = placed_from a ls"
proof (induction ls arbitrary: a tab placed tab')
  case Nil
  then show ?case by auto
next
  case (Cons l ls)
  let ?t = "\<lambda>x. if x \<in> set (labels l) then Some a else tab x"
  have step: "place_lines (l # ls) a tab = Inr (placed, tab') \<longleftrightarrow>
      define_labels (lineno l) a (labels l) tab = Inr ?t \<and>
      (\<exists>rest. placed = with_address l a # rest \<and> place_lines ls (a + line_size l) ?t = Inr (rest, tab'))"
    by (auto simp: attempt_eq_Inr define_labels_eq split: prod.splits)
  have upd: "?t ++ m = tab ++ (m ++ map_of (map (\<lambda>x. (x, a)) (labels l)))"
    if "dom m \<inter> set (labels l) = {}" for m
  proof
    fix x
    show "(?t ++ m) x = (tab ++ (m ++ map_of (map (\<lambda>x. (x, a)) (labels l)))) x"
      using that by (cases "x \<in> set (labels l)")
        (auto simp: map_add_def map_of_map_restrict restrict_map_def dom_def split: option.splits)
  qed
  have dom_sites: "dom (map_of (label_sites (a + line_size l) ls)) = set (all_labels ls)"
    by (simp add: dom_map_of_conv_image_fst set_all_labels [of ls "a + line_size l"])
  show ?case
  proof (cases "distinct (labels l @ all_labels ls)")
    case True
    then have "dom (map_of (label_sites (a + line_size l) ls)) \<inter> set (labels l) = {}"
      using dom_sites by auto
    from upd [OF this] True show ?thesis
      unfolding step Cons.IH define_labels_eq
      by (auto simp: map_of_append)
  next
    case False
    then show ?thesis
      unfolding step Cons.IH define_labels_eq by auto
  qed
qed

lemma addresses_from_placed [simp]: "addresses_from a (placed_from a ls)"
  by (induction ls arbitrary: a) auto

lemma total_size_placed [simp]: "total_size (placed_from a ls) = total_size ls"
  by (induction ls arbitrary: a) auto

lemma placed_from_append:
  "placed_from a (ls @ ls') = placed_from a ls @ placed_from (a + total_size ls) ls'"
  by (induction ls arbitrary: a) (auto simp: algebra_simps)

lemma label_sites_append:
  "label_sites a (ls @ ls') = label_sites a ls @ label_sites (a + total_size ls) ls'"
  by (induction ls arbitrary: a) (auto simp: algebra_simps)

lemma label_sites_placed:
  "(x, b) \<in> set (label_sites a ls) \<longleftrightarrow> (\<exists>p \<in> set (placed_from a ls). x \<in> set (labels p) \<and> laddress p = b)"
  by (induction ls arbitrary: a) auto

lemma label_sites_bounds:
  "(x, b) \<in> set (label_sites a ls) \<Longrightarrow> a \<le> b \<and> b \<le> a + total_size ls"
proof (induction ls arbitrary: a)
  case Nil
  then show ?case by simp
next
  case (Cons l ls)
  from Cons.prems consider "b = a" | "(x, b) \<in> set (label_sites (a + line_size l) ls)"
    by auto
  then show ?case
  proof cases
    case 1
    then show ?thesis using line_size_nonneg [of l] total_size_nonneg [of ls] by simp
  next
    case 2
    from Cons.IH [OF this] line_size_nonneg [of l] show ?thesis
      unfolding total_size_simps by linarith
  qed
qed

lemma place_lines_error:
  "place_lines ls a tab = Inl e \<Longrightarrow>
     \<exists>l \<in> set ls. \<exists>x \<in> set (labels l). e = AssemblerError (DuplicateLabel (lineno l) x)"
proof (induction ls arbitrary: a tab)
  case Nil
  then show ?case by simp
next
  case (Cons l ls)
  then show ?case
    by (auto simp: attempt_eq_Inl split: prod.splits dest!: define_labels_error)
qed

lemma resolve_eq:
  "resolve ls = Inr r \<longleftrightarrow>
     distinct (all_labels ls) \<and> r = \<lparr>rlines = placed_from 0 ls, rlabels = map_of (label_sites 0 ls)\<rparr>"
  by (auto simp: resolve_def attempt_eq_Inr place_lines_eq)

lemma resolve_error:
  assumes "resolve ls = Inl e"
  shows "\<exists>l \<in> set ls. \<exists>x \<in> set (labels l). e = AssemblerError (DuplicateLabel (lineno l) x)"
proof -
  from assms have "place_lines ls 0 (\<lambda>_. None) = Inl e"
    by (auto simp: resolve_def attempt_eq_Inl)
  then show ?thesis by (rule place_lines_error)
qed

lemma map_of_sites:
  assumes "distinct (all_labels ls)"
  shows "map_of (label_sites a ls) x = Some b \<longleftrightarrow> (x, b) \<in> set (label_sites a ls)"
  using assms by (intro map_of_eq_Some_iff) simp

subsection \<open>Properties\<close>

text \<open>
  C28. The resolver accepts a unit exactly when no label is defined twice; then every line keeps its
  content, line addresses are the running sum of the sizes of the lines before, and the table sends
  each label to the address of the line it stands on and holds no other name.
\<close>

theorem resolve_correct:
  "(\<exists>r. resolve ls = Inr r) = distinct (all_labels ls) \<and>
   (\<forall>r. resolve ls = Inr r \<longrightarrow>
      addresses_from 0 (rlines r) \<and>
      map mnemonic (rlines r) = map mnemonic ls \<and> map operands (rlines r) = map operands ls \<and>
      (\<forall>x b. rlabels r x = Some b \<longleftrightarrow>
         (\<exists>p \<in> set (rlines r). x \<in> set (labels p) \<and> laddress p = b)))"
proof -
  have content: "map mnemonic (placed_from a ls) = map mnemonic ls"
      "map operands (placed_from a ls) = map operands ls" for a
    by (induction ls arbitrary: a) auto
  show ?thesis
    by (auto simp: resolve_eq content map_of_sites label_sites_placed)
qed

text \<open>Two labels on lines of size 2 and 1, and one past the end.\<close>

theorem resolve_correct_witness:
  "\<exists>r. resolve [mk_line 1 [''a''] (Some ''SET'') [''X'', ''1''], mk_line 2 [''b''] (Some ''HALT'') [],
      mk_line 3 [''c''] None []] = Inr r \<and> rlabels r ''b'' = Some 2 \<and> rlabels r ''c'' = Some 3"
proof -
  let ?ls = "[mk_line 1 [''a''] (Some ''SET'') [''X'', ''1''], mk_line 2 [''b''] (Some ''HALT'') [],
      mk_line 3 [''c''] None []]"
  obtain r where r: "resolve ?ls = Inr r" using resolve_correct [of ?ls] by auto
  with resolve_correct [of ?ls]
  have t: "\<And>x b. rlabels r x = Some b \<longleftrightarrow> (\<exists>p \<in> set (rlines r). x \<in> set (labels p) \<and> laddress p = b)"
    by blast
  from r have "rlines r = placed_from 0 ?ls" by (simp add: resolve_eq)
  then have "rlines r = [with_address (?ls ! 0) 0, with_address (?ls ! 1) 2, with_address (?ls ! 2) 3]"
    by (simp add: line_size_def PSEUDO_OP_SIZES_def)
  with t r show ?thesis by simp
qed

end
