(* ===== verification/Emitter.thy ===== *)
theory Emitter
  imports Resolver
begin

section \<open>The third assembler stage: the instruction emitter\<close>

text \<open>
  \<^verbatim>\<open>services/assembler/specs.py\<close> (the operand signature of every opcode) and \<^verbatim>\<open>emitter.py\<close>: resolved
  lines to the instruction stream, with the pseudo-operations \<^verbatim>\<open>SET\<close> and \<^verbatim>\<open>MOV\<close> expanded and every
  label turned into a number.
\<close>

subsection \<open>The operand signatures\<close>

fun OPERAND_SPECS :: "opcode \<Rightarrow> operand_spec list" where
  "OPERAND_SPECS LOAD = [(FieldA, RegisterKind), (FieldB, RegisterKind)]"
| "OPERAND_SPECS STORE = [(FieldA, RegisterKind), (FieldB, RegisterKind)]"
| "OPERAND_SPECS ADD = [(FieldA, RegisterKind), (FieldB, RegisterOrImmediate)]"
| "OPERAND_SPECS SUB = [(FieldA, RegisterKind), (FieldB, RegisterOrImmediate)]"
| "OPERAND_SPECS OP_AND = [(FieldA, RegisterKind), (FieldB, RegisterOrImmediate)]"
| "OPERAND_SPECS OP_OR = [(FieldA, RegisterKind), (FieldB, RegisterOrImmediate)]"
| "OPERAND_SPECS INVERT = [(FieldA, RegisterKind)]"
| "OPERAND_SPECS JMP = [(FieldA, RegisterKind)]"
| "OPERAND_SPECS JZ = [(FieldA, RegisterKind), (FieldOffset, OffsetKind)]"
| "OPERAND_SPECS JS = [(FieldA, RegisterKind), (FieldOffset, OffsetKind)]"
| "OPERAND_SPECS PUSH_D = [(FieldA, RegisterKind)]"
| "OPERAND_SPECS POP_D = [(FieldA, RegisterKind)]"
| "OPERAND_SPECS PUSH_R = [(FieldA, RegisterKind)]"
| "OPERAND_SPECS POP_R = [(FieldA, RegisterKind)]"
| "OPERAND_SPECS IN = [(FieldA, RegisterKind)]"
| "OPERAND_SPECS OUT = [(FieldA, RegisterKind)]"
| "OPERAND_SPECS HALT = []"

text \<open>\<^verbatim>\<open>MNEMONICS\<close>: the dictionary from mnemonic text to opcode.\<close>

definition MNEMONICS :: "string \<rightharpoonup> opcode" where
  "MNEMONICS = map_of (map (\<lambda>op. (opcode_value op, op)) opcodes)"

subsection \<open>The code\<close>

definition resolve_register :: "string \<Rightarrow> line \<Rightarrow> error + string" where
  "resolve_register token l =
     (if int_literal token \<noteq> None \<or> \<not> isidentifier token
      then Inl (AssemblerError (ExpectedRegisterName (lineno l) token))
      else Inr token)"

definition resolve_reg_or_immediate :: "string \<Rightarrow> label_table \<Rightarrow> line \<Rightarrow> error + operand" where
  "resolve_reg_or_immediate token tab l =
     (case int_literal token of
        Some n \<Rightarrow> Inr (Imm n)
      | None \<Rightarrow> (case tab token of
                   Some a \<Rightarrow> Inr (Imm a)
                 | None \<Rightarrow> attempt (resolve_register token l) (\<lambda>r. Inr (Reg r))))"

definition resolve_offset :: "string \<Rightarrow> label_table \<Rightarrow> line \<Rightarrow> error + int" where
  "resolve_offset token tab l =
     (case int_literal token of
        Some n \<Rightarrow> Inr n
      | None \<Rightarrow> (case tab token of
                   Some a \<Rightarrow> Inr (a - (laddress l + 1))
                 | None \<Rightarrow> Inl (AssemblerError (UndefinedBranchLabel (lineno l) token))))"

definition resolve_constant :: "string \<Rightarrow> label_table \<Rightarrow> line \<Rightarrow> error + int" where
  "resolve_constant token tab l =
     (case int_literal token of
        Some n \<Rightarrow> Inr n
      | None \<Rightarrow> (case tab token of
                   Some a \<Rightarrow> Inr a
                 | None \<Rightarrow> Inl (AssemblerError (ExpectedConstant (lineno l) token))))"

text \<open>The \<^verbatim>\<open>for spec, token in zip(specs, line.operands, strict=True)\<close> loop over the three fields.\<close>

type_synonym slots = "string option \<times> operand option \<times> int option"

fun fill_slot :: "operand_spec \<Rightarrow> string \<Rightarrow> label_table \<Rightarrow> line \<Rightarrow> slots \<Rightarrow> error + slots" where
  "fill_slot (field, RegisterKind) token tab l (a, b, off) =
     attempt (resolve_register token l) (\<lambda>r.
       Inr (if field = FieldA then (Some r, b, off) else (a, Some (Reg r), off)))"
| "fill_slot (field, RegisterOrImmediate) token tab l (a, b, off) =
     attempt (resolve_reg_or_immediate token tab l) (\<lambda>v. Inr (a, Some v, off))"
| "fill_slot (field, OffsetKind) token tab l (a, b, off) =
     attempt (resolve_offset token tab l) (\<lambda>n. Inr (a, b, Some n))"

fun fill_slots :: "(operand_spec \<times> string) list \<Rightarrow> label_table \<Rightarrow> line \<Rightarrow> slots \<Rightarrow> error + slots" where
  "fill_slots [] tab l sl = Inr sl"
| "fill_slots ((spec, token) # rest) tab l sl =
     attempt (fill_slot spec token tab l sl) (fill_slots rest tab l)"

definition emit_set :: "line \<Rightarrow> label_table \<Rightarrow> error + program" where
  "emit_set l tab =
     (case operands l of
        [x, y] \<Rightarrow>
          attempt (resolve_register x l) (\<lambda>r.
          attempt (resolve_constant y tab l) (\<lambda>v.
            Inr [instr SUB (Some r) (Some (Reg r)) None, instr ADD (Some r) (Some (Imm v)) None]))
      | ops \<Rightarrow> Inl (AssemblerError (OperandCount (lineno l) SET_MNEMONIC 2 (length ops))))"

definition emit_mov :: "line \<Rightarrow> error + program" where
  "emit_mov l =
     (case operands l of
        [x, y] \<Rightarrow>
          attempt (resolve_register x l) (\<lambda>d.
          attempt (resolve_register y l) (\<lambda>s.
            Inr [instr SUB (Some d) (Some (Reg d)) None, instr ADD (Some d) (Some (Reg s)) None]))
      | ops \<Rightarrow> Inl (AssemblerError (OperandCount (lineno l) MOV_MNEMONIC 2 (length ops))))"

definition emit_opcode :: "opcode \<Rightarrow> string \<Rightarrow> line \<Rightarrow> label_table \<Rightarrow> error + program" where
  "emit_opcode op m l tab =
     (let specs = OPERAND_SPECS op in
      if length (operands l) \<noteq> length specs
      then Inl (AssemblerError (OperandCount (lineno l) m (length specs) (length (operands l))))
      else attempt (fill_slots (zip specs (operands l)) tab l (None, None, None)) (\<lambda>(a, b, off).
             Inr [instr op a b off]))"

definition emit_line :: "line \<Rightarrow> label_table \<Rightarrow> error + program" where
  "emit_line l tab =
     (case mnemonic l of
        None \<Rightarrow> Inr []
      | Some m \<Rightarrow>
          if m = SET_MNEMONIC then emit_set l tab
          else if m = MOV_MNEMONIC then emit_mov l
          else (case MNEMONICS m of
                  None \<Rightarrow> Inl (AssemblerError (UnknownMnemonic (lineno l) m))
                | Some op \<Rightarrow> emit_opcode op m l tab))"

fun emit_lines :: "line list \<Rightarrow> label_table \<Rightarrow> error + program" where
  "emit_lines [] tab = Inr []"
| "emit_lines (l # ls) tab =
     attempt (emit_line l tab) (\<lambda>is. attempt (emit_lines ls tab) (\<lambda>rest. Inr (is @ rest)))"

definition emit :: "resolved_program \<Rightarrow> error + program" where
  "emit r = emit_lines (rlines r) (rlabels r)"

subsection \<open>The mnemonic table\<close>

lemma MNEMONICS_value [simp]: "MNEMONICS (opcode_value op) = Some op"
  by (cases op) (simp_all add: MNEMONICS_def opcodes_def)

lemma MNEMONICS_Some: "MNEMONICS m = Some op \<Longrightarrow> m = opcode_value op"
  by (auto simp: MNEMONICS_def opcodes_def split: if_splits)

lemma opcode_value_pseudo [simp]:
  "opcode_value op \<noteq> ''SET''" "opcode_value op \<noteq> ''MOV''"
  by (cases op; simp)+

subsection \<open>Evaluation on literal lines\<close>

lemma resolve_register_ident: "isidentifier t \<Longrightarrow> resolve_register t l = Inr t"
  by (simp add: resolve_register_def int_literal_identifier)

lemma resolve_reg_or_immediate_ident:
  "isidentifier t \<Longrightarrow> resolve_reg_or_immediate t tab l =
     (case tab t of Some a \<Rightarrow> Inr (Imm a) | None \<Rightarrow> Inr (Reg t))"
  by (simp add: resolve_reg_or_immediate_def int_literal_identifier resolve_register_ident split: option.splits)

lemma resolve_offset_ident:
  "isidentifier t \<Longrightarrow> tab t = Some a \<Longrightarrow> resolve_offset t tab l = Inr (a - (laddress l + 1))"
  by (simp add: resolve_offset_def int_literal_identifier)

lemma resolve_constant_ident:
  "isidentifier t \<Longrightarrow> tab t = Some a \<Longrightarrow> resolve_constant t tab l = Inr a"
  by (simp add: resolve_constant_def int_literal_identifier)

lemmas literal_evals = int_literal_def strip_def lstrip_def unsigned_literal_def decimal_digits_def
  code_point_def is_digit_def is_lower_def is_upper_def between_def

lemmas emit_evals = emit_line_def emit_set_def emit_mov_def emit_opcode_def MNEMONICS_def opcodes_def
  resolve_register_ident resolve_reg_or_immediate_ident resolve_offset_ident resolve_constant_ident

lemma mnemonic_lookup:
  "MNEMONICS ''LOAD'' = Some LOAD" "MNEMONICS ''STORE'' = Some STORE" "MNEMONICS ''ADD'' = Some ADD"
  "MNEMONICS ''SUB'' = Some SUB" "MNEMONICS ''JMP'' = Some JMP" "MNEMONICS ''JZ'' = Some JZ"
  "MNEMONICS ''JS'' = Some JS" "MNEMONICS ''PUSH_D'' = Some PUSH_D" "MNEMONICS ''POP_D'' = Some POP_D"
  "MNEMONICS ''PUSH_R'' = Some PUSH_R" "MNEMONICS ''POP_R'' = Some POP_R" "MNEMONICS ''AND'' = Some OP_AND"
  "MNEMONICS ''OR'' = Some OP_OR" "MNEMONICS ''INVERT'' = Some INVERT" "MNEMONICS ''IN'' = Some IN"
  "MNEMONICS ''OUT'' = Some OUT" "MNEMONICS ''HALT'' = Some HALT"
  by (simp_all add: MNEMONICS_def opcodes_def)

subsection \<open>What a well-formed instruction is\<close>

text \<open>
  The shape the emulator's handlers require of each opcode: the fields its operand signature names,
  and a register where a register is needed.
\<close>

fun field_ok :: "operand_spec \<Rightarrow> instruction \<Rightarrow> bool" where
  "field_ok (FieldA, _) i = (opa i \<noteq> None)"
| "field_ok (FieldB, RegisterKind) i = (\<exists>r. opb i = Some (Reg r))"
| "field_ok (FieldB, _) i = (opb i \<noteq> None)"
| "field_ok (FieldOffset, _) i = (offset i \<noteq> None)"

definition instruction_ok :: "instruction \<Rightarrow> bool" where
  "instruction_ok i \<longleftrightarrow> list_all (\<lambda>s. field_ok s i) (OPERAND_SPECS (opcode i))"

definition program_ok :: "program \<Rightarrow> bool" where
  "program_ok p \<longleftrightarrow> list_all instruction_ok p"

lemma program_ok_simps [simp]:
  "program_ok []"
  "program_ok (i # p) \<longleftrightarrow> instruction_ok i \<and> program_ok p"
  "program_ok (p @ q) \<longleftrightarrow> program_ok p \<and> program_ok q"
  by (simp_all add: program_ok_def)

lemma OPERAND_SPECS_length: "length (OPERAND_SPECS op) \<le> 2"
  by (cases op) simp_all

lemma emit_opcode_ok:
  assumes "emit_opcode op m l tab = Inr p"
  shows "\<exists>i. p = [i] \<and> opcode i = op \<and> instruction_ok i"
  using assms
  by (cases op)
    (auto simp: emit_opcode_def Let_def attempt_eq_Inr instruction_ok_def length_Suc_conv
      resolve_register_def split: if_splits)

lemma emit_set_ok: "emit_set l tab = Inr p \<Longrightarrow> length p = 2 \<and> program_ok p"
  by (auto simp: emit_set_def attempt_eq_Inr instruction_ok_def split: list.splits)

lemma emit_mov_ok: "emit_mov l = Inr p \<Longrightarrow> length p = 2 \<and> program_ok p"
  by (auto simp: emit_mov_def attempt_eq_Inr instruction_ok_def split: list.splits)

lemma emit_line_ok:
  assumes "emit_line l tab = Inr p"
  shows "int (length p) = line_size l \<and> program_ok p"
proof (cases "mnemonic l")
  case None
  with assms show ?thesis by (simp add: emit_line_def line_size_def)
next
  case (Some m)
  consider "m = ''SET''" | "m = ''MOV''" | "m \<noteq> ''SET''" "m \<noteq> ''MOV''" by blast
  then show ?thesis
  proof cases
    case 1
    with assms Some emit_set_ok [of l tab p] show ?thesis
      by (simp add: emit_line_def line_size_def PSEUDO_OP_SIZES_def)
  next
    case 2
    with assms Some emit_mov_ok [of l p] show ?thesis
      by (simp add: emit_line_def line_size_def PSEUDO_OP_SIZES_def)
  next
    case 3
    with assms Some obtain op where "emit_opcode op m l tab = Inr p"
      by (auto simp: emit_line_def split: option.splits)
    from emit_opcode_ok [OF this] 3 Some show ?thesis
      by (auto simp: line_size_def PSEUDO_OP_SIZES_def)
  qed
qed

lemma emit_lines_ok:
  assumes "emit_lines ls tab = Inr p"
  shows "int (length p) = total_size ls \<and> program_ok p"
  using assms
proof (induction ls arbitrary: p)
  case Nil
  then show ?case by simp
next
  case (Cons l ls)
  then show ?case by (auto simp: attempt_eq_Inr dest!: emit_line_ok)
qed

lemma emit_lines_append:
  "emit_lines (ls @ ls') tab =
     attempt (emit_lines ls tab) (\<lambda>p. attempt (emit_lines ls' tab) (\<lambda>q. Inr (p @ q)))"
  by (induction ls) (auto simp: attempt_def split: sum.splits)

text \<open>The block of a line stands at the line's address.\<close>

lemma emit_lines_blocks:
  assumes "emit_lines ls tab = Inr p" and "addresses_from a ls" and "l \<in> set ls"
  shows "\<exists>q pre post. emit_line l tab = Inr q \<and> p = pre @ q @ post \<and> laddress l = a + int (length pre)"
  using assms
proof (induction ls arbitrary: p a)
  case Nil
  then show ?case by simp
next
  case (Cons k ls)
  from Cons.prems(1) obtain b r where b: "emit_line k tab = Inr b" and r: "emit_lines ls tab = Inr r"
    and p: "p = b @ r"
    by (auto simp: attempt_eq_Inr)
  have len: "int (length b) = line_size k"
    using emit_line_ok [OF b] by simp
  show ?case
  proof (cases "l = k")
    case True
    with b p Cons.prems(2) show ?thesis
      by (intro exI [of _ b] exI [of _ "[]"] exI [of _ r]) simp
  next
    case False
    with Cons.prems obtain q pre post where "emit_line l tab = Inr q" "r = pre @ q @ post"
      "laddress l = a + line_size k + int (length pre)"
      using Cons.IH [OF r, of "a + line_size k"] by auto
    with p len show ?thesis
      by (intro exI [of _ q] exI [of _ "b @ pre"] exI [of _ post]) simp
  qed
qed

subsection \<open>Errors\<close>

definition asm_error :: "error \<Rightarrow> bool" where
  "asm_error e \<longleftrightarrow> (\<exists>f. e = AssemblerError f)"

lemma asm_error_simps [simp]: "asm_error (AssemblerError f)"
  by (simp add: asm_error_def)

lemma resolve_token_errors:
  "resolve_register t l = Inl e \<Longrightarrow> asm_error e"
  "resolve_reg_or_immediate t tab l = Inl e \<Longrightarrow> asm_error e"
  "resolve_offset t tab l = Inl e \<Longrightarrow> asm_error e"
  "resolve_constant t tab l = Inl e \<Longrightarrow> asm_error e"
  by (auto simp: resolve_register_def resolve_reg_or_immediate_def resolve_offset_def
      resolve_constant_def attempt_eq_Inl split: option.splits if_splits)

lemma fill_slot_error: "fill_slot spec t tab l sl = Inl e \<Longrightarrow> asm_error e"
  by (induction spec t tab l sl rule: fill_slot.induct)
    (auto simp: attempt_eq_Inl dest: resolve_token_errors)

lemma fill_slots_error: "fill_slots ps tab l sl = Inl e \<Longrightarrow> asm_error e"
  by (induction ps tab l sl rule: fill_slots.induct)
    (auto simp: attempt_eq_Inl dest: fill_slot_error)

lemma emit_line_error: "emit_line l tab = Inl e \<Longrightarrow> asm_error e"
  by (auto simp: emit_line_def emit_set_def emit_mov_def emit_opcode_def attempt_eq_Inl Let_def
      split: option.splits if_splits list.splits dest: resolve_token_errors fill_slots_error)

lemma emit_lines_error: "emit_lines ls tab = Inl e \<Longrightarrow> asm_error e"
  by (induction ls) (auto simp: attempt_eq_Inl dest: emit_line_error)

end
