(* ===== verification/Assembler.thy ===== *)
theory Assembler
  imports Emitter
begin

section \<open>The assembler use case\<close>

text \<open>
  \<^verbatim>\<open>services/assembler/service.py\<close>: parse, resolve, emit, through the ports of the three stages, and the wiring of
  \<^verbatim>\<open>AssemblerContainer\<close>. The locale \<open>assembler_stages\<close> states what the use case relies on: each stage raises only
  \<^verbatim>\<open>AssemblerError\<close>, the emitter's instructions are well formed, and the resolver's labels lie inside what the emitter
  makes of them. It gives the locale \<open>assembler_port\<close>, what a client of \<^verbatim>\<open>AssemblerPort\<close> relies on, for any stages with
  these laws; the package's own stages are an interpretation.
\<close>

text \<open>The ports of the stages and of the use case, \<^verbatim>\<open>ports.py\<close>.\<close>

type_synonym line_parser_port = "string \<Rightarrow> error + line list"
type_synonym address_resolver_port = "line list \<Rightarrow> error + resolved_program"
type_synonym instruction_emitter_port = "resolved_program \<Rightarrow> error + program"
type_synonym assembling_port = "string \<Rightarrow> error + assembly"

definition text_assemble ::
  "line_parser_port \<Rightarrow> address_resolver_port \<Rightarrow> instruction_emitter_port \<Rightarrow> assembling_port" where
  "text_assemble parser resolver emitter source =
     attempt (parser source) (\<lambda>ls.
     attempt (resolver ls) (\<lambda>r.
     attempt (emitter r) (\<lambda>p. Inr \<lparr>aprogram = p, alabels = rlabels r\<rparr>)))"

text \<open>The stages \<^verbatim>\<open>AssemblerContainer\<close> binds.\<close>

definition assemble :: assembling_port where
  "assemble = text_assemble parse resolve emit"

lemma text_assemble_eq:
  "text_assemble parser resolver emitter source = Inr a \<longleftrightarrow>
     (\<exists>ls r. parser source = Inr ls \<and> resolver ls = Inr r \<and> emitter r = Inr (aprogram a) \<and> alabels a = rlabels r)"
  by (cases a) (auto simp: text_assemble_def attempt_eq_Inr)

lemma text_assemble_error:
  "text_assemble parser resolver emitter source = Inl e \<longleftrightarrow>
     parser source = Inl e \<or>
     (\<exists>ls. parser source = Inr ls \<and> (resolver ls = Inl e \<or> (\<exists>r. resolver ls = Inr r \<and> emitter r = Inl e)))"
  by (auto simp: text_assemble_def attempt_eq_Inl)

subsection \<open>The interface\<close>

locale assembler_port =
  fixes asm :: assembling_port
  assumes asm_program: "asm src = Inr a \<Longrightarrow> program_ok (aprogram a)"
    and asm_labels: "asm src = Inr a \<Longrightarrow> alabels a x = Some b \<Longrightarrow> 0 \<le> b \<and> b \<le> int (length (aprogram a))"
    and asm_errors: "asm src = Inl e \<Longrightarrow> asm_error e"
begin

text \<open>A label is an index the program counter can hold: in the program or just past its end.\<close>

lemma label_in_program:
  assumes "asm src = Inr a" and "alabels a x = Some b" and "b \<noteq> int (length (aprogram a))"
  shows "py_index (length (aprogram a)) b = Some (nat b)"
  using asm_labels [OF assms(1,2)] assms(3) by simp

lemma outcome: "(\<exists>a. asm src = Inr a \<and> program_ok (aprogram a)) \<or> (\<exists>f. asm src = Inl (AssemblerError f))"
  using asm_program [of src] asm_errors [of src] by (cases "asm src") (auto simp: asm_error_def)

end

locale assembler_stages =
  fixes parser :: line_parser_port
    and resolver :: address_resolver_port
    and emitter :: instruction_emitter_port
  assumes parser_error: "parser src = Inl e \<Longrightarrow> asm_error e"
    and resolver_error: "resolver ls = Inl e \<Longrightarrow> asm_error e"
    and emitter_error: "emitter r = Inl e \<Longrightarrow> asm_error e"
    and emitted: "emitter r = Inr p \<Longrightarrow> program_ok p"
    and resolved: "resolver ls = Inr r \<Longrightarrow> emitter r = Inr p \<Longrightarrow> rlabels r x = Some b \<Longrightarrow> 0 \<le> b \<and> b \<le> int (length p)"

sublocale assembler_stages \<subseteq> assembler_port "text_assemble parser resolver emitter"
  by unfold_locales (auto simp: text_assemble_eq text_assemble_error dest: parser_error resolver_error emitter_error emitted resolved)

subsection \<open>The pipeline\<close>

lemma parse_line_error: "parse_line n raw = Inl e \<Longrightarrow> asm_error e"
  by (auto simp: parse_line_def split_mnemonic_def Let_def attempt_eq_Inl split: prod.splits if_splits)

lemma parse_lines_error: "parse_lines n raws = Inl e \<Longrightarrow> asm_error e"
  by (induction raws arbitrary: n) (auto simp: attempt_eq_Inl dest: parse_line_error)

lemma assemble_eq:
  "assemble source = Inr a \<longleftrightarrow>
     (\<exists>ls. parse source = Inr ls \<and> distinct (all_labels ls) \<and>
        alabels a = map_of (label_sites 0 ls) \<and>
        emit_lines (placed_from 0 ls) (alabels a) = Inr (aprogram a))"
  by (auto simp: assemble_def text_assemble_eq resolve_eq emit_def)

lemma resolved_bounds:
  assumes "resolve ls = Inr r" and "emit r = Inr p" and "rlabels r x = Some b"
  shows "0 \<le> b \<and> b \<le> int (length p)"
proof -
  have "int (length p) = total_size ls"
    using assms(1,2) emit_lines_ok by (fastforce simp: resolve_eq emit_def)
  with label_sites_bounds [of x b 0 ls] assms(1,3) show ?thesis
    by (auto simp: resolve_eq dest: map_of_SomeD)
qed

interpretation text_assembler: assembler_stages parse resolve emit
  rewrites "text_assemble parse resolve emit = assemble"
proof -
  show "assembler_stages parse resolve emit"
    by unfold_locales
      (auto simp: parse_def emit_def asm_error_def dest: parse_lines_error resolve_error emit_lines_error emit_lines_ok resolved_bounds)
qed (simp add: assemble_def)

subsection \<open>Properties\<close>

text \<open>
  C13. What the assembler puts where: if a unit assembles, every source line's instructions stand in
  the program at exactly the address the resolver gave that line, the lines' blocks make up the whole
  program, and every label is the address of the block of the line it is written on.
\<close>

theorem assemble_layout:
  assumes "assemble source = Inr a"
  shows "\<exists>ls. parse source = Inr ls \<and>
     int (length (aprogram a)) = total_size ls \<and>
     (\<forall>l \<in> set (placed_from 0 ls). \<exists>q pre post.
        emit_line l (alabels a) = Inr q \<and> int (length q) = line_size l \<and>
        aprogram a = pre @ q @ post \<and> int (length pre) = laddress l) \<and>
     (\<forall>x b. alabels a x = Some b \<longleftrightarrow> (\<exists>l \<in> set (placed_from 0 ls). x \<in> set (labels l) \<and> laddress l = b))"
proof -
  from assms obtain ls where p: "parse source = Inr ls" and d: "distinct (all_labels ls)"
    and t: "alabels a = map_of (label_sites 0 ls)"
    and e: "emit_lines (placed_from 0 ls) (alabels a) = Inr (aprogram a)"
    by (auto simp: assemble_eq)
  have blocks: "\<exists>q pre post. emit_line l (alabels a) = Inr q \<and> int (length q) = line_size l \<and>
      aprogram a = pre @ q @ post \<and> int (length pre) = laddress l"
    if "l \<in> set (placed_from 0 ls)" for l
    using emit_lines_blocks [OF e addresses_from_placed that] emit_line_ok by fastforce
  have "int (length (aprogram a)) = total_size ls"
    using emit_lines_ok [OF e] by simp
  with p blocks show ?thesis
    by (intro exI [of _ ls]) (simp add: t map_of_sites [OF d] label_sites_placed)
qed

text \<open>A two-line unit: \<^verbatim>\<open>go: SET X, 5\<close> and \<^verbatim>\<open>HALT\<close>.\<close>

definition tiny_source :: string where
  "tiny_source = ''go: SET X, 5'' @ [CHR 0x0A] @ ''HALT''"

lemma tiny_parse:
  "parse tiny_source = Inr [mk_line 1 [''go''] (Some ''SET'') [''X'', ''5''], mk_line 2 [] (Some ''HALT'') []]"
  by (simp add: tiny_source_def parse_def onto_first_def parse_evals text_simps peel_labels.simps)

lemma tiny_assemble: "assemble tiny_source = Inr
   \<lparr>aprogram = [instr SUB (Some ''X'') (Some (Reg ''X'')) None, instr ADD (Some ''X'') (Some (Imm 5)) None,
       instr HALT None None None],
    alabels = [''go'' \<mapsto> 0]\<rparr>"
  by (simp add: assemble_eq tiny_parse emit_evals resolve_constant_def literal_evals
      line_size_def PSEUDO_OP_SIZES_def text_simps)

theorem assemble_layout_witness:
  "\<exists>ls a. parse tiny_source = Inr ls \<and> assemble tiny_source = Inr a \<and> int (length (aprogram a)) = total_size ls"
  using assemble_layout [OF tiny_assemble] tiny_assemble by blast

text \<open>
  C27. The assembler fails only with \<^verbatim>\<open>AssemblerError\<close>, and what it emits is well formed: every
  instruction has the operands its opcode needs, so the emulator never rejects it as malformed.
\<close>

theorem assemble_outcome:
  "(\<exists>a. assemble source = Inr a \<and> program_ok (aprogram a)) \<or>
   (\<exists>f. assemble source = Inl (AssemblerError f))"
  by (rule text_assembler.outcome)

end
