(* ===== verification/Routines.thy ===== *)
theory Routines
  imports Assembler
begin

section \<open>The kernel's assembler source\<close>

text \<open>
  \<^verbatim>\<open>services/kernel/routines.py\<close>: the text of the threading core and of the 39 code words, as data.
  The f-strings splice the memory map's numbers in with \<^const>\<open>py_str_int\<close>, as Python does.
\<close>

subsection \<open>The table\<close>

record kernel_primitive =
  pword :: code_word
  psource :: string

definition primitive :: "string \<Rightarrow> string \<Rightarrow> string \<Rightarrow> kernel_primitive" where
  "primitive n l src =
     \<lparr>pword = \<lparr>cw_name = n, cw_routine_label = l, cw_immediate = False\<rparr>, psource = src\<rparr>"

definition ENTER_LABEL :: string where "ENTER_LABEL = ''ENTER''"

definition IMMEDIATE_FROM_NAME_FIELD :: int where [simp]: "IMMEDIATE_FROM_NAME_FIELD = NAME_LENGTH - IMMEDIATE"
definition SMUDGE_FROM_NAME_FIELD :: int where [simp]: "SMUDGE_FROM_NAME_FIELD = NAME_LENGTH - SMUDGE"
definition LINK_FROM_NAME_FIELD :: int where [simp]: "LINK_FROM_NAME_FIELD = NAME_LENGTH"

subsection \<open>The routines\<close>

definition CORE_SOURCE :: string where
  \<open>CORE_SOURCE = ''
START:
        SET  NEXTREG, NEXT   ; hold NEXT's program index for the whole run
        JMP  NEXTREG

NEXT:
        LOAD W, IP           ; W := mem[IP]        (W = CFA)
        ADD  IP, 1           ; advance the thread pointer (CELL = 1)
        LOAD XT, W           ; XT := mem[W]        (code-field value = program index)
        JMP  XT              ; tail-jump into the primitive

ENTER:
        PUSH_R IP            ; save the caller's IP
        ADD  W, 1            ; W := CFA + 1 = parameter-field address
        MOV  IP, W           ; IP := parameter field
        JMP  NEXTREG
''\<close>

definition LIT_source :: string where
  \<open>LIT_source = ''
LIT:
        LOAD ACC, IP         ; ACC := the inline literal (cell after LIT's CFA in the thread)
        PUSH_D ACC
        ADD  IP, 1           ; step IP past the literal cell
        JMP  NEXTREG
''\<close>

definition EXIT_source :: string where
  \<open>EXIT_source = ''
EXIT:
        POP_R IP             ; restore the caller's IP
        JMP  NEXTREG
''\<close>

definition BYE_source :: string where
  \<open>BYE_source = ''
BYE:
        HALT
''\<close>

definition DUP_source :: string where
  \<open>DUP_source = ''
DUP:
        POP_D X              ; ( a -- a a )
        PUSH_D X
        PUSH_D X
        JMP  NEXTREG
''\<close>

definition DROP_source :: string where
  \<open>DROP_source = ''
DROP:
        POP_D X              ; ( a -- )
        JMP  NEXTREG
''\<close>

definition SWAP_source :: string where
  \<open>SWAP_source = ''
SWAP:
        POP_D X              ; ( a b -- b a )
        POP_D Y
        PUSH_D X
        PUSH_D Y
        JMP  NEXTREG
''\<close>

definition OVER_source :: string where
  \<open>OVER_source = ''
OVER:
        POP_D X              ; ( a b -- a b a )
        POP_D Y
        PUSH_D Y
        PUSH_D X
        PUSH_D Y
        JMP  NEXTREG
''\<close>

definition ROT_source :: string where
  \<open>ROT_source = ''
ROT:
        POP_D X              ; ( a b c -- b c a )
        POP_D Y
        POP_D Z
        PUSH_D Y
        PUSH_D X
        PUSH_D Z
        JMP  NEXTREG
''\<close>

definition NROT_source :: string where
  \<open>NROT_source = ''
NROT:
        POP_D X              ; ( a b c -- c a b )
        POP_D Y
        POP_D Z
        PUSH_D X
        PUSH_D Z
        PUSH_D Y
        JMP  NEXTREG
''\<close>

definition NIP_source :: string where
  \<open>NIP_source = ''
NIP:
        POP_D X              ; ( a b -- b )
        POP_D Y
        PUSH_D X
        JMP  NEXTREG
''\<close>

definition TUCK_source :: string where
  \<open>TUCK_source = ''
TUCK:
        POP_D X              ; ( a b -- b a b )
        POP_D Y
        PUSH_D X
        PUSH_D Y
        PUSH_D X
        JMP  NEXTREG
''\<close>

definition PLUS_source :: string where
  \<open>PLUS_source = ''
PLUS:
        POP_D X              ; ( a b -- a+b )
        POP_D Y
        ADD  Y, X
        PUSH_D Y
        JMP  NEXTREG
''\<close>

definition MINUS_source :: string where
  \<open>MINUS_source = ''
MINUS:
        POP_D X              ; ( a b -- a-b )
        POP_D Y
        SUB  Y, X
        PUSH_D Y
        JMP  NEXTREG
''\<close>

definition MUL_source :: string where
  \<open>MUL_source = ''
MUL:
        POP_D X              ; ( a b -- a*b )  multiply by repeated addition
        POP_D Y
        SUB  ACC, ACC        ; ACC := 0
MUL_LOOP:
        JZ   X, MUL_DONE
        ADD  ACC, Y
        SUB  X, 1
        SET  R, MUL_LOOP
        JMP  R
MUL_DONE:
        PUSH_D ACC
        JMP  NEXTREG
''\<close>

definition NEGATE_source :: string where
  \<open>NEGATE_source = ''
NEGATE:
        POP_D X              ; ( a -- -a )
        SUB  Y, Y
        SUB  Y, X
        PUSH_D Y
        JMP  NEXTREG
''\<close>

definition ABS_source :: string where
  \<open>ABS_source = ''
ABS:
        POP_D X              ; ( a -- |a| )
        JS   X, ABS_NEG
        PUSH_D X
        JMP  NEXTREG
ABS_NEG:
        SUB  Y, Y
        SUB  Y, X
        PUSH_D Y
        JMP  NEXTREG
''\<close>

definition ONEPLUS_source :: string where
  \<open>ONEPLUS_source = ''
ONEPLUS:
        POP_D X              ; ( a -- a+1 )
        ADD  X, 1
        PUSH_D X
        JMP  NEXTREG
''\<close>

definition ONEMINUS_source :: string where
  \<open>ONEMINUS_source = ''
ONEMINUS:
        POP_D X              ; ( a -- a-1 )
        SUB  X, 1
        PUSH_D X
        JMP  NEXTREG
''\<close>

definition FETCH_source :: string where
  \<open>FETCH_source = ''
FETCH:
        POP_D X              ; ( addr -- mem[addr] )
        LOAD Y, X
        PUSH_D Y
        JMP  NEXTREG
''\<close>

definition STOREW_source :: string where
  \<open>STOREW_source = ''
STOREW:
        POP_D X              ; ( val addr -- )  addr on top
        POP_D Y
        STORE X, Y
        JMP  NEXTREG
''\<close>

definition CFETCH_source :: string where
  \<open>CFETCH_source = ''
CFETCH:
        POP_D X              ; ( addr -- mem[addr] )  aliases @ in a cell-addressed model
        LOAD Y, X
        PUSH_D Y
        JMP  NEXTREG
''\<close>

definition CSTOREW_source :: string where
  \<open>CSTOREW_source = ''
CSTOREW:
        POP_D X              ; ( val addr -- )  aliases !
        POP_D Y
        STORE X, Y
        JMP  NEXTREG
''\<close>

definition TOR_source :: string where
  \<open>TOR_source = ''
TOR:
        POP_D X              ; ( a -- ) ( R: -- a )
        PUSH_R X
        JMP  NEXTREG
''\<close>

definition FROMR_source :: string where
  \<open>FROMR_source = ''
FROMR:
        POP_R X              ; ( R: a -- ) ( -- a )
        PUSH_D X
        JMP  NEXTREG
''\<close>

definition RFETCH_source :: string where
  \<open>RFETCH_source = ''
RFETCH:
        POP_R X              ; ( R: a -- a ) ( -- a )
        PUSH_R X
        PUSH_D X
        JMP  NEXTREG
''\<close>

definition EQUALS_source :: string where
  \<open>EQUALS_source = ''
EQUALS:
        POP_D X              ; ( a b -- flag )
        POP_D Y
        SUB  Y, X
        JZ   Y, EQ_TRUE
        SET  Z, 0
        PUSH_D Z
        JMP  NEXTREG
EQ_TRUE:
        SET  Z, -1           ; Forth true = -1 (all bits set)
        PUSH_D Z
        JMP  NEXTREG
''\<close>

definition NOTEQUALS_source :: string where
  \<open>NOTEQUALS_source = ''
NOTEQUALS:
        POP_D X              ; ( a b -- flag )
        POP_D Y
        SUB  Y, X
        JZ   Y, NE_FALSE
        SET  Z, -1           ; Forth true = -1 (all bits set)
        PUSH_D Z
        JMP  NEXTREG
NE_FALSE:
        SET  Z, 0
        PUSH_D Z
        JMP  NEXTREG
''\<close>

definition LESSTHAN_source :: string where
  \<open>LESSTHAN_source = ''
LESSTHAN:
        POP_D X              ; ( a b -- a<b )  a-b < 0  (cells are unbounded ints -- no overflow)
        POP_D Y
        SUB  Y, X
        JS   Y, LT_TRUE
        SET  Z, 0
        PUSH_D Z
        JMP  NEXTREG
LT_TRUE:
        SET  Z, -1           ; Forth true = -1 (all bits set)
        PUSH_D Z
        JMP  NEXTREG
''\<close>

definition GREATERTHAN_source :: string where
  \<open>GREATERTHAN_source = ''
GREATERTHAN:
        POP_D X              ; ( a b -- a>b )  b-a < 0
        POP_D Y
        SUB  X, Y
        JS   X, GT_TRUE
        SET  Z, 0
        PUSH_D Z
        JMP  NEXTREG
GT_TRUE:
        SET  Z, -1           ; Forth true = -1 (all bits set)
        PUSH_D Z
        JMP  NEXTREG
''\<close>

definition ZEROEQ_source :: string where
  \<open>ZEROEQ_source = ''
ZEROEQ:
        POP_D X              ; ( a -- a==0 )
        JZ   X, ZE_TRUE
        SET  Z, 0
        PUSH_D Z
        JMP  NEXTREG
ZE_TRUE:
        SET  Z, -1           ; Forth true = -1 (all bits set)
        PUSH_D Z
        JMP  NEXTREG
''\<close>

definition ZEROLT_source :: string where
  \<open>ZEROLT_source = ''
ZEROLT:
        POP_D X              ; ( a -- a<0 )
        JS   X, ZL_TRUE
        SET  Z, 0
        PUSH_D Z
        JMP  NEXTREG
ZL_TRUE:
        SET  Z, -1           ; Forth true = -1 (all bits set)
        PUSH_D Z
        JMP  NEXTREG
''\<close>

definition BITAND_source :: string where
  \<open>BITAND_source = ''
BITAND:
        POP_D X              ; ( a b -- a&b )
        POP_D Y
        AND  Y, X
        PUSH_D Y
        JMP  NEXTREG
''\<close>

definition BITOR_source :: string where
  \<open>BITOR_source = ''
BITOR:
        POP_D X              ; ( a b -- a|b )
        POP_D Y
        OR   Y, X
        PUSH_D Y
        JMP  NEXTREG
''\<close>

definition BITINVERT_source :: string where
  \<open>BITINVERT_source = ''
BITINVERT:
        POP_D X              ; ( a -- ~a )
        INVERT X
        PUSH_D X
        JMP  NEXTREG
''\<close>

definition KEY_source :: string where
  \<open>KEY_source = ''
KEY:
        IN   X               ; ( -- c )  read one input character
        PUSH_D X
        JMP  NEXTREG
''\<close>

definition EMIT_source :: string where
  \<open>EMIT_source = ''
EMIT:
        POP_D X              ; ( c -- )  write one output character
        OUT  X
        JMP  NEXTREG
''\<close>

definition NUMBER_source :: string where
  \<open>NUMBER_source = ''
NUMBER:
        POP_D PTR            ; ( c-addr -- n flag )  parse a counted decimal string (signed)
        LOAD LEN, PTR        ; LEN = length prefix
        ADD  PTR, 1          ; PTR -> first char
        SUB  N, N            ; N := 0
        SUB  NEG, NEG        ; NEG := 0
        JZ   LEN, NUM_FAIL   ; empty -> fail
        LOAD C, PTR
        MOV  T, C
        SUB  T, 45           ; '-'
        JZ   T, NUM_NEG
        SET  R, NUM_LOOP
        JMP  R
NUM_NEG:
        SET  NEG, 1
        ADD  PTR, 1          ; consume '-'
        SUB  LEN, 1
        JZ   LEN, NUM_FAIL   ; "-" alone -> fail
NUM_LOOP:
        JZ   LEN, NUM_DONE
        LOAD C, PTR
        MOV  DIGIT, C
        SUB  DIGIT, 48       ; '0'
        JS   DIGIT, NUM_FAIL ; below '0' -> not a digit
        MOV  T, DIGIT
        SUB  T, 10
        JS   T, NUM_DIGIT_OK ; digit <= 9
        SET  R, NUM_FAIL     ; above '9' -> not a digit
        JMP  R
NUM_DIGIT_OK:
        MOV  T, N            ; N := N*10  (8N + 2N, no MUL opcode)
        ADD  T, T
        MOV  U, T
        ADD  T, T
        ADD  T, T
        ADD  T, U
        MOV  N, T
        ADD  N, DIGIT        ; N := N*10 + digit
        ADD  PTR, 1
        SUB  LEN, 1
        SET  R, NUM_LOOP
        JMP  R
NUM_DONE:
        JZ   NEG, NUM_PUSH
        MOV  T, N
        SUB  N, N
        SUB  N, T            ; N := -N
NUM_PUSH:
        PUSH_D N
        SET  FLAG, 1
        PUSH_D FLAG          ; success
        JMP  NEXTREG
NUM_FAIL:
        SUB  Z, Z
        PUSH_D Z             ; n := 0
        PUSH_D Z             ; flag := 0
        JMP  NEXTREG
''\<close>

definition WORD_source :: string where
  \<open>WORD_source = ''
WORD:
        POP_D DELIM          ; ( delim -- c-addr )  tokenize the input device into a counted string
WORD_SKIP:
        IN   C
        MOV  T, C
        SUB  T, DELIM
        JZ   T, WORD_SKIP    ; skip leading delimiters
        SET  PTR, '' @ py_str_int WORD_BUFFER_BASE @ ''
        ADD  PTR, 1          ; leave WORD_BUFFER[0] for the count
        SUB  LEN, LEN
WORD_COLLECT:
        STORE PTR, C
        ADD  PTR, 1
        ADD  LEN, 1
        IN   C
        MOV  T, C
        SUB  T, DELIM
        JZ   T, WORD_END     ; delimiter -> token complete
        SET  R, WORD_COLLECT
        JMP  R
WORD_END:
        SET  PTR, '' @ py_str_int WORD_BUFFER_BASE @ ''
        STORE PTR, LEN       ; write the count prefix
        PUSH_D PTR
        JMP  NEXTREG
''\<close>

definition FIND_source :: string where
  \<open>FIND_source = ''
FIND:
        POP_D NAMEADDR       ; ( c-addr -- xt flag )  1 = immediate, -1 = normal, 0 = not found
        LOAD SLEN, NAMEADDR
        SET  T, '' @ py_str_int LATEST_ADDR @ ''
        LOAD CUR, T          ; CUR = LATEST (newest word's name field)
FIND_LOOP:
        JZ   CUR, FIND_NOTFOUND
        MOV  T, CUR
        SUB  T, '' @ py_str_int SMUDGE_FROM_NAME_FIELD @ ''
        LOAD SMUDGE, T       ; skip smudged (hidden, mid-compile) words
        JZ   SMUDGE, FIND_VISIBLE
        SET  R, FIND_NEXT
        JMP  R
FIND_VISIBLE:
        LOAD WLEN, CUR
        MOV  T, WLEN
        SUB  T, SLEN
        JZ   T, FIND_CMP     ; lengths equal -> compare names
        SET  R, FIND_NEXT
        JMP  R
FIND_CMP:
        MOV  WPTR, CUR
        ADD  WPTR, 1
        MOV  SPTR, NAMEADDR
        ADD  SPTR, 1
        MOV  COUNT, SLEN
FIND_CHARS:
        JZ   COUNT, FIND_MATCH
        LOAD WC, WPTR
        LOAD SC, SPTR
        MOV  T, WC
        SUB  T, SC
        JZ   T, FIND_CHAR_OK
        SET  R, FIND_NEXT
        JMP  R
FIND_CHAR_OK:
        ADD  WPTR, 1
        ADD  SPTR, 1
        SUB  COUNT, 1
        SET  R, FIND_CHARS
        JMP  R
FIND_MATCH:
        MOV  CFA, CUR
        ADD  CFA, 1
        ADD  CFA, WLEN       ; CFA = name field + 1 + length
        PUSH_D CFA
        MOV  T, CUR
        SUB  T, '' @ py_str_int IMMEDIATE_FROM_NAME_FIELD @ ''
        LOAD IMM, T          ; the header's immediate flag
        JZ   IMM, FIND_NORMAL
        SET  FLAG, 1         ; immediate word
        PUSH_D FLAG
        JMP  NEXTREG
FIND_NORMAL:
        SUB  FLAG, FLAG
        SUB  FLAG, 1         ; normal word -> -1
        PUSH_D FLAG
        JMP  NEXTREG
FIND_NEXT:
        MOV  T, CUR
        SUB  T, '' @ py_str_int LINK_FROM_NAME_FIELD @ ''
        LOAD CUR, T          ; CUR = link (previous name field)
        SET  R, FIND_LOOP
        JMP  R
FIND_NOTFOUND:
        SUB  T, T
        PUSH_D T             ; xt = 0
        PUSH_D T             ; flag = 0
        JMP  NEXTREG
''\<close>

subsection \<open>The whole kernel\<close>

definition PRIMITIVES :: "kernel_primitive list" where
  "PRIMITIVES = [
     primitive ''LIT'' ''LIT'' LIT_source,
     primitive ''EXIT'' ''EXIT'' EXIT_source,
     primitive ''BYE'' ''BYE'' BYE_source,
     primitive ''DUP'' ''DUP'' DUP_source,
     primitive ''DROP'' ''DROP'' DROP_source,
     primitive ''SWAP'' ''SWAP'' SWAP_source,
     primitive ''OVER'' ''OVER'' OVER_source,
     primitive ''ROT'' ''ROT'' ROT_source,
     primitive ''-ROT'' ''NROT'' NROT_source,
     primitive ''NIP'' ''NIP'' NIP_source,
     primitive ''TUCK'' ''TUCK'' TUCK_source,
     primitive ''+'' ''PLUS'' PLUS_source,
     primitive ''-'' ''MINUS'' MINUS_source,
     primitive ''*'' ''MUL'' MUL_source,
     primitive ''NEGATE'' ''NEGATE'' NEGATE_source,
     primitive ''ABS'' ''ABS'' ABS_source,
     primitive ''1+'' ''ONEPLUS'' ONEPLUS_source,
     primitive ''1-'' ''ONEMINUS'' ONEMINUS_source,
     primitive ''@'' ''FETCH'' FETCH_source,
     primitive ''!'' ''STOREW'' STOREW_source,
     primitive ''C@'' ''CFETCH'' CFETCH_source,
     primitive ''C!'' ''CSTOREW'' CSTOREW_source,
     primitive ''>R'' ''TOR'' TOR_source,
     primitive ''R>'' ''FROMR'' FROMR_source,
     primitive ''R@'' ''RFETCH'' RFETCH_source,
     primitive ''='' ''EQUALS'' EQUALS_source,
     primitive ''<>'' ''NOTEQUALS'' NOTEQUALS_source,
     primitive ''<'' ''LESSTHAN'' LESSTHAN_source,
     primitive ''>'' ''GREATERTHAN'' GREATERTHAN_source,
     primitive ''0='' ''ZEROEQ'' ZEROEQ_source,
     primitive ''0<'' ''ZEROLT'' ZEROLT_source,
     primitive ''AND'' ''BITAND'' BITAND_source,
     primitive ''OR'' ''BITOR'' BITOR_source,
     primitive ''INVERT'' ''BITINVERT'' BITINVERT_source,
     primitive ''KEY'' ''KEY'' KEY_source,
     primitive ''EMIT'' ''EMIT'' EMIT_source,
     primitive ''NUMBER'' ''NUMBER'' NUMBER_source,
     primitive ''WORD'' ''WORD'' WORD_source,
     primitive ''FIND'' ''FIND'' FIND_source]"

definition KERNEL_SOURCE :: string where
  "KERNEL_SOURCE = CORE_SOURCE @ concat (map psource PRIMITIVES)"

definition CODE_WORDS :: "code_word list" where
  "CODE_WORDS = map pword PRIMITIVES"

end
