(* ===== verification/Memory.thy ===== *)
theory Memory
  imports Domain
begin

section \<open>The memory, register file and character device adapters\<close>

text \<open>
  \<^verbatim>\<open>adapters/memory.py\<close>, \<^verbatim>\<open>registers.py\<close> and \<^verbatim>\<open>io.py\<close>. The memory is a Python list of fixed length:
  a negative address counts from the end, an address outside raises \<^verbatim>\<open>IndexError\<close>. The locale
  \<open>memory_port\<close> states what the clients of \<^verbatim>\<open>MemoryPort\<close> rely on at valid addresses.
\<close>

subsection \<open>The list-backed memory\<close>

type_synonym memory = "cell list"

definition memory_new :: "int \<Rightarrow> memory" where
  "memory_new n = replicate (nat n) 0"

definition memory_read :: "memory \<Rightarrow> address \<Rightarrow> error + cell" where
  "memory_read m a =
     (case py_index (length m) a of None \<Rightarrow> Inl IndexError | Some i \<Rightarrow> Inr (m ! i))"

definition memory_write :: "memory \<Rightarrow> address \<Rightarrow> cell \<Rightarrow> error + memory" where
  "memory_write m a v =
     (case py_index (length m) a of None \<Rightarrow> Inl IndexError | Some i \<Rightarrow> Inr (m[i := v]))"

definition memory_size :: "memory \<Rightarrow> int" where
  "memory_size m = int (length m)"

lemma memory_read_ok [simp]:
  "0 \<le> a \<Longrightarrow> a < int (length m) \<Longrightarrow> memory_read m a = Inr (m ! nat a)"
  by (simp add: memory_read_def)

lemma memory_write_ok [simp]:
  "0 \<le> a \<Longrightarrow> a < int (length m) \<Longrightarrow> memory_write m a v = Inr (m[nat a := v])"
  by (simp add: memory_write_def)

lemma memory_size_new [simp]: "memory_size (memory_new n) = max 0 n"
  by (simp add: memory_size_def memory_new_def)

lemma memory_write_size: "memory_write m a v = Inr m' \<Longrightarrow> length m' = length m"
  by (auto simp: memory_write_def split: option.splits)

lemma memory_errors:
  "memory_read m a = Inl e \<Longrightarrow> e = IndexError"
  "memory_write m a v = Inl e \<Longrightarrow> e = IndexError"
  by (auto simp: memory_read_def memory_write_def split: option.splits)

subsection \<open>The interface\<close>

text \<open>
  \<open>sz\<close> is \<^verbatim>\<open>MemoryPort.size\<close>. A client stays within \<open>0 \<le> a < sz m\<close>; there a read
  returns what was last written, and a write changes that cell only.
\<close>

locale memory_port =
  fixes rd :: "'m \<Rightarrow> address \<Rightarrow> error + cell"
    and wr :: "'m \<Rightarrow> address \<Rightarrow> cell \<Rightarrow> error + 'm"
    and sz :: "'m \<Rightarrow> int"
  assumes read_defined: "0 \<le> a \<Longrightarrow> a < sz m \<Longrightarrow> \<exists>v. rd m a = Inr v"
    and write_defined: "0 \<le> a \<Longrightarrow> a < sz m \<Longrightarrow> \<exists>m'. wr m a v = Inr m' \<and> sz m' = sz m"
    and read_write_same: "0 \<le> a \<Longrightarrow> a < sz m \<Longrightarrow> wr m a v = Inr m' \<Longrightarrow> rd m' a = Inr v"
    and read_write_other: "0 \<le> a \<Longrightarrow> a < sz m \<Longrightarrow> 0 \<le> b \<Longrightarrow> b < sz m \<Longrightarrow> a \<noteq> b \<Longrightarrow>
       wr m a v = Inr m' \<Longrightarrow> rd m' b = rd m b"

text \<open>Loops over a block of cells, as the clients run them.\<close>

fun write_cells :: "('m \<Rightarrow> address \<Rightarrow> cell \<Rightarrow> error + 'm) \<Rightarrow> 'm \<Rightarrow> address \<Rightarrow> cell list \<Rightarrow> error + 'm" where
  "write_cells wr m a [] = Inr m"
| "write_cells wr m a (v # vs) = attempt (wr m a v) (\<lambda>m'. write_cells wr m' (a + 1) vs)"

definition read_cells :: "('m \<Rightarrow> address \<Rightarrow> error + cell) \<Rightarrow> 'm \<Rightarrow> address \<Rightarrow> nat \<Rightarrow> error + cell list" where
  "read_cells rd m a n = gather (\<lambda>i. rd m (a + int i)) [0..<n]"

lemma gather_map: "gather f (map g xs) = gather (\<lambda>x. f (g x)) xs"
  by (induction xs) auto

lemma read_cells_0 [simp]: "read_cells rd m a 0 = Inr []"
  by (simp add: read_cells_def)

lemma read_cells_Suc:
  "read_cells rd m a (Suc n) =
     attempt (rd m a) (\<lambda>v. attempt (read_cells rd m (a + 1) n) (\<lambda>vs. Inr (v # vs)))"
proof -
  have "[0..<Suc n] = 0 # map Suc [0..<n]"
    by (simp add: map_Suc_upt upt_conv_Cons del: upt_Suc)
  then show ?thesis
    by (simp add: read_cells_def gather_map algebra_simps del: upt_Suc)
qed

context memory_port
begin

lemma write_cells_defined:
  assumes "0 \<le> a" and "a + int (length vs) \<le> sz m"
  shows "\<exists>m'. write_cells wr m a vs = Inr m' \<and> sz m' = sz m"
  using assms
proof (induction vs arbitrary: m a)
  case Nil
  then show ?case by simp
next
  case (Cons v vs)
  then obtain m1 where m1: "wr m a v = Inr m1" "sz m1 = sz m"
    using write_defined [of a m v] by auto
  with Cons.IH [of "a + 1" m1] Cons.prems show ?case by simp
qed

lemma write_cells_outside:
  assumes "0 \<le> a" and "a + int (length vs) \<le> sz m" and "write_cells wr m a vs = Inr m'"
    and "0 \<le> b" and "b < sz m" and "b < a \<or> a + int (length vs) \<le> b"
  shows "rd m' b = rd m b"
  using assms
proof (induction vs arbitrary: m a)
  case Nil
  then show ?case by simp
next
  case (Cons v vs)
  then obtain m1 where m1: "wr m a v = Inr m1" "sz m1 = sz m"
      and rest: "write_cells wr m1 (a + 1) vs = Inr m'"
    using write_defined [of a m v] by auto
  have "rd m' b = rd m1 b"
    using Cons.IH [OF _ _ rest] Cons.prems m1(2) by auto
  also have "\<dots> = rd m b"
    using read_write_other [OF _ _ _ _ _ m1(1)] Cons.prems by auto
  finally show ?case .
qed

lemma write_cells_read:
  assumes "0 \<le> a" and "a + int (length vs) \<le> sz m" and "write_cells wr m a vs = Inr m'"
  shows "read_cells rd m' a (length vs) = Inr vs"
  using assms
proof (induction vs arbitrary: m a)
  case Nil
  then show ?case by simp
next
  case (Cons v vs)
  then obtain m1 where m1: "wr m a v = Inr m1" "sz m1 = sz m"
      and rest: "write_cells wr m1 (a + 1) vs = Inr m'"
    using write_defined [of a m v] by auto
  have "rd m' a = rd m1 a"
    using Cons.prems m1(2) by (intro write_cells_outside [OF _ _ rest]) auto
  also have "\<dots> = Inr v"
    using Cons.prems m1 by (intro read_write_same) auto
  finally have "rd m' a = Inr v" .
  moreover have "read_cells rd m' (a + 1) (length vs) = Inr vs"
    using Cons.IH [OF _ _ rest] Cons.prems m1(2) by simp
  ultimately show ?case by (simp add: read_cells_Suc)
qed

lemma read_cells_cong:
  assumes "\<And>i. i < n \<Longrightarrow> rd m' (a + int i) = rd m (a + int i)"
  shows "read_cells rd m' a n = read_cells rd m a n"
  using assms
proof (induction n arbitrary: a)
  case 0
  then show ?case by simp
next
  case (Suc n)
  have "rd m' a = rd m a" using Suc.prems [of 0] by simp
  moreover have "read_cells rd m' (a + 1) n = read_cells rd m (a + 1) n"
    using Suc.prems [of "Suc i" for i] by (intro Suc.IH) (simp add: algebra_simps)
  ultimately show ?case by (simp add: read_cells_Suc)
qed

end

interpretation list_memory: memory_port memory_read memory_write memory_size
  by unfold_locales (auto simp: memory_size_def nat_eq_iff)

subsection \<open>Reading a list of cells\<close>

definition in_store :: "int list \<Rightarrow> int \<Rightarrow> bool" where
  "in_store m n \<longleftrightarrow> 0 \<le> n \<and> n < int (length m)"

definition read_store :: "int list \<Rightarrow> int \<Rightarrow> int option" where
  "read_store m a = (if in_store m a then Some (m ! nat a) else None)"

lemma read_store_Some: "read_store m a = Some x \<longleftrightarrow> in_store m a \<and> x = m ! nat a"
  by (auto simp: read_store_def)

text \<open>The characters of a counted string, when its length cell is not negative and it lies in the store.\<close>

definition counted :: "int list \<Rightarrow> int \<Rightarrow> int list option" where
  "counted m p =
     (if in_store m p \<and> 0 \<le> m ! nat p \<and> p + m ! nat p < int (length m)
      then Some (slice m (Suc (nat p)) (Suc (nat p + nat (m ! nat p)))) else None)"

lemma counted_Some:
  "counted m p = Some cs \<longleftrightarrow> (\<exists>k n. p = int k \<and> m ! k = int n \<and> k + n < length m \<and> cs = slice m (Suc k) (Suc (k + n)))"
proof
  assume "counted m p = Some cs"
  then show "\<exists>k n. p = int k \<and> m ! k = int n \<and> k + n < length m \<and> cs = slice m (Suc k) (Suc (k + n))"
    by (intro exI [of _ "nat p"] exI [of _ "nat (m ! nat p)"])
      (auto simp: counted_def in_store_def split: if_splits)
qed (auto simp: counted_def in_store_def)

text \<open>Consecutive cells overwritten from an index on.\<close>

definition put_cells :: "int list \<Rightarrow> nat \<Rightarrow> int list \<Rightarrow> int list" where
  "put_cells m a xs = take a m @ xs @ drop (a + length xs) m"

lemma put_cells_Nil [simp]: "put_cells m a [] = m"
  by (simp add: put_cells_def)

lemma length_put_cells [simp]: "a + length xs \<le> length m \<Longrightarrow> length (put_cells m a xs) = length m"
  by (simp add: put_cells_def)

lemma put_cells_Cons: "a < length m \<Longrightarrow> put_cells m a (x # xs) = put_cells (m[a := x]) (Suc a) xs"
  by (simp add: put_cells_def take_Suc_conv_app_nth nth_append drop_update_cancel)

lemma put_cells_before:
  "b < a \<Longrightarrow> a + length xs \<le> length m \<Longrightarrow> (put_cells m a xs)[b := v] = put_cells (m[b := v]) a xs"
  by (simp add: put_cells_def list_update_append take_update_swap)

lemma put_cells_append:
  "a + length xs + length ys \<le> length m \<Longrightarrow> put_cells m a (xs @ ys) = put_cells (put_cells m a xs) (a + length xs) ys"
  by (induction xs arbitrary: m a) (simp_all add: put_cells_Cons)

lemma nth_put_cells:
  "a + length xs \<le> length m \<Longrightarrow> i < length m \<Longrightarrow>
     put_cells m a xs ! i = (if a \<le> i \<and> i < a + length xs then xs ! (i - a) else m ! i)"
  by (auto simp: put_cells_def nth_append min_def)

text \<open>A counted string put into the cells is there.\<close>

lemma counted_put_cells:
  assumes "a + 1 + length xs \<le> length m"
  shows "counted (put_cells m a (int (length xs) # xs)) (int a) = Some xs"
proof -
  let ?m = "put_cells m a (int (length xs) # xs)"
  have nth: "?m ! i = (int (length xs) # xs) ! (i - a)" if "a \<le> i" "i < a + 1 + length xs" for i
    using that assms by (simp add: nth_put_cells)
  show ?thesis
    unfolding counted_Some
  proof (intro exI conjI)
    show "xs = slice ?m (Suc a) (Suc (a + length xs))"
      using nth assms by (intro nth_equalityI) auto
  qed (use nth [of a] assms in auto)
qed

subsection \<open>The register file\<close>

type_synonym registers = "string \<rightharpoonup> int"

definition register_read :: "registers \<Rightarrow> string \<Rightarrow> int" where
  "register_read r name = (case r name of Some v \<Rightarrow> v | None \<Rightarrow> 0)"

definition register_write :: "registers \<Rightarrow> string \<Rightarrow> int \<Rightarrow> registers" where
  "register_write r name v = r(name \<mapsto> v)"

lemma register_read_write [simp]:
  "register_read (register_write r x v) y = (if y = x then v else register_read r y)"
  by (simp add: register_read_def register_write_def)

lemma register_read_empty [simp]: "register_read (\<lambda>_. None) x = 0"
  by (simp add: register_read_def)

subsection \<open>The character devices\<close>

definition input_new :: "int list option \<Rightarrow> int list" where
  [simp]: "input_new initial = (case initial of None \<Rightarrow> [] | Some values \<Rightarrow> values)"

definition input_feed :: "int list \<Rightarrow> int list \<Rightarrow> int list" where
  "input_feed queue values = queue @ values"

definition input_read :: "int list \<Rightarrow> (error + int) \<times> int list" where
  "input_read queue = (case queue of [] \<Rightarrow> (Inl InputExhaustedError, []) | c # rest \<Rightarrow> (Inr c, rest))"

definition output_new :: "int list" where
  [simp]: "output_new = []"

definition output_write :: "int list \<Rightarrow> int \<Rightarrow> int list" where
  "output_write buffer v = buffer @ [v]"

definition output_buffer :: "int list \<Rightarrow> int list" where
  "output_buffer buffer = buffer"

lemma input_read_simps [simp]:
  "input_read [] = (Inl InputExhaustedError, [])"
  "input_read (c # q) = (Inr c, q)"
  by (simp_all add: input_read_def)

text \<open>The devices in sequence: what is fed is read in order, what is written is in the buffer in order.\<close>

lemma input_feed_read: "input_read (input_feed (input_new None) (c # cs)) = (Inr c, input_feed (input_new None) cs)"
  by (simp add: input_feed_def)

lemma output_write_buffer: "output_buffer (fold (\<lambda>v b. output_write b v) vs output_new) = vs"
proof -
  have "fold (\<lambda>v b. output_write b v) vs b = b @ vs" for b
    by (induction vs arbitrary: b) (simp_all add: output_write_def)
  then show ?thesis by (simp add: output_buffer_def)
qed

subsection \<open>Assembler source held in memory\<close>

record string_source =
  held :: string

definition source_new :: "string \<Rightarrow> string_source" where
  "source_new source = \<lparr>held = source\<rparr>"

definition source_read :: "string_source \<Rightarrow> string" where
  "source_read a = held a"

lemma source_read_new [simp]: "source_read (source_new source) = source"
  by (simp add: source_read_def source_new_def)

end
