(* ===== verification/Stack.thy ===== *)
theory Stack
  imports Memory
begin

section \<open>The stack adapter and the data path\<close>

text \<open>
  \<^verbatim>\<open>adapters/stack.py\<close>: a stack growing towards lower addresses inside a region of the shared memory,
  and the data path both services are wired to (\<^verbatim>\<open>containers.py\<close>): one memory, a data stack and a return
  stack in it. The locale \<open>stack_port\<close> is the contract of \<^verbatim>\<open>StackPort\<close> over the stack's content as a
  list, top first; the data stack and the return stack of the data path both satisfy it.
\<close>

subsection \<open>The adapter\<close>

record stack =
  sbase :: address
  sfloor :: address
  spointer :: address

definition stack_new :: "address \<Rightarrow> int \<Rightarrow> stack" where
  "stack_new b n = \<lparr>sbase = b, sfloor = b - n, spointer = b\<rparr>"

definition overflow :: error where "overflow = StackError ''stack overflow''"
definition underflow :: error where "underflow = StackError ''stack underflow''"

definition stack_push :: "int \<Rightarrow> (error, memory \<times> stack, unit) exec" where
  "stack_push v mk =
     (let (m, k) = mk in
      if spointer k \<le> sfloor k then (Inl overflow, (m, k))
      else let k' = k\<lparr>spointer := spointer k - CELL_SIZE\<rparr> in
        (case memory_write m (spointer k') v of
           Inl e \<Rightarrow> (Inl e, (m, k'))
         | Inr m' \<Rightarrow> (Inr (), (m', k'))))"

definition stack_pop :: "(error, memory \<times> stack, int) exec" where
  "stack_pop mk =
     (let (m, k) = mk in
      if spointer k \<ge> sbase k then (Inl underflow, (m, k))
      else (case memory_read m (spointer k) of
              Inl e \<Rightarrow> (Inl e, (m, k))
            | Inr v \<Rightarrow> (Inr v, (m, k\<lparr>spointer := spointer k + CELL_SIZE\<rparr>))))"

definition stack_peek :: "(error, memory \<times> stack, int) exec" where
  "stack_peek mk =
     (let (m, k) = mk in
      if spointer k \<ge> sbase k then (Inl underflow, (m, k))
      else (memory_read m (spointer k), (m, k)))"

subsection \<open>The data path\<close>

record datapath =
  mem :: memory
  dstk :: stack
  rstk :: stack

definition push_d :: "int \<Rightarrow> (error, 'a datapath_scheme, unit) exec" where
  "push_d v s = (case stack_push v (mem s, dstk s) of (r, m, k) \<Rightarrow> (r, s\<lparr>mem := m, dstk := k\<rparr>))"

definition pop_d :: "(error, 'a datapath_scheme, int) exec" where
  "pop_d s = (case stack_pop (mem s, dstk s) of (r, m, k) \<Rightarrow> (r, s\<lparr>mem := m, dstk := k\<rparr>))"

definition peek_d :: "(error, 'a datapath_scheme, int) exec" where
  "peek_d s = (case stack_peek (mem s, dstk s) of (r, m, k) \<Rightarrow> (r, s\<lparr>mem := m, dstk := k\<rparr>))"

definition push_r :: "int \<Rightarrow> (error, 'a datapath_scheme, unit) exec" where
  "push_r v s = (case stack_push v (mem s, rstk s) of (r, m, k) \<Rightarrow> (r, s\<lparr>mem := m, rstk := k\<rparr>))"

definition pop_r :: "(error, 'a datapath_scheme, int) exec" where
  "pop_r s = (case stack_pop (mem s, rstk s) of (r, m, k) \<Rightarrow> (r, s\<lparr>mem := m, rstk := k\<rparr>))"

definition peek_r :: "(error, 'a datapath_scheme, int) exec" where
  "peek_r s = (case stack_peek (mem s, rstk s) of (r, m, k) \<Rightarrow> (r, s\<lparr>mem := m, rstk := k\<rparr>))"

definition load_cell :: "int \<Rightarrow> (error, 'a datapath_scheme, int) exec" where
  "load_cell a s = (memory_read (mem s) a, s)"

definition store_cell :: "int \<Rightarrow> int \<Rightarrow> (error, 'a datapath_scheme, unit) exec" where
  "store_cell a v s =
     (case memory_write (mem s) a v of Inl e \<Rightarrow> (Inl e, s) | Inr m \<Rightarrow> (Inr (), s\<lparr>mem := m\<rparr>))"

subsection \<open>Content and well-formedness of a stack\<close>

definition content :: "memory \<Rightarrow> stack \<Rightarrow> int list" where
  "content m k = slice m (nat (spointer k)) (nat (sbase k))"

definition stack_ok :: "memory \<Rightarrow> stack \<Rightarrow> bool" where
  "stack_ok m k \<longleftrightarrow> 0 \<le> sfloor k \<and> sfloor k \<le> spointer k \<and> spointer k \<le> sbase k \<and> sbase k \<le> int (length m)"

definition room :: "stack \<Rightarrow> nat" where
  "room k = nat (spointer k - sfloor k)"

lemma content_length [simp]:
  assumes "stack_ok m k"
  shows "length (content m k) = nat (sbase k - spointer k)"
proof -
  have "nat (sbase k) \<le> length m"
    using assms by (simp add: stack_ok_def nat_le_iff)
  then show ?thesis
    using assms by (simp add: content_def stack_ok_def nat_diff_distrib)
qed

lemma content_empty_iff: "stack_ok m k \<Longrightarrow> content m k = [] \<longleftrightarrow> spointer k = sbase k"
  using content_length [of m k] by (auto simp: stack_ok_def simp flip: length_0_conv)

lemma content_Cons:
  assumes "stack_ok m k" and "spointer k < sbase k"
  shows "content m k = m ! nat (spointer k) # content m (k\<lparr>spointer := spointer k + 1\<rparr>)"
proof -
  have "nat (spointer k + 1) = Suc (nat (spointer k))"
    using assms by (simp add: stack_ok_def Suc_nat_eq_nat_zadd1)
  then show ?thesis
    using assms slice_Cons [of "nat (spointer k)" "nat (sbase k)" m]
    by (simp add: content_def stack_ok_def nat_le_iff)
qed

lemma stack_push_ok:
  fixes v :: int
  assumes "stack_ok m k" and "0 < room k"
  defines "k' \<equiv> k\<lparr>spointer := spointer k - 1\<rparr>"
  defines "m' \<equiv> \<lambda>v. m[nat (spointer k - 1) := v]"
  shows "stack_push v (m, k) = (Inr (), (m' v, k'))" "stack_ok (m' v) k'"
    "content (m' v) k' = v # content m k" "room k' = room k - 1"
proof -
  have b: "0 \<le> spointer k - 1" "spointer k - 1 < int (length m)" "sfloor k < spointer k"
    using assms(1,2) by (auto simp: stack_ok_def room_def)
  show "stack_push v (m, k) = (Inr (), (m' v, k'))"
    using b by (simp add: stack_push_def k'_def m'_def Let_def)
  show ok': "stack_ok (m' v) k'"
    using assms(1) b by (auto simp: stack_ok_def k'_def m'_def)
  have "content (m' v) k' = m' v ! nat (spointer k') # content (m' v) (k'\<lparr>spointer := spointer k' + 1\<rparr>)"
    using assms(1) b by (intro content_Cons [OF ok']) (auto simp: k'_def stack_ok_def)
  moreover have "k'\<lparr>spointer := spointer k' + 1\<rparr> = k"
    by (simp add: k'_def)
  moreover have "content (m' v) k = content m k"
    using b by (simp add: content_def m'_def)
  moreover have "m' v ! nat (spointer k') = v"
    using b by (simp add: m'_def k'_def)
  ultimately show "content (m' v) k' = v # content m k" by simp
  show "room k' = room k - 1"
    using b by (simp add: room_def k'_def nat_diff_distrib)
qed

lemma stack_push_full: "room k = 0 \<Longrightarrow> stack_push v (m, k) = (Inl overflow, (m, k))"
  by (simp add: stack_push_def room_def)

lemma stack_pop_ok:
  assumes "stack_ok m k" and "content m k = x # xs"
  defines "k' \<equiv> k\<lparr>spointer := spointer k + 1\<rparr>"
  shows "stack_pop (m, k) = (Inr x, (m, k'))" "stack_peek (m, k) = (Inr x, (m, k))"
    "stack_ok m k'" "content m k' = xs" "room k' = Suc (room k)"
proof -
  have lt: "spointer k < sbase k"
    using assms(1,2) content_empty_iff [OF assms(1)] by (auto simp: stack_ok_def)
  have v: "m ! nat (spointer k) = x" "content m k' = xs"
    using content_Cons [OF assms(1) lt] assms(2) by (simp_all add: k'_def)
  have r: "memory_read m (spointer k) = Inr x"
    using assms(1) lt v by (simp add: stack_ok_def)
  show "stack_pop (m, k) = (Inr x, (m, k'))" "stack_peek (m, k) = (Inr x, (m, k))"
    using lt r by (simp_all add: stack_pop_def stack_peek_def k'_def)
  show "stack_ok m k'" "content m k' = xs" "room k' = Suc (room k)"
    using assms(1) lt v by (auto simp: stack_ok_def room_def k'_def)
qed

lemma stack_pop_empty:
  assumes "stack_ok m k" and "content m k = []"
  shows "stack_pop (m, k) = (Inl underflow, (m, k))" "stack_peek (m, k) = (Inl underflow, (m, k))"
  using assms content_empty_iff [OF assms(1)] by (simp_all add: stack_pop_def stack_peek_def)

subsection \<open>The interface\<close>

text \<open>
  \<open>view s\<close> is the content, top first; \<open>cap s\<close> how many cells the stack's region has; \<open>good\<close> the
  states the contract is about; \<open>same s s'\<close> that nothing but this stack differs. \<open>lifo_stack\<close> is what holds while
  there is room and there are values.
\<close>

locale lifo_stack =
  fixes push :: "int \<Rightarrow> (error, 's, unit) exec"
    and pop :: "(error, 's, int) exec"
    and peek :: "(error, 's, int) exec"
    and good :: "'s \<Rightarrow> bool"
    and view :: "'s \<Rightarrow> int list"
    and cap :: "'s \<Rightarrow> nat"
    and same :: "'s \<Rightarrow> 's \<Rightarrow> bool"
  assumes push_ok: "good s \<Longrightarrow> length (view s) < cap s \<Longrightarrow>
      \<exists>s'. push v s = (Inr (), s') \<and> good s' \<and> view s' = v # view s \<and> same s s'"
    and pop_ok: "good s \<Longrightarrow> view s = x # xs \<Longrightarrow>
      \<exists>s'. pop s = (Inr x, s') \<and> good s' \<and> view s' = xs \<and> same s s'"
    and peek_ok: "good s \<Longrightarrow> view s = x # xs \<Longrightarrow> peek s = (Inr x, s)"
    and same_refl: "same s s"
    and same_trans: "same s t \<Longrightarrow> same t u \<Longrightarrow> same s u"
    and same_cap: "same s t \<Longrightarrow> cap t = cap s"

text \<open>\<^verbatim>\<open>StackPort\<close> also promises what a push onto a full stack and a pop or peek of an empty one raise; an operation
  that raises leaves the state as it was.\<close>

locale stack_port = lifo_stack +
  assumes push_full: "good s \<Longrightarrow> cap s \<le> length (view s) \<Longrightarrow> push v s = (Inl overflow, s)"
    and pop_empty: "good s \<Longrightarrow> view s = [] \<Longrightarrow> pop s = (Inl underflow, s)"
    and peek_empty: "good s \<Longrightarrow> view s = [] \<Longrightarrow> peek s = (Inl underflow, s)"

text \<open>\<open>yields\<close>: the computation succeeds with this value, leaves this content and changes nothing else.\<close>

definition yields ::
  "('s \<Rightarrow> bool) \<Rightarrow> ('s \<Rightarrow> int list) \<Rightarrow> ('s \<Rightarrow> 's \<Rightarrow> bool) \<Rightarrow> (error, 's, 'a) exec \<Rightarrow> 's \<Rightarrow> 'a \<Rightarrow> int list \<Rightarrow> bool"
where
  "yields good view same m s x ys \<longleftrightarrow> (\<exists>s'. m s = (Inr x, s') \<and> good s' \<and> view s' = ys \<and> same s s')"

context lifo_stack
begin

lemma yields_pure: "good s \<Longrightarrow> view s = ys \<Longrightarrow> yields good view same (pure x) s x ys"
  by (simp add: yields_def same_refl)

lemma yields_chain:
  assumes "m s = (Inr z, t)" and "same s t" and "yields good view same (f z) t x ys"
  shows "yields good view same (chain m f) s x ys"
  using assms by (auto simp: yields_def intro: same_trans)

lemma yields_pop:
  assumes "good s" and "view s = z # zs"
    and "\<And>t. good t \<Longrightarrow> view t = zs \<Longrightarrow> cap t = cap s \<Longrightarrow> yields good view same (f z) t x ys"
  shows "yields good view same (chain pop f) s x ys"
proof -
  from pop_ok [OF assms(1,2)] obtain t where t: "pop s = (Inr z, t)" "good t" "view t = zs" "same s t"
    by blast
  from t(1,4) assms(3) [OF t(2,3) same_cap [OF t(4)]] show ?thesis
    by (rule yields_chain)
qed

lemma yields_peek:
  assumes "good s" and "view s = z # zs" and "yields good view same (f z) s x ys"
  shows "yields good view same (chain peek f) s x ys"
  using peek_ok [OF assms(1,2)] same_refl assms(3) by (rule yields_chain)

lemma yields_push_then:
  assumes "good s" and "length (view s) < cap s"
    and "\<And>t. good t \<Longrightarrow> view t = v # view s \<Longrightarrow> cap t = cap s \<Longrightarrow> yields good view same (f ()) t x ys"
  shows "yields good view same (chain (push v) f) s x ys"
proof -
  from push_ok [OF assms(1,2)] obtain t
    where t: "push v s = (Inr (), t)" "good t" "view t = v # view s" "same s t"
    by blast
  from t(1,4) assms(3) [OF t(2,3) same_cap [OF t(4)]] show ?thesis
    by (rule yields_chain)
qed

lemma yields_push:
  assumes "good s" and "length (view s) < cap s" and "ys = v # view s"
  shows "yields good view same (push v) s () ys"
  using push_ok [OF assms(1,2)] assms(3) by (simp add: yields_def)

lemma yields_pop_last:
  assumes "good s" and "view s = x # ys"
  shows "yields good view same pop s x ys"
  using pop_ok [OF assms] by (simp add: yields_def)

text \<open>A push is undone by a pop, and the value comes back.\<close>

lemma push_pop:
  assumes "good s" and "length (view s) < cap s"
  shows "yields good view same (chain (push v) (\<lambda>_. pop)) s v (view s)"
  using assms by (auto intro!: yields_push_then yields_pop_last)

end

context stack_port
begin

lemma pop_failure: "good s \<Longrightarrow> view s = [] \<Longrightarrow> chain pop f s = (Inl underflow, s)"
  by (simp add: pop_empty)

end

subsection \<open>The two stacks of the data path\<close>

definition ds :: "'a datapath_scheme \<Rightarrow> int list" where "ds s = content (mem s) (dstk s)"
definition rs :: "'a datapath_scheme \<Rightarrow> int list" where "rs s = content (mem s) (rstk s)"

text \<open>The memory below both stacks: system variables, dictionary, buffers.\<close>

definition cells :: "'a datapath_scheme \<Rightarrow> int list" where
  "cells s = slice (mem s) 0 (nat (sfloor (dstk s)))"

definition region :: "stack \<Rightarrow> nat" where "region k = nat (sbase k - sfloor k)"

definition layout_ok :: "'a datapath_scheme \<Rightarrow> bool" where
  "layout_ok s \<longleftrightarrow> stack_ok (mem s) (dstk s) \<and> stack_ok (mem s) (rstk s) \<and> sbase (dstk s) \<le> sfloor (rstk s)"

lemma stacks_in_region:
  assumes "layout_ok s"
  shows "length (ds s) \<le> region (dstk s)" and "length (rs s) \<le> region (rstk s)"
  using assms by (auto simp: layout_ok_def ds_def rs_def stack_ok_def region_def)

definition same_region :: "stack \<Rightarrow> stack \<Rightarrow> bool" where
  "same_region k k' \<longleftrightarrow> sbase k' = sbase k \<and> sfloor k' = sfloor k"

definition same_but_d :: "'a datapath_scheme \<Rightarrow> 'a datapath_scheme \<Rightarrow> bool" where
  "same_but_d s t \<longleftrightarrow> rs t = rs s \<and> cells t = cells s \<and> rstk t = rstk s \<and> same_region (dstk s) (dstk t) \<and>
     length (mem t) = length (mem s) \<and> datapath.more t = datapath.more s"

definition same_but_r :: "'a datapath_scheme \<Rightarrow> 'a datapath_scheme \<Rightarrow> bool" where
  "same_but_r s t \<longleftrightarrow> ds t = ds s \<and> cells t = cells s \<and> dstk t = dstk s \<and> same_region (rstk s) (rstk t) \<and>
     length (mem t) = length (mem s) \<and> datapath.more t = datapath.more s"

lemma region_room: "stack_ok m k \<Longrightarrow> length (content m k) + room k = region k"
  by (auto simp: stack_ok_def room_def region_def)

lemma room_pos: "stack_ok m k \<Longrightarrow> 0 < room k \<longleftrightarrow> length (content m k) < region k"
  using region_room [of m k] by linarith

lemma content_update_outside:
  "stack_ok m k \<Longrightarrow> 0 \<le> a \<Longrightarrow> a < sfloor k \<or> sbase k \<le> a \<Longrightarrow> content (m[nat a := v]) k = content m k"
  by (auto simp: content_def stack_ok_def nat_le_iff)

lemma stack_ok_update [simp]: "stack_ok (m[i := v]) k = stack_ok m k"
  by (simp add: stack_ok_def)

interpretation data_stack: stack_port push_d pop_d peek_d layout_ok ds "\<lambda>s. region (dstk s)" same_but_d
proof unfold_locales
  fix s :: "'a datapath_scheme" and v x xs
  assume good: "layout_ok s"
  then have ok: "stack_ok (mem s) (dstk s)" by (simp add: layout_ok_def)
  show "\<exists>s'. push_d v s = (Inr (), s') \<and> layout_ok s' \<and> ds s' = v # ds s \<and> same_but_d s s'"
    if "length (ds s) < region (dstk s)"
  proof -
    have r: "0 < room (dstk s)" using that room_pos [OF ok] by (simp add: ds_def)
    let ?a = "spointer (dstk s) - 1"
    let ?s' = "s\<lparr>mem := (mem s)[nat ?a := v], dstk := (dstk s)\<lparr>spointer := ?a\<rparr>\<rparr>"
    have a: "sfloor (dstk s) \<le> ?a" "?a < sbase (dstk s)" "0 \<le> ?a" "sbase (dstk s) \<le> sfloor (rstk s)"
      using good r by (auto simp: layout_ok_def stack_ok_def room_def)
    have "content ((mem s)[nat ?a := v]) (rstk s) = content (mem s) (rstk s)"
      using good a by (intro content_update_outside) (auto simp: layout_ok_def)
    moreover have "cells ?s' = cells s"
      using a by (simp add: cells_def nat_le_iff)
    ultimately show ?thesis
      using good a stack_push_ok(1-3) [OF ok r, where v = v]
      by (intro exI [of _ ?s'])
        (simp add: push_d_def layout_ok_def ds_def rs_def same_but_d_def same_region_def)
  qed
  show "push_d v s = (Inl overflow, s)" if "region (dstk s) \<le> length (ds s)"
  proof -
    have "room (dstk s) = 0" using that room_pos [OF ok] by (simp add: ds_def)
    then show ?thesis by (simp add: push_d_def stack_push_full)
  qed
  show "\<exists>s'. pop_d s = (Inr x, s') \<and> layout_ok s' \<and> ds s' = xs \<and> same_but_d s s'" if "ds s = x # xs"
    using good stack_pop_ok [OF ok, of x xs] that
    by (auto simp: pop_d_def layout_ok_def ds_def rs_def cells_def same_but_d_def same_region_def)
  show "pop_d s = (Inl underflow, s)" if "ds s = []"
    using stack_pop_empty [OF ok] that by (simp add: pop_d_def ds_def)
  show "peek_d s = (Inr x, s)" if "ds s = x # xs"
    using stack_pop_ok [OF ok, of x xs] that by (simp add: peek_d_def ds_def)
  show "peek_d s = (Inl underflow, s)" if "ds s = []"
    using stack_pop_empty [OF ok] that by (simp add: peek_d_def ds_def)
qed (auto simp: same_but_d_def same_region_def region_def)

interpretation return_stack: stack_port push_r pop_r peek_r layout_ok rs "\<lambda>s. region (rstk s)" same_but_r
proof unfold_locales
  fix s :: "'a datapath_scheme" and v x xs
  assume good: "layout_ok s"
  then have ok: "stack_ok (mem s) (rstk s)" by (simp add: layout_ok_def)
  show "\<exists>s'. push_r v s = (Inr (), s') \<and> layout_ok s' \<and> rs s' = v # rs s \<and> same_but_r s s'"
    if "length (rs s) < region (rstk s)"
  proof -
    have r: "0 < room (rstk s)" using that room_pos [OF ok] by (simp add: rs_def)
    let ?a = "spointer (rstk s) - 1"
    let ?s' = "s\<lparr>mem := (mem s)[nat ?a := v], rstk := (rstk s)\<lparr>spointer := ?a\<rparr>\<rparr>"
    have a: "sfloor (rstk s) \<le> ?a" "?a < sbase (rstk s)" "0 \<le> ?a" "sbase (dstk s) \<le> sfloor (rstk s)"
        "sfloor (dstk s) \<le> sbase (dstk s)"
      using good r by (auto simp: layout_ok_def stack_ok_def room_def)
    have "content ((mem s)[nat ?a := v]) (dstk s) = content (mem s) (dstk s)"
      using good a by (intro content_update_outside) (auto simp: layout_ok_def)
    moreover have "cells ?s' = cells s"
      using a by (simp add: cells_def nat_le_iff)
    ultimately show ?thesis
      using good a stack_push_ok(1-3) [OF ok r, where v = v]
      by (intro exI [of _ ?s'])
        (simp add: push_r_def layout_ok_def ds_def rs_def same_but_r_def same_region_def)
  qed
  show "push_r v s = (Inl overflow, s)" if "region (rstk s) \<le> length (rs s)"
  proof -
    have "room (rstk s) = 0" using that room_pos [OF ok] by (simp add: rs_def)
    then show ?thesis by (simp add: push_r_def stack_push_full)
  qed
  show "\<exists>s'. pop_r s = (Inr x, s') \<and> layout_ok s' \<and> rs s' = xs \<and> same_but_r s s'" if "rs s = x # xs"
    using good stack_pop_ok [OF ok, of x xs] that
    by (auto simp: pop_r_def layout_ok_def ds_def rs_def cells_def same_but_r_def same_region_def)
  show "pop_r s = (Inl underflow, s)" if "rs s = []"
    using stack_pop_empty [OF ok] that by (simp add: pop_r_def rs_def)
  show "peek_r s = (Inr x, s)" if "rs s = x # xs"
    using stack_pop_ok [OF ok, of x xs] that by (simp add: peek_r_def rs_def)
  show "peek_r s = (Inl underflow, s)" if "rs s = []"
    using stack_pop_empty [OF ok] that by (simp add: peek_r_def rs_def)
qed (auto simp: same_but_r_def same_region_def region_def)

end
