(* ===== verification/Protected.thy ===== *)
theory Protected
  imports Emulator
begin

section \<open>The protected machine: an abstract specification of the emulator\<close>

text \<open>
  The emulator keeps both stacks as regions of one memory. Its specification keeps three separate
  things: two lists with a capacity and the cells below them. As long as \<^verbatim>\<open>LOAD\<close> and \<^verbatim>\<open>STORE\<close> stay in
  those cells the two agree, step by step, and so do the stack and input errors; where a program
  reaches into a stack region by address, or has a malformed instruction, the specification is
  \<open>Wild\<close> and claims nothing. All the routine proofs of the kernel run on this machine.
\<close>

subsection \<open>The machine\<close>

record amachine =
  aregs :: registers
  ads :: "int list"
  ars :: "int list"
  acells :: "int list"
  ainq :: "int list"
  aoutb :: "int list"
  apc :: int
  ahalted :: bool

datatype 'a outcome = Next 'a | Fail error | Wild

text \<open>What a program runs under: the program and the capacities of the two stacks.\<close>

record config =
  ccode :: program
  dcap :: nat
  rcap :: nat

definition aread :: "amachine \<Rightarrow> string \<Rightarrow> int" where
  "aread a r = register_read (aregs a) r"

definition awrite :: "string \<Rightarrow> int \<Rightarrow> amachine \<Rightarrow> amachine" where
  "awrite r v a = a\<lparr>aregs := register_write (aregs a) r v\<rparr>"

definition in_cells :: "amachine \<Rightarrow> int \<Rightarrow> bool" where
  "in_cells a n \<longleftrightarrow> 0 \<le> n \<and> n < int (length (acells a))"

definition avalue :: "amachine \<Rightarrow> operand \<Rightarrow> int" where
  "avalue a v = (case v of Imm n \<Rightarrow> n | Reg r \<Rightarrow> aread a r)"

text \<open>A missing or unfit operand is \<open>Wild\<close>.\<close>

fun need :: "'x option \<Rightarrow> ('x \<Rightarrow> 'b outcome) \<Rightarrow> 'b outcome" where
  "need (Some x) f = f x"
| "need None f = Wild"

fun need_reg :: "operand option \<Rightarrow> (string \<Rightarrow> 'b outcome) \<Rightarrow> 'b outcome" where
  "need_reg (Some (Reg r)) f = f r"
| "need_reg (Some (Imm n)) f = Wild"
| "need_reg None f = Wild"

fun popped :: "'x list \<Rightarrow> error \<Rightarrow> ('x \<Rightarrow> 'x list \<Rightarrow> 'b outcome) \<Rightarrow> 'b outcome" where
  "popped [] e f = Fail e"
| "popped (x # xs) e f = f x xs"

definition aarith :: "(int \<Rightarrow> int \<Rightarrow> int) \<Rightarrow> string option \<Rightarrow> operand option \<Rightarrow> amachine \<Rightarrow> amachine outcome" where
  "aarith f x y a = need x (\<lambda>r. need y (\<lambda>v. Next (awrite r (f (aread a r) (avalue a v)) a)))"

definition abranch :: "bool \<Rightarrow> int \<Rightarrow> amachine \<Rightarrow> amachine outcome" where
  "abranch taken n a = Next (if taken then a\<lparr>apc := apc a + n\<rparr> else a)"

fun ahandler :: "config \<Rightarrow> opcode \<Rightarrow> string option \<Rightarrow> operand option \<Rightarrow> int option \<Rightarrow> amachine \<Rightarrow> amachine outcome" where
  "ahandler c LOAD x y z a = need x (\<lambda>r. need_reg y (\<lambda>q.
     if in_cells a (aread a q) then Next (awrite r (acells a ! nat (aread a q)) a) else Wild))"
| "ahandler c STORE x y z a = need x (\<lambda>q. need_reg y (\<lambda>r.
     if in_cells a (aread a q) then Next (a\<lparr>acells := (acells a)[nat (aread a q) := aread a r]\<rparr>) else Wild))"
| "ahandler c ADD x y z a = aarith (+) x y a"
| "ahandler c SUB x y z a = aarith (-) x y a"
| "ahandler c OP_AND x y z a = aarith (AND) x y a"
| "ahandler c OP_OR x y z a = aarith (OR) x y a"
| "ahandler c INVERT x y z a = need x (\<lambda>r. Next (awrite r (NOT (aread a r)) a))"
| "ahandler c JMP x y z a = need x (\<lambda>r. Next (a\<lparr>apc := aread a r\<rparr>))"
| "ahandler c JZ x y z a = need x (\<lambda>r. need z (\<lambda>n. abranch (aread a r = 0) n a))"
| "ahandler c JS x y z a = need x (\<lambda>r. need z (\<lambda>n. abranch (aread a r < 0) n a))"
| "ahandler c PUSH_D x y z a = need x (\<lambda>r.
     if length (ads a) < dcap c then Next (a\<lparr>ads := aread a r # ads a\<rparr>) else Fail overflow)"
| "ahandler c POP_D x y z a = need x (\<lambda>r. popped (ads a) underflow (\<lambda>v vs. Next (awrite r v (a\<lparr>ads := vs\<rparr>))))"
| "ahandler c PUSH_R x y z a = need x (\<lambda>r.
     if length (ars a) < rcap c then Next (a\<lparr>ars := aread a r # ars a\<rparr>) else Fail overflow)"
| "ahandler c POP_R x y z a = need x (\<lambda>r. popped (ars a) underflow (\<lambda>v vs. Next (awrite r v (a\<lparr>ars := vs\<rparr>))))"
| "ahandler c IN x y z a = need x (\<lambda>r. popped (ainq a) InputExhaustedError (\<lambda>v vs. Next (awrite r v (a\<lparr>ainq := vs\<rparr>))))"
| "ahandler c OUT x y z a = need x (\<lambda>r. Next (a\<lparr>aoutb := aoutb a @ [aread a r]\<rparr>))"
| "ahandler c HALT x y z a = Next (a\<lparr>ahalted := True\<rparr>)"

definition fetch_at :: "program \<Rightarrow> int \<Rightarrow> instruction option" where
  "fetch_at p n = map_option (\<lambda>k. p ! k) (py_index (length p) n)"

definition astep :: "config \<Rightarrow> amachine \<Rightarrow> amachine outcome" where
  "astep c a =
     (case fetch_at (ccode c) (apc a) of
        None \<Rightarrow> Fail IndexError
      | Some i \<Rightarrow> ahandler c (opcode i) (opa i) (opb i) (offset i) (a\<lparr>apc := apc a + 1\<rparr>))"

fun asteps :: "config \<Rightarrow> nat \<Rightarrow> amachine \<Rightarrow> amachine outcome" where
  "asteps c 0 a = Next a"
| "asteps c (Suc n) a = (case astep c a of Next b \<Rightarrow> asteps c n b | Fail e \<Rightarrow> Fail e | Wild \<Rightarrow> Wild)"

lemma asteps_add: "asteps c m a = Next b \<Longrightarrow> asteps c (m + n) a = asteps c n b"
  by (induction m arbitrary: a) (auto split: outcome.splits)

subsection \<open>The abstraction\<close>

definition abstract_of :: "emulator \<Rightarrow> amachine" where
  "abstract_of s = \<lparr>aregs = regs s, ads = ds s, ars = rs s, acells = cells s, ainq = inq s, aoutb = outb s,
     apc = pc s, ahalted = halted s\<rparr>"

definition config_of :: "emulator \<Rightarrow> config" where
  "config_of s = \<lparr>ccode = prog s, dcap = region (dstk s), rcap = region (rstk s)\<rparr>"

lemma abstract_of_sel [simp]:
  "aregs (abstract_of s) = regs s" "ads (abstract_of s) = ds s" "ars (abstract_of s) = rs s" "acells (abstract_of s) = cells s"
  "ainq (abstract_of s) = inq s" "aoutb (abstract_of s) = outb s" "apc (abstract_of s) = pc s" "ahalted (abstract_of s) = halted s"
  by (simp_all add: abstract_of_def)

lemma config_of_sel [simp]:
  "ccode (config_of s) = prog s" "dcap (config_of s) = region (dstk s)" "rcap (config_of s) = region (rstk s)"
  by (simp_all add: config_of_def)

lemma length_cells: "layout_ok s \<Longrightarrow> int (length (cells s)) = sfloor (dstk s)"
proof -
  assume "layout_ok s"
  then have "nat (sfloor (dstk s)) \<le> length (mem s)" "0 \<le> sfloor (dstk s)"
    by (auto simp: layout_ok_def stack_ok_def nat_le_iff)
  then show ?thesis by (simp add: cells_def)
qed

lemma load_cell_low:
  assumes "layout_ok s" and "0 \<le> n" and "n < int (length (cells s))"
  shows "load_cell n s = (Inr (cells s ! nat n), s)"
proof -
  have len: "nat (sfloor (dstk s)) \<le> length (mem s)" "n < sfloor (dstk s)"
    using assms length_cells [OF assms(1)] by (auto simp: layout_ok_def stack_ok_def nat_le_iff)
  then have "n < int (length (mem s))" by linarith
  moreover have "cells s ! nat n = mem s ! nat n"
    using len assms(2) by (simp add: cells_def)
  ultimately show ?thesis
    using assms(2) by (simp add: load_cell_def)
qed

lemma store_cell_low:
  fixes v :: int
  assumes "layout_ok s" and "0 \<le> n" and "n < int (length (cells s))"
  defines "s' \<equiv> \<lambda>v. s\<lparr>mem := (mem s)[nat n := v]\<rparr>"
  shows "store_cell n v s = (Inr (), s' v)" "layout_ok (s' v)" "ds (s' v) = ds s" "rs (s' v) = rs s"
    "cells (s' v) = (cells s)[nat n := v]"
proof -
  have n: "n < sfloor (dstk s)" "n < sfloor (rstk s)" "n < int (length (mem s))"
      "nat (sfloor (dstk s)) \<le> length (mem s)"
    using assms(1,3) length_cells [OF assms(1)] by (auto simp: layout_ok_def stack_ok_def nat_le_iff)
  show "store_cell n v s = (Inr (), s' v)"
    using assms(2) n by (simp add: store_cell_def s'_def)
  show "layout_ok (s' v)"
    using assms(1) by (simp add: layout_ok_def s'_def)
  show "ds (s' v) = ds s" "rs (s' v) = rs s"
    using assms(1,2) n by (simp_all add: s'_def ds_def rs_def content_update_outside layout_ok_def)
  show "cells (s' v) = (cells s)[nat n := v]"
    using assms(2) n by (simp add: s'_def cells_def slice_update_inside)
qed

text \<open>The state a step leaves: still laid out, the same program and stack regions.\<close>

definition kept :: "emulator \<Rightarrow> emulator \<Rightarrow> bool" where
  "kept s s' \<longleftrightarrow> layout_ok s' \<and> config_of s' = config_of s"

text \<open>Outcome of a computation against the outcome of the specification.\<close>

definition meets :: "emulator \<Rightarrow> (error + unit) \<times> emulator \<Rightarrow> amachine outcome \<Rightarrow> bool" where
  "meets s res out \<longleftrightarrow>
     (case out of
        Next a \<Rightarrow> (\<exists>s'. res = (Inr (), s') \<and> kept s s' \<and> abstract_of s' = a)
      | Fail e \<Rightarrow> (\<exists>s'. res = (Inl e, s') \<and> kept s s')
      | Wild \<Rightarrow> True)"

lemma meets_simps [simp]:
  "meets s (Inr (), s') (Next a) \<longleftrightarrow> kept s s' \<and> abstract_of s' = a"
  "meets s (Inl e, s') (Fail e') \<longleftrightarrow> e = e' \<and> kept s s'"
  "meets s res Wild"
  by (auto simp: meets_def)

lemma kept_refl: "layout_ok s \<Longrightarrow> kept s s"
  by (simp add: kept_def)

lemma kept_trans: "kept s t \<Longrightarrow> kept t u \<Longrightarrow> kept s u"
  by (simp add: kept_def)

lemma kept_regs [simp]:
  "layout_ok (s\<lparr>regs := r\<rparr>) = layout_ok s" "ds (s\<lparr>regs := r\<rparr>) = ds s" "rs (s\<lparr>regs := r\<rparr>) = rs s"
  "cells (s\<lparr>regs := r\<rparr>) = cells s" "config_of (s\<lparr>regs := r\<rparr>) = config_of s"
  by (simp_all add: layout_ok_def ds_def rs_def cells_def config_of_def)

lemma kept_pc [simp]:
  "layout_ok (s\<lparr>pc := x\<rparr>) = layout_ok s" "ds (s\<lparr>pc := x\<rparr>) = ds s" "rs (s\<lparr>pc := x\<rparr>) = rs s"
  "cells (s\<lparr>pc := x\<rparr>) = cells s" "config_of (s\<lparr>pc := x\<rparr>) = config_of s"
  by (simp_all add: layout_ok_def ds_def rs_def cells_def config_of_def)

lemma kept_devices [simp]:
  "layout_ok (s\<lparr>inq := q\<rparr>) = layout_ok s" "ds (s\<lparr>inq := q\<rparr>) = ds s" "rs (s\<lparr>inq := q\<rparr>) = rs s"
  "cells (s\<lparr>inq := q\<rparr>) = cells s" "config_of (s\<lparr>inq := q\<rparr>) = config_of s"
  "layout_ok (s\<lparr>outb := b\<rparr>) = layout_ok s" "ds (s\<lparr>outb := b\<rparr>) = ds s" "rs (s\<lparr>outb := b\<rparr>) = rs s"
  "cells (s\<lparr>outb := b\<rparr>) = cells s" "config_of (s\<lparr>outb := b\<rparr>) = config_of s"
  "layout_ok (s\<lparr>halted := h\<rparr>) = layout_ok s" "ds (s\<lparr>halted := h\<rparr>) = ds s" "rs (s\<lparr>halted := h\<rparr>) = rs s"
  "cells (s\<lparr>halted := h\<rparr>) = cells s" "config_of (s\<lparr>halted := h\<rparr>) = config_of s"
  by (simp_all add: layout_ok_def ds_def rs_def cells_def config_of_def)

lemma abstract_of_updates [simp]:
  "abstract_of (s\<lparr>regs := r\<rparr>) = (abstract_of s)\<lparr>aregs := r\<rparr>"
  "abstract_of (s\<lparr>pc := x\<rparr>) = (abstract_of s)\<lparr>apc := x\<rparr>"
  "abstract_of (s\<lparr>inq := q\<rparr>) = (abstract_of s)\<lparr>ainq := q\<rparr>"
  "abstract_of (s\<lparr>outb := b\<rparr>) = (abstract_of s)\<lparr>aoutb := b\<rparr>"
  "abstract_of (s\<lparr>halted := h\<rparr>) = (abstract_of s)\<lparr>ahalted := h\<rparr>"
  by (simp_all add: abstract_of_def)

lemma datapath_more_eq:
  fixes s t :: emulator
  assumes "datapath.more t = datapath.more s"
  shows "regs t = regs s" "inq t = inq s" "outb t = outb s" "prog t = prog s" "pc t = pc s"
    "halted t = halted s"
  using assms by (cases s; cases t; simp)+

lemma same_but_d_kept:
  assumes "same_but_d s t" and "layout_ok t"
  shows "kept s t" "abstract_of t = (abstract_of s)\<lparr>ads := ds t\<rparr>" "regs t = regs s"
  using assms datapath_more_eq [of t s]
  by (auto simp: same_but_d_def same_region_def kept_def config_of_def region_def abstract_of_def)

lemma same_but_r_kept:
  assumes "same_but_r s t" and "layout_ok t"
  shows "kept s t" "abstract_of t = (abstract_of s)\<lparr>ars := rs t\<rparr>" "regs t = regs s"
  using assms datapath_more_eq [of t s]
  by (auto simp: same_but_r_def same_region_def kept_def config_of_def region_def abstract_of_def)

subsection \<open>The emulator implements the protected machine\<close>

lemmas handler_defs = exec_load_def exec_store_def exec_arith_def exec_add_def exec_sub_def
  exec_and_def exec_or_def exec_invert_def exec_jmp_def exec_branch_def exec_jz_def exec_js_def
  exec_push_d_def exec_pop_d_def exec_push_r_def exec_pop_r_def exec_in_def exec_out_def exec_halt_def

lemma require_simps [simp]:
  "require_register (Some (Reg r)) = pure r"
  "require_offset (Some n) = pure n"
  "field_a i = map_option Reg (opa i)"
  by (simp_all add: require_register_def require_offset_def field_a_def)

lemma read_reg_apply [simp]: "read_reg r s = (Inr (register_read (regs s) r), s)"
  by (simp add: read_reg_def)

lemma write_reg_apply [simp]: "write_reg r v s = (Inr (), s\<lparr>regs := register_write (regs s) r v\<rparr>)"
  by (simp add: write_reg_def)

lemma aread_abstract [simp]: "aread (abstract_of s) r = register_read (regs s) r"
  by (simp add: aread_def)

lemma awrite_abstract: "awrite r v (abstract_of s) = abstract_of (s\<lparr>regs := register_write (regs s) r v\<rparr>)"
  by (simp add: awrite_def)

lemma operand_value_abstract [simp]:
  "operand_value (Some v) s = (Inr (avalue (abstract_of s) v), s)"
  by (cases v) (simp_all add: operand_value_def avalue_def)

lemma arith_meets:
  assumes "layout_ok s"
  shows "meets s (exec_arith f i s) (aarith f (opa i) (opb i) (abstract_of s))"
  using assms
  by (cases "opa i"; cases "opb i")
    (simp_all add: exec_arith_def aarith_def kept_def awrite_def)

lemma branch_meets:
  assumes "layout_ok s"
  shows "meets s (exec_branch t i s)
    (need (opa i) (\<lambda>r. need (offset i) (\<lambda>n. abranch (t (aread (abstract_of s) r)) n (abstract_of s))))"
  using assms
  by (cases "opa i"; cases "offset i")
    (simp_all add: exec_branch_def abranch_def kept_def)

lemma load_meets:
  assumes "layout_ok s"
  shows "meets s (exec_load i s) (ahandler c LOAD (opa i) (opb i) z (abstract_of s))"
proof (cases "\<exists>r q. opa i = Some r \<and> opb i = Some (Reg q)")
  case True
  then obtain r q where o: "opa i = Some r" "opb i = Some (Reg q)" by blast
  let ?n = "register_read (regs s) q"
  show ?thesis
  proof (cases "in_cells (abstract_of s) ?n")
    case True
    with assms have "load_cell ?n s = (Inr (cells s ! nat ?n), s)"
      by (intro load_cell_low) (auto simp: in_cells_def)
    with assms o True show ?thesis
      by (simp add: exec_load_def kept_def awrite_def)
  qed (simp add: o)
next
  case False
  then have "ahandler c LOAD (opa i) (opb i) z (abstract_of s) = Wild"
    by (cases "opa i"; cases "opb i"; cases "the (opb i)") auto
  then show ?thesis by simp
qed

lemma store_meets:
  assumes "layout_ok s"
  shows "meets s (exec_store i s) (ahandler c STORE (opa i) (opb i) z (abstract_of s))"
proof (cases "\<exists>r q. opa i = Some q \<and> opb i = Some (Reg r)")
  case True
  then obtain r q where o: "opa i = Some q" "opb i = Some (Reg r)" by blast
  let ?n = "register_read (regs s) q" and ?v = "register_read (regs s) r"
  show ?thesis
  proof (cases "in_cells (abstract_of s) ?n")
    case True
    then have n: "0 \<le> ?n" "?n < int (length (cells s))" by (auto simp: in_cells_def)
    note low = store_cell_low [OF assms n, where v = ?v]
    have "kept s (s\<lparr>mem := (mem s)[nat ?n := ?v]\<rparr>)"
      using low(2) by (simp add: kept_def config_of_def)
    moreover have "abstract_of (s\<lparr>mem := (mem s)[nat ?n := ?v]\<rparr>) =
        (abstract_of s)\<lparr>acells := (cells s)[nat ?n := ?v]\<rparr>"
      using low by (simp add: abstract_of_def)
    ultimately show ?thesis
      using o True low(1) by (simp add: exec_store_def)
  qed (simp add: o)
next
  case False
  then have "ahandler c STORE (opa i) (opb i) z (abstract_of s) = Wild"
    by (cases "opa i"; cases "opb i"; cases "the (opb i)") auto
  then show ?thesis by simp
qed

lemma push_meets:
  assumes "layout_ok s"
  shows "meets s (exec_push_d i s) (ahandler (config_of s) PUSH_D (opa i) y z (abstract_of s))"
    "meets s (exec_push_r i s) (ahandler (config_of s) PUSH_R (opa i) y z (abstract_of s))"
proof -
  show "meets s (exec_push_d i s) (ahandler (config_of s) PUSH_D (opa i) y z (abstract_of s))"
  proof (cases "opa i")
    case (Some r)
    let ?v = "register_read (regs s) r"
    show ?thesis
    proof (cases "length (ds s) < region (dstk s)")
      case True
      from data_stack.push_ok [OF assms this, of ?v] obtain t where
        t: "push_d ?v s = (Inr (), t)" "layout_ok t" "ds t = ?v # ds s" "same_but_d s t" by blast
      with same_but_d_kept [OF t(4,2)] True Some show ?thesis
        by (simp add: exec_push_d_def)
    next
      case False
      with data_stack.push_full [OF assms, of ?v] assms Some show ?thesis
        by (simp add: exec_push_d_def kept_refl)
    qed
  qed simp
  show "meets s (exec_push_r i s) (ahandler (config_of s) PUSH_R (opa i) y z (abstract_of s))"
  proof (cases "opa i")
    case (Some r)
    let ?v = "register_read (regs s) r"
    show ?thesis
    proof (cases "length (rs s) < region (rstk s)")
      case True
      from return_stack.push_ok [OF assms this, of ?v] obtain t where
        t: "push_r ?v s = (Inr (), t)" "layout_ok t" "rs t = ?v # rs s" "same_but_r s t" by blast
      with same_but_r_kept [OF t(4,2)] True Some show ?thesis
        by (simp add: exec_push_r_def)
    next
      case False
      with return_stack.push_full [OF assms, of ?v] assms Some show ?thesis
        by (simp add: exec_push_r_def kept_refl)
    qed
  qed simp
qed

lemma pop_meets:
  assumes "layout_ok s"
  shows "meets s (exec_pop_d i s) (ahandler c POP_D (opa i) y z (abstract_of s))"
    "meets s (exec_pop_r i s) (ahandler c POP_R (opa i) y z (abstract_of s))"
proof -
  show "meets s (exec_pop_d i s) (ahandler c POP_D (opa i) y z (abstract_of s))"
  proof (cases "opa i")
    case (Some r)
    show ?thesis
    proof (cases "ds s")
      case Nil
      with data_stack.pop_empty [OF assms] assms Some show ?thesis
        by (simp add: exec_pop_d_def kept_refl)
    next
      case (Cons x xs)
      from data_stack.pop_ok [OF assms this] obtain t where
        t: "pop_d s = (Inr x, t)" "layout_ok t" "ds t = xs" "same_but_d s t" by blast
      with same_but_d_kept [OF t(4,2)] Cons Some show ?thesis
        by (simp add: exec_pop_d_def awrite_def kept_def)
    qed
  qed simp
  show "meets s (exec_pop_r i s) (ahandler c POP_R (opa i) y z (abstract_of s))"
  proof (cases "opa i")
    case (Some r)
    show ?thesis
    proof (cases "rs s")
      case Nil
      with return_stack.pop_empty [OF assms] assms Some show ?thesis
        by (simp add: exec_pop_r_def kept_refl)
    next
      case (Cons x xs)
      from return_stack.pop_ok [OF assms this] obtain t where
        t: "pop_r s = (Inr x, t)" "layout_ok t" "rs t = xs" "same_but_r s t" by blast
      with same_but_r_kept [OF t(4,2)] Cons Some show ?thesis
        by (simp add: exec_pop_r_def awrite_def kept_def)
    qed
  qed simp
qed

lemma device_meets:
  assumes "layout_ok s"
  shows "meets s (exec_in i s) (ahandler c IN (opa i) y z (abstract_of s))"
    "meets s (exec_out i s) (ahandler c OUT (opa i) y z (abstract_of s))"
  using assms
  by (cases "opa i"; cases "inq s";
      simp add: exec_in_def read_input_def awrite_def kept_def)
    (cases "opa i"; use assms in \<open>simp add: exec_out_def output_write_def kept_def\<close>)

lemma register_meets:
  assumes "layout_ok s"
  shows "meets s (exec_invert i s) (ahandler c INVERT (opa i) y z (abstract_of s))"
    "meets s (exec_jmp i s) (ahandler c JMP (opa i) y z (abstract_of s))"
    "meets s (exec_halt i s) (ahandler c HALT x y z (abstract_of s))"
  using assms
  by (cases "opa i"; simp add: exec_invert_def exec_jmp_def exec_halt_def awrite_def kept_def)+

lemma handler_meets:
  assumes "layout_ok s"
  shows "meets s (handler op i s) (ahandler (config_of s) op (opa i) (opb i) (offset i) (abstract_of s))"
  by (cases op)
    (use load_meets store_meets arith_meets branch_meets push_meets pop_meets device_meets
      register_meets assms in
      \<open>simp_all add: exec_add_def exec_sub_def exec_and_def exec_or_def exec_jz_def exec_js_def
        del: ahandler.simps(1,2,7,8,11-17)\<close>)

lemma step_meets:
  assumes "layout_ok s"
  shows "meets s (step s) (astep (config_of s) (abstract_of s))"
proof (cases "py_index (length (prog s)) (pc s)")
  case None
  with assms show ?thesis
    by (simp add: step_def fetch_def astep_def fetch_at_def kept_refl)
next
  case (Some k)
  let ?s = "s\<lparr>pc := pc s + 1\<rparr>" and ?i = "prog s ! k"
  have "meets ?s (handler (opcode ?i) ?i ?s)
      (ahandler (config_of ?s) (opcode ?i) (opa ?i) (opb ?i) (offset ?i) (abstract_of ?s))"
    using assms by (intro handler_meets) simp
  with Some assms show ?thesis
    by (simp add: step_def fetch_def astep_def fetch_at_def meets_def kept_def split: outcome.splits)
qed

text \<open>
  C4. The emulator refines the protected machine: from any state whose stacks are laid out in its
  memory, one \<^verbatim>\<open>step\<close> does what the specification says (same registers, stacks, cells, devices and
  program counter, or the same exception), and leaves a laid-out state with the same program and
  stack regions, except where the specification makes no claim.
\<close>

theorem step_refines:
  assumes "layout_ok s"
  shows "meets s (step s) (astep (config_of s) (abstract_of s))"
  using assms by (rule step_meets)

text \<open>On a fresh machine with one input character, \<^verbatim>\<open>IN X\<close> takes it into the register.\<close>

definition reader :: emulator where
  "reader = machine_new\<lparr>inq := [65], prog := [instr IN (Some ''X'') None None]\<rparr>"

lemma reader_sel [simp]:
  "layout_ok reader" "prog reader = [instr IN (Some ''X'') None None]" "inq reader = [65]"
  "pc reader = 0" "halted reader = False" "regs reader = (\<lambda>_. None)"
  using machine_new_sel(1) by (simp_all add: reader_def layout_ok_def)

theorem step_refines_witness:
  "meets reader (step reader) (Next (awrite ''X'' 65 ((abstract_of reader)\<lparr>ainq := [], apc := 1\<rparr>)))"
proof -
  have "astep (config_of reader) (abstract_of reader) =
      Next (awrite ''X'' 65 ((abstract_of reader)\<lparr>ainq := [], apc := 1\<rparr>))"
    by (simp add: astep_def fetch_at_def awrite_def)
  with step_refines [of reader] show ?thesis by simp
qed

end
