(* ===== verification/Runs.thy ===== *)
theory Runs
  imports Protected
begin

section \<open>Runs of the emulator\<close>

text \<open>
  What holds along whole runs: every step of every program keeps the memory layout, well-formed
  programs raise no malformed-instruction error, \<^verbatim>\<open>run\<close> ends in one of three ways and more budget
  never changes a run that halted. Then the rules by which the kernel proofs reason about runs of the
  protected machine: \<open>within c n a Q\<close> says that from \<open>a\<close> a state satisfying \<open>Q\<close> is reached in at
  most \<open>n\<close> steps without halting before.
\<close>

subsection \<open>Every step keeps the layout\<close>

definition keeps :: "'a emu \<Rightarrow> bool" where
  "keeps m \<longleftrightarrow> (\<forall>s. layout_ok s \<longrightarrow> kept s (snd (m s)))"

lemma keeps_pure [wf_intros]: "keeps (pure x)" "keeps (raise e)" "keeps (gets f)"
  by (simp_all add: keeps_def kept_refl)

lemma keeps_chain [wf_intros]: "keeps m \<Longrightarrow> (\<And>x. keeps (f x)) \<Longrightarrow> keeps (chain m f)"
  unfolding keeps_def kept_def chain_def by (auto split: prod.splits sum.splits)

lemma keeps_require [wf_intros]: "keeps (require_register v)" "keeps (require_offset n)"
  by (auto simp: require_register_def require_offset_def intro: wf_intros split: option.splits operand.splits)

lemma keeps_registers [wf_intros]: "keeps (read_reg r)" "keeps (write_reg r v)"
  by (auto simp: keeps_def kept_def)

lemma keeps_operand [wf_intros]: "keeps (operand_value v)"
  by (auto simp: operand_value_def intro: wf_intros split: option.splits operand.splits)

lemma keeps_modify [wf_intros]:
  "keeps (modify (\<lambda>s. s\<lparr>pc := f s\<rparr>))" "keeps (modify (\<lambda>s. s\<lparr>outb := g s\<rparr>))"
  "keeps (modify (\<lambda>s. s\<lparr>halted := h s\<rparr>))"
  by (simp_all add: keeps_def kept_def)

lemma keeps_memory [wf_intros]: "keeps (load_cell a)" "keeps (store_cell a v)"
  by (auto simp: keeps_def kept_def load_cell_def store_cell_def layout_ok_def stack_ok_def
      config_of_def dest: memory_write_size split: sum.splits)

lemma keeps_stacks [wf_intros]: "keeps (push_d v)" "keeps pop_d" "keeps (push_r v)" "keeps pop_r"
proof -
  show "keeps (push_d v)" unfolding keeps_def
  proof (intro allI impI)
    fix s :: emulator assume ok: "layout_ok s"
    show "kept s (snd (push_d v s))"
    proof (cases "length (ds s) < region (dstk s)")
      case True
      from data_stack.push_ok [OF ok this, of v] show ?thesis by (auto dest: same_but_d_kept(1))
    next
      case False
      with data_stack.push_full [OF ok, of v] ok show ?thesis by (simp add: kept_refl)
    qed
  qed
  show "keeps (push_r v)" unfolding keeps_def
  proof (intro allI impI)
    fix s :: emulator assume ok: "layout_ok s"
    show "kept s (snd (push_r v s))"
    proof (cases "length (rs s) < region (rstk s)")
      case True
      from return_stack.push_ok [OF ok this, of v] show ?thesis by (auto dest: same_but_r_kept(1))
    next
      case False
      with return_stack.push_full [OF ok, of v] ok show ?thesis by (simp add: kept_refl)
    qed
  qed
  show "keeps pop_d" unfolding keeps_def
  proof (intro allI impI)
    fix s :: emulator assume ok: "layout_ok s"
    show "kept s (snd (pop_d s))"
    proof (cases "ds s")
      case Nil
      with data_stack.pop_empty [OF ok] ok show ?thesis by (simp add: kept_refl)
    next
      case (Cons x xs)
      from data_stack.pop_ok [OF ok this] show ?thesis by (auto dest: same_but_d_kept(1))
    qed
  qed
  show "keeps pop_r" unfolding keeps_def
  proof (intro allI impI)
    fix s :: emulator assume ok: "layout_ok s"
    show "kept s (snd (pop_r s))"
    proof (cases "rs s")
      case Nil
      with return_stack.pop_empty [OF ok] ok show ?thesis by (simp add: kept_refl)
    next
      case (Cons x xs)
      from return_stack.pop_ok [OF ok this] show ?thesis by (auto dest: same_but_r_kept(1))
    qed
  qed
qed

lemma keeps_input [wf_intros]: "keeps read_input"
  by (simp add: keeps_def kept_def read_input_def split: prod.splits)

lemma keeps_handler [wf_intros]: "keeps (handler op i)"
  by (cases op) (auto simp: handler_defs intro!: wf_intros)

lemma keeps_fetch [wf_intros]: "keeps fetch"
  by (simp add: keeps_def fetch_def kept_refl split: option.splits)

lemma keeps_step: "keeps step"
  unfolding step_def by (intro wf_intros)

lemma step_kept: "layout_ok s \<Longrightarrow> step s = (r, s') \<Longrightarrow> kept s s'"
  using keeps_step unfolding keeps_def by (metis snd_conv)

lemma run_loop_kept: "layout_ok s \<Longrightarrow> run_loop m t s = (r, s') \<Longrightarrow> kept s s'"
proof (induction m t s rule: run_loop.induct)
  case (1 m t s)
  show ?case
  proof (cases "halted s \<or> t \<ge> m")
    case True
    with "1.prems" show ?thesis
      by (auto simp: run_loop.simps [of m t s] kept_refl split: if_splits)
  next
    case False
    obtain q s1 where st: "step s = (q, s1)" by force
    have k: "kept s s1" using "1.prems"(1) st by (rule step_kept)
    show ?thesis
    proof (cases q)
      case (Inl e)
      with "1.prems" False st k show ?thesis by (simp add: run_loop.simps [of m t s])
    next
      case (Inr u)
      with "1.prems" False st have "run_loop m (t + 1) s1 = (r, s')"
        by (simp add: run_loop.simps [of m t s])
      then have "kept s1 s'"
        using "1.IH" False st Inr k by (auto simp: kept_def)
      with k show ?thesis by (rule kept_trans)
    qed
  qed
qed

text \<open>
  C16. Safety of the data path: whatever the program, well-formed or not, and however a run ends,
  both stack pointers stay inside their regions, the regions keep their sizes and never meet, and the loaded
  program is unchanged.
\<close>

theorem run_keeps_layout:
  assumes "layout_ok s" and "run n s = (r, s')"
  shows "layout_ok s' \<and> config_of s' = config_of s"
  using run_loop_kept [of s n 0 r s'] assms by (simp_all add: run_def kept_def)

theorem run_keeps_layout_witness:
  "layout_ok (snd (run 5 reader)) \<and> config_of (snd (run 5 reader)) = config_of reader"
  using run_keeps_layout [of reader 5 "fst (run 5 reader)" "snd (run 5 reader)"] by simp

subsection \<open>What a step can raise\<close>

definition step_errors :: "error set" where
  "step_errors = {IndexError, overflow, underflow, InputExhaustedError}"

definition raises_only :: "error set \<Rightarrow> 'a emu \<Rightarrow> bool" where
  "raises_only E m \<longleftrightarrow> (\<forall>s e. fst (m s) = Inl e \<longrightarrow> e \<in> E)"

lemma raises_only_basic [wf_intros]:
  "raises_only E (pure x)" "raises_only E (read_reg r)" "raises_only E (write_reg r v)"
  "raises_only E (modify f)"
  by (simp_all add: raises_only_def)

lemma raises_only_chain [wf_intros]:
  "raises_only E m \<Longrightarrow> (\<And>x. raises_only E (f x)) \<Longrightarrow> raises_only E (chain m f)"
  unfolding raises_only_def chain_def by (auto split: prod.splits sum.splits) (metis fst_conv)+

lemma raises_only_data [wf_intros]:
  "raises_only step_errors (load_cell a)" "raises_only step_errors (store_cell a v)"
  "raises_only step_errors (push_d v)" "raises_only step_errors pop_d"
  "raises_only step_errors (push_r v)" "raises_only step_errors pop_r"
  "raises_only step_errors read_input"
  by (auto simp: raises_only_def step_errors_def load_cell_def store_cell_def push_d_def pop_d_def
      push_r_def pop_r_def stack_push_def stack_pop_def read_input_def input_read_def Let_def
      dest: memory_errors split: sum.splits prod.splits if_splits list.splits)

lemma raises_only_operand [wf_intros]: "raises_only E (operand_value (Some v))"
  by (cases v) (simp_all add: operand_value_def raises_only_basic raises_only_chain)

lemma raises_only_handler:
  assumes "instruction_ok i"
  shows "raises_only step_errors (handler (opcode i) i)"
  using assms
  by (cases "opcode i")
    (auto simp: handler_defs instruction_ok_def intro!: wf_intros)

text \<open>The exceptions of a step of a program the assembler can emit.\<close>

lemma step_errors_only:
  assumes "program_ok (prog s)" and "step s = (Inl e, s')"
  shows "e \<in> step_errors"
proof (cases "py_index (length (prog s)) (pc s)")
  case None
  with assms(2) show ?thesis
    by (simp add: step_def fetch_def step_errors_def)
next
  case (Some k)
  let ?i = "prog s ! k"
  from assms(1) py_index_bound [OF Some] have "instruction_ok ?i"
    by (simp add: program_ok_def list_all_length)
  from raises_only_handler [OF this] Some assms(2) show ?thesis
    unfolding raises_only_def step_def fetch_def by (auto dest: spec [of _ "s\<lparr>pc := pc s + 1\<rparr>"])
qed

text \<open>A program that pops the empty data stack.\<close>

definition popper :: emulator where
  "popper = machine_new\<lparr>prog := [instr POP_D (Some ''X'') None None]\<rparr>"

lemma popper_step: "step popper = (Inl underflow, popper\<lparr>pc := 1\<rparr>)"
proof -
  let ?s = "popper\<lparr>pc := 1\<rparr>"
  have "pop_d ?s = (Inl underflow, ?s)"
    using machine_new_sel(1,2) by (intro data_stack.pop_empty) (simp_all add: popper_def layout_ok_def ds_def)
  then show ?thesis
    by (simp add: step_def fetch_def popper_def exec_pop_d_def require_register_def field_a_def)
qed

subsection \<open>How a run ends\<close>

lemma run_loop_halted [simp]: "halted s \<Longrightarrow> run_loop m t s = (Inr (), s)"
  by (simp add: run_loop.simps)

lemma run_loop_step:
  "\<not> halted s \<Longrightarrow> t < m \<Longrightarrow> step s = (Inr u, s') \<Longrightarrow> run_loop m t s = run_loop m (t + 1) s'"
  by (simp add: run_loop.simps [of m t s])

lemma run_loop_raise:
  "\<not> halted s \<Longrightarrow> t < m \<Longrightarrow> step s = (Inl e, s') \<Longrightarrow> run_loop m t s = (Inl e, s')"
  by (simp add: run_loop.simps [of m t s])

lemma run_loop_exceeded:
  "\<not> halted s \<Longrightarrow> m \<le> t \<Longrightarrow> run_loop m t s = (Inl (EmulatorError (ExceededSteps m)), s)"
  by (simp add: run_loop.simps)

text \<open>The states a run goes through: \<open>n\<close> unhalted states, each stepped without an exception.\<close>

fun goes :: "nat \<Rightarrow> emulator \<Rightarrow> emulator \<Rightarrow> bool" where
  "goes 0 s t = (t = s)"
| "goes (Suc n) s t = (\<not> halted s \<and> (\<exists>u s'. step s = (Inr u, s') \<and> goes n s' t))"

lemma run_loop_goes: "goes n s t \<Longrightarrow> k + int n \<le> m \<Longrightarrow> run_loop m k s = run_loop m (k + int n) t"
proof (induction n arbitrary: s k)
  case 0
  then show ?case by simp
next
  case (Suc n)
  then obtain u s' where st: "\<not> halted s" "step s = (Inr u, s')" "goes n s' t" by auto
  have "run_loop m k s = run_loop m (k + 1) s'"
    using st Suc.prems by (intro run_loop_step) auto
  also have "\<dots> = run_loop m (k + 1 + int n) t"
    using st(3) Suc.prems by (intro Suc.IH) auto
  finally show ?case by (simp add: algebra_simps)
qed

definition ends_at :: "int \<Rightarrow> int \<Rightarrow> emulator \<Rightarrow> error + unit \<Rightarrow> emulator \<Rightarrow> nat \<Rightarrow> bool" where
  "ends_at m k s r t n \<longleftrightarrow>
     (r = Inr () \<and> halted t \<and> goes n s t \<and> (n = 0 \<or> k + int n \<le> m)) \<or>
     (r = Inl (EmulatorError (ExceededSteps m)) \<and> \<not> halted t \<and> goes n s t \<and> int n = max 0 (m - k)) \<or>
     (\<exists>t' e. r = Inl e \<and> goes n s t' \<and> \<not> halted t' \<and> step t' = (Inl e, t) \<and> k + int n < m)"

lemma ends_at_Suc:
  assumes "ends_at m (k + 1) s' r t n" and "\<not> halted s" "k < m" "step s = (Inr u, s')"
  shows "ends_at m k s r t (Suc n)"
proof -
  have "goes (Suc n) s x \<longleftrightarrow> goes n s' x" for x using assms(2,4) by simp
  with assms(1,3) show ?thesis unfolding ends_at_def by auto
qed

lemma run_loop_outcome:
  assumes "run_loop m k s = (r, t)"
  shows "\<exists>n. ends_at m k s r t n"
  using assms
proof (induction "nat (m - k)" arbitrary: k s)
  case 0
  then have "ends_at m k s r t 0" by (cases "halted s") (auto simp: run_loop_exceeded ends_at_def)
  then show ?case ..
next
  case (Suc d)
  then have km: "k < m" by simp
  show ?case
  proof (cases "halted s")
    case True
    with Suc.prems have "ends_at m k s r t 0" by (simp add: ends_at_def)
    then show ?thesis ..
  next
    case False
    obtain q s1 where st: "step s = (q, s1)" by force
    show ?thesis
    proof (cases q)
      case (Inl e)
      with Suc.prems False st km have "ends_at m k s r t 0"
        by (auto simp: run_loop_raise ends_at_def)
      then show ?thesis ..
    next
      case (Inr u)
      with Suc.prems False st km have "run_loop m (k + 1) s1 = (r, t)"
        by (simp add: run_loop_step)
      then obtain n where "ends_at m (k + 1) s1 r t n"
        using Suc.hyps(1) [of "k + 1" s1] Suc.hyps(2) by fastforce
      from ends_at_Suc [OF this False km] st Inr show ?thesis by blast
    qed
  qed
qed

text \<open>
  C17. \<^verbatim>\<open>run\<close> always returns, in one of three ways: after at most \<open>m\<close> steps the machine is halted; or
  exactly \<open>m\<close> steps were taken and it is not, which raises the runaway error; or some step raised,
  and \<^verbatim>\<open>run\<close> raises the same.
\<close>

theorem run_outcome:
  "\<exists>n t. int n \<le> max 0 m \<and>
     (run m s = (Inr (), t) \<and> halted t \<and> goes n s t \<or>
      run m s = (Inl (EmulatorError (ExceededSteps m)), t) \<and> \<not> halted t \<and> goes n s t \<and> int n = max 0 m \<or>
      (\<exists>t' e. run m s = (Inl e, t) \<and> goes n s t' \<and> \<not> halted t' \<and> step t' = (Inl e, t) \<and> int n < m))"
proof -
  obtain r t where r: "run_loop m 0 s = (r, t)" by force
  from run_loop_outcome [OF this] obtain n where n: "ends_at m 0 s r t n" by blast
  then have "int n \<le> max 0 m" unfolding ends_at_def by auto
  moreover have "run m s = (Inr (), t) \<and> halted t \<and> goes n s t \<or>
      run m s = (Inl (EmulatorError (ExceededSteps m)), t) \<and> \<not> halted t \<and> goes n s t \<and> int n = max 0 m \<or>
      (\<exists>t' e. run m s = (Inl e, t) \<and> goes n s t' \<and> \<not> halted t' \<and> step t' = (Inl e, t) \<and> int n < m)"
    using n unfolding ends_at_def run_def r by auto
  ultimately show ?thesis by blast
qed

text \<open>
  A larger budget never changes a run that halted: the result does not depend on
  \<^verbatim>\<open>max_steps\<close> once it is enough.
\<close>

theorem run_budget_monotone:
  assumes "run m s = (Inr (), t)" and "m \<le> m'"
  shows "run m' s = (Inr (), t)"
proof -
  from run_loop_outcome [of m 0 s "Inr ()" t] assms(1) obtain n where
    n: "halted t" "goes n s t" "n = 0 \<or> int n \<le> m"
    by (auto simp: run_def ends_at_def)
  show ?thesis
  proof (cases "n = 0")
    case True
    with n show ?thesis by (simp add: run_def)
  next
    case False
    with n assms(2) have "run_loop m' 0 s = run_loop m' (0 + int n) t"
      by (intro run_loop_goes) auto
    with n show ?thesis by (simp add: run_def)
  qed
qed

definition halter :: emulator where
  "halter = machine_new\<lparr>prog := [instr HALT None None None]\<rparr>"

theorem run_budget_monotone_witness:
  "run 100000 halter = (Inr (), halter\<lparr>pc := 1, halted := True\<rparr>)"
proof -
  have st: "step halter = (Inr (), halter\<lparr>pc := 1, halted := True\<rparr>)" "\<not> halted halter"
    by (simp_all add: step_def fetch_def halter_def exec_halt_def)
  have "run 1 halter = (Inr (), halter\<lparr>pc := 1, halted := True\<rparr>)"
    using run_loop_step [OF st(2) _ st(1), of 0 1] by (simp add: run_def)
  then show ?thesis using run_budget_monotone [of 1 halter _ 100000] by simp
qed

end
