(* ===== verification/Exec.thy ===== *)
theory Exec
  imports Runs
begin

section \<open>Reasoning about executions of assembled code\<close>

text \<open>
  The rules by which the kernel proofs run code on the protected machine. \<open>after c n a Q\<close> says that
  \<open>n\<close> steps from \<open>a\<close> succeed, none of them from a halted state, and lead to a state satisfying \<open>Q\<close>.
  The transfer lemmas turn such facts into results of \<^verbatim>\<open>run\<close> on the emulator: a normal end, an exception
  or the runaway error.
\<close>

subsection \<open>Executions of known length\<close>

fun after :: "config \<Rightarrow> nat \<Rightarrow> amachine \<Rightarrow> (amachine \<Rightarrow> bool) \<Rightarrow> bool" where
  "after c 0 a Q = Q a"
| "after c (Suc n) a Q = (\<not> ahalted a \<and> (case astep c a of Next b \<Rightarrow> after c n b Q | Fail e \<Rightarrow> False | Wild \<Rightarrow> False))"

lemma after_step: "\<not> ahalted a \<Longrightarrow> astep c a = Next b \<Longrightarrow> after c (Suc n) a Q = after c n b Q"
  by simp

lemma after_add: "after c (m + n) a Q = after c m a (\<lambda>b. after c n b Q)"
  by (induction m arbitrary: a) (auto split: outcome.splits)

lemma after_mono: "after c n a P \<Longrightarrow> (\<And>b. P b \<Longrightarrow> Q b) \<Longrightarrow> after c n a Q"
  by (induction n arbitrary: a) (auto split: outcome.splits)

lemma after_chain: "after c m a P \<Longrightarrow> (\<And>b. P b \<Longrightarrow> after c n b Q) \<Longrightarrow> after c (m + n) a Q"
  unfolding after_add by (rule after_mono)

lemma after_numeral:
  "after c (numeral k) a Q \<longleftrightarrow> \<not> ahalted a \<and>
     (case astep c a of Next b \<Rightarrow> after c (pred_numeral k) b Q | Fail e \<Rightarrow> False | Wild \<Rightarrow> False)"
  by (simp only: numeral_eq_Suc after.simps)

text \<open>Some number of steps, at most \<open>m\<close>.\<close>

definition within :: "config \<Rightarrow> nat \<Rightarrow> amachine \<Rightarrow> (amachine \<Rightarrow> bool) \<Rightarrow> bool" where
  "within c m a Q \<longleftrightarrow> (\<exists>n \<le> m. after c n a Q)"

lemma withinI: "after c n a Q \<Longrightarrow> n \<le> m \<Longrightarrow> within c m a Q"
  by (auto simp: within_def)

lemma within_now: "Q a \<Longrightarrow> within c m a Q"
  by (rule withinI [of c 0]) auto

lemma within_chain:
  assumes "within c m a P" and "\<And>b. P b \<Longrightarrow> within c n b Q"
  shows "within c (m + n) a Q"
proof -
  from assms(1) obtain j where j: "j \<le> m" "after c j a P" by (auto simp: within_def)
  have "\<exists>k \<le> n. after c j a (\<lambda>b. after c k b Q)" using j(2) assms(2)
  proof (induction j arbitrary: a)
    case 0
    then show ?case by (auto simp: within_def)
  next
    case (Suc j)
    then show ?case by (auto split: outcome.splits)
  qed
  with j(1) show ?thesis unfolding within_def by (metis after_add add_mono)
qed

lemma within_mono: "within c m a P \<Longrightarrow> m \<le> n \<Longrightarrow> (\<And>b. P b \<Longrightarrow> Q b) \<Longrightarrow> within c n a Q"
  unfolding within_def by (meson after_mono order_trans)

subsection \<open>Transfer to the emulator\<close>

lemma goes_add: "goes m s t \<Longrightarrow> goes n t u \<Longrightarrow> goes (m + n) s u"
  by (induction m arbitrary: s) auto

lemma goes_prefix: "goes (m + n) s u \<Longrightarrow> \<exists>t. goes m s t \<and> goes n t u"
  by (induction m arbitrary: s) (simp, fastforce)

lemma after_goes:
  assumes "layout_ok s" and "after (config_of s) n (abstract_of s) Q"
  shows "\<exists>t. goes n s t \<and> kept s t \<and> Q (abstract_of t)"
  using assms
proof (induction n arbitrary: s)
  case 0
  then show ?case by (auto simp: kept_refl)
next
  case (Suc n)
  from Suc.prems(2) obtain b where b: "\<not> halted s" "astep (config_of s) (abstract_of s) = Next b"
      "after (config_of s) n b Q"
    by (auto split: outcome.splits)
  from step_meets [OF Suc.prems(1)] b(2) obtain s' where
    s': "step s = (Inr (), s')" "kept s s'" "abstract_of s' = b"
    by (auto simp: meets_def)
  with b(3) Suc.IH [of s'] obtain t where "goes n s' t" "kept s' t" "Q (abstract_of t)"
    by (auto simp: kept_def)
  with s' b(1) show ?case by (auto simp: kept_def)
qed

lemma run_halts:
  assumes "layout_ok s" and "within (config_of s) n (abstract_of s) (\<lambda>b. ahalted b \<and> Q b)" and "int n \<le> m"
  shows "\<exists>t. run m s = (Inr (), t) \<and> kept s t \<and> halted t \<and> Q (abstract_of t)"
proof -
  from assms(2) obtain k where "k \<le> n" "after (config_of s) k (abstract_of s) (\<lambda>b. ahalted b \<and> Q b)"
    by (auto simp: within_def)
  moreover from after_goes [OF assms(1) this(2)] obtain t where
    t: "goes k s t" "kept s t" "halted t" "Q (abstract_of t)" by auto
  ultimately have "run_loop m 0 s = run_loop m (int k) t"
    using run_loop_goes [of k s t 0 m] assms(3) by simp
  with t show ?thesis by (simp add: run_def)
qed

lemma run_raises:
  assumes "layout_ok s" and "int n < m"
    and "within (config_of s) n (abstract_of s) (\<lambda>b. \<not> ahalted b \<and> astep (config_of s) b = Fail e)"
  shows "\<exists>t. run m s = (Inl e, t) \<and> kept s t"
proof -
  let ?Q = "\<lambda>b. \<not> ahalted b \<and> astep (config_of s) b = Fail e"
  from assms(3) obtain k where k: "k \<le> n" "after (config_of s) k (abstract_of s) ?Q"
    by (auto simp: within_def)
  from after_goes [OF assms(1) this(2)] obtain u where
    u: "goes k s u" "kept s u" "\<not> halted u" "astep (config_of u) (abstract_of u) = Fail e"
    by (auto simp: kept_def)
  from u(2) have ok: "layout_ok u" by (simp add: kept_def)
  from step_meets [OF this] u(4) obtain t where t: "step u = (Inl e, t)" "kept u t"
    by (auto simp: meets_def)
  have "run_loop m 0 s = run_loop m (int k) u"
    using run_loop_goes [OF u(1), of 0 m] k(1) assms(2) by simp
  also have "\<dots> = (Inl e, t)"
    using u(3) t(1) k(1) assms(2) by (intro run_loop_raise) auto
  finally show ?thesis using kept_trans [OF u(2) t(2)] by (auto simp: run_def)
qed

lemma run_exceeds:
  assumes "layout_ok s" and "after (config_of s) n (abstract_of s) Q" and "0 \<le> m" and "m < int n"
  shows "\<exists>t. run m s = (Inl (EmulatorError (ExceededSteps m)), t) \<and> kept s t"
proof -
  have n: "n = nat m + Suc (n - nat m - 1)" using assms(3,4) by linarith
  then have "after (config_of s) (nat m) (abstract_of s) (\<lambda>b. after (config_of s) (Suc (n - nat m - 1)) b Q)"
    using assms(2) by (metis after_add)
  then have "after (config_of s) (nat m) (abstract_of s) (\<lambda>b. \<not> ahalted b)"
    by (rule after_mono) simp
  from after_goes [OF assms(1) this] obtain t where t: "goes (nat m) s t" "kept s t" "\<not> halted t" by auto
  have "run_loop m 0 s = run_loop m m t"
    using run_loop_goes [OF t(1), of 0 m] assms(3) by simp
  also have "\<dots> = (Inl (EmulatorError (ExceededSteps m)), t)"
    using t(3) by (simp add: run_loop_exceeded)
  finally show ?thesis using t(2) by (auto simp: run_def)
qed

text \<open>Executions that never stop: every number of steps succeeds without halting.\<close>

definition diverges :: "config \<Rightarrow> amachine \<Rightarrow> bool" where
  "diverges c a \<longleftrightarrow> (\<forall>n. after c n a (\<lambda>_. True))"

lemma diverges_loop:
  assumes "P a" and "\<And>a. P a \<Longrightarrow> after c (Suc j) a P"
  shows "diverges c a"
  unfolding diverges_def
proof
  fix n
  have "after c (n * Suc j) a P" for n
  proof (induction n)
    case 0
    with assms(1) show ?case by simp
  next
    case (Suc n)
    have "after c (n * Suc j + Suc j) a P" by (rule after_chain [OF Suc assms(2)])
    moreover have "Suc n * Suc j = n * Suc j + Suc j" by simp
    ultimately show ?case by (simp only:)
  qed
  moreover have "n * Suc j = n + n * j" by simp
  ultimately have "after c (n + n * j) a P" by metis
  then have "after c n a (\<lambda>b. after c (n * j) b P)" by (simp add: after_add)
  then show "after c n a (\<lambda>_. True)" by (rule after_mono) simp
qed

lemma diverges_after:
  assumes "after c k a (diverges c)"
  shows "diverges c a"
  unfolding diverges_def
proof
  fix n
  have "after c (k + n) a (\<lambda>_. True)" by (rule after_chain [OF assms]) (simp add: diverges_def)
  then have "after c n a (\<lambda>b. after c k b (\<lambda>_. True))" by (simp add: after_add [symmetric] add.commute)
  then show "after c n a (\<lambda>_. True)" by (rule after_mono) simp
qed

lemma diverges_within: "within c k a (diverges c) \<Longrightarrow> diverges c a"
  by (auto simp: within_def intro: diverges_after)

lemma run_diverges:
  assumes "layout_ok s" and "diverges (config_of s) (abstract_of s)" and "0 \<le> m"
  shows "\<exists>t. run m s = (Inl (EmulatorError (ExceededSteps m)), t) \<and> kept s t"
  using run_exceeds [OF assms(1) _ assms(3), of "nat m + 1" "\<lambda>_. True"] assms(2,3)
  by (simp add: diverges_def del: after.simps)

subsection \<open>Code in place\<close>

text \<open>The instructions \<open>q\<close> stand in the program \<open>p\<close> from index \<open>a\<close> on.\<close>

definition code_at :: "program \<Rightarrow> int \<Rightarrow> program \<Rightarrow> bool" where
  "code_at p a q \<longleftrightarrow> (\<exists>pre post. p = pre @ q @ post \<and> int (length pre) = a)"

lemma code_at_fetch:
  assumes "code_at p a q" and "a \<le> n" and "n < a + int (length q)"
  shows "fetch_at p n = Some (q ! nat (n - a))"
proof -
  from assms(1) obtain pre post where p: "p = pre @ q @ post" "int (length pre) = a"
    by (auto simp: code_at_def)
  have "n < int (length p)" "0 \<le> n" using p assms(2,3) by auto
  moreover have "p ! nat n = q ! nat (n - a)"
  proof -
    obtain k where k: "nat n = length pre + k" "k < length q" "nat (n - a) = k"
      using p assms(2,3) by (intro that [of "nat (n - a)"]) auto
    then show ?thesis by (simp add: p(1) nth_append)
  qed
  ultimately show ?thesis by (simp add: fetch_at_def)
qed

end
