(* ===== verification/KernelImage.thy ===== *)
theory KernelImage
  imports Routines Exec
begin

section \<open>The assembled kernel\<close>

text \<open>
  The instruction blocks of the routines with their start indices, and the proof that they are what
  the assembler makes of the kernel's source: \<open>routine_block\<close> checks one routine's text at its start
  index against the final label table, and the blocks are joined in program order. Everything later
  about the kernel's code starts from these blocks.
\<close>

subsection \<open>The instruction blocks\<close>

definition CORE_code :: program where
  "CORE_code = [
     instr SUB (Some ''NEXTREG'') (Some (Reg ''NEXTREG'')) None,
     instr ADD (Some ''NEXTREG'') (Some (Imm 3)) None,
     instr JMP (Some ''NEXTREG'') None None,
     instr LOAD (Some ''W'') (Some (Reg ''IP'')) None,
     instr ADD (Some ''IP'') (Some (Imm 1)) None,
     instr LOAD (Some ''XT'') (Some (Reg ''W'')) None,
     instr JMP (Some ''XT'') None None,
     instr PUSH_R (Some ''IP'') None None,
     instr ADD (Some ''W'') (Some (Imm 1)) None,
     instr SUB (Some ''IP'') (Some (Reg ''IP'')) None,
     instr ADD (Some ''IP'') (Some (Reg ''W'')) None,
     instr JMP (Some ''NEXTREG'') None None]"

definition LIT_code :: program where
  "LIT_code = [
     instr LOAD (Some ''ACC'') (Some (Reg ''IP'')) None,
     instr PUSH_D (Some ''ACC'') None None,
     instr ADD (Some ''IP'') (Some (Imm 1)) None,
     instr JMP (Some ''NEXTREG'') None None]"

definition EXIT_code :: program where
  "EXIT_code = [
     instr POP_R (Some ''IP'') None None,
     instr JMP (Some ''NEXTREG'') None None]"

definition BYE_code :: program where
  "BYE_code = [
     instr HALT None None None]"

definition DUP_code :: program where
  "DUP_code = [
     instr POP_D (Some ''X'') None None,
     instr PUSH_D (Some ''X'') None None,
     instr PUSH_D (Some ''X'') None None,
     instr JMP (Some ''NEXTREG'') None None]"

definition DROP_code :: program where
  "DROP_code = [
     instr POP_D (Some ''X'') None None,
     instr JMP (Some ''NEXTREG'') None None]"

definition SWAP_code :: program where
  "SWAP_code = [
     instr POP_D (Some ''X'') None None,
     instr POP_D (Some ''Y'') None None,
     instr PUSH_D (Some ''X'') None None,
     instr PUSH_D (Some ''Y'') None None,
     instr JMP (Some ''NEXTREG'') None None]"

definition OVER_code :: program where
  "OVER_code = [
     instr POP_D (Some ''X'') None None,
     instr POP_D (Some ''Y'') None None,
     instr PUSH_D (Some ''Y'') None None,
     instr PUSH_D (Some ''X'') None None,
     instr PUSH_D (Some ''Y'') None None,
     instr JMP (Some ''NEXTREG'') None None]"

definition ROT_code :: program where
  "ROT_code = [
     instr POP_D (Some ''X'') None None,
     instr POP_D (Some ''Y'') None None,
     instr POP_D (Some ''Z'') None None,
     instr PUSH_D (Some ''Y'') None None,
     instr PUSH_D (Some ''X'') None None,
     instr PUSH_D (Some ''Z'') None None,
     instr JMP (Some ''NEXTREG'') None None]"

definition NROT_code :: program where
  "NROT_code = [
     instr POP_D (Some ''X'') None None,
     instr POP_D (Some ''Y'') None None,
     instr POP_D (Some ''Z'') None None,
     instr PUSH_D (Some ''X'') None None,
     instr PUSH_D (Some ''Z'') None None,
     instr PUSH_D (Some ''Y'') None None,
     instr JMP (Some ''NEXTREG'') None None]"

definition NIP_code :: program where
  "NIP_code = [
     instr POP_D (Some ''X'') None None,
     instr POP_D (Some ''Y'') None None,
     instr PUSH_D (Some ''X'') None None,
     instr JMP (Some ''NEXTREG'') None None]"

definition TUCK_code :: program where
  "TUCK_code = [
     instr POP_D (Some ''X'') None None,
     instr POP_D (Some ''Y'') None None,
     instr PUSH_D (Some ''X'') None None,
     instr PUSH_D (Some ''Y'') None None,
     instr PUSH_D (Some ''X'') None None,
     instr JMP (Some ''NEXTREG'') None None]"

definition PLUS_code :: program where
  "PLUS_code = [
     instr POP_D (Some ''X'') None None,
     instr POP_D (Some ''Y'') None None,
     instr ADD (Some ''Y'') (Some (Reg ''X'')) None,
     instr PUSH_D (Some ''Y'') None None,
     instr JMP (Some ''NEXTREG'') None None]"

definition MINUS_code :: program where
  "MINUS_code = [
     instr POP_D (Some ''X'') None None,
     instr POP_D (Some ''Y'') None None,
     instr SUB (Some ''Y'') (Some (Reg ''X'')) None,
     instr PUSH_D (Some ''Y'') None None,
     instr JMP (Some ''NEXTREG'') None None]"

definition MUL_code :: program where
  "MUL_code = [
     instr POP_D (Some ''X'') None None,
     instr POP_D (Some ''Y'') None None,
     instr SUB (Some ''ACC'') (Some (Reg ''ACC'')) None,
     instr JZ (Some ''X'') None (Some 5),
     instr ADD (Some ''ACC'') (Some (Reg ''Y'')) None,
     instr SUB (Some ''X'') (Some (Imm 1)) None,
     instr SUB (Some ''R'') (Some (Reg ''R'')) None,
     instr ADD (Some ''R'') (Some (Imm 73)) None,
     instr JMP (Some ''R'') None None,
     instr PUSH_D (Some ''ACC'') None None,
     instr JMP (Some ''NEXTREG'') None None]"

definition NEGATE_code :: program where
  "NEGATE_code = [
     instr POP_D (Some ''X'') None None,
     instr SUB (Some ''Y'') (Some (Reg ''Y'')) None,
     instr SUB (Some ''Y'') (Some (Reg ''X'')) None,
     instr PUSH_D (Some ''Y'') None None,
     instr JMP (Some ''NEXTREG'') None None]"

definition ABS_code :: program where
  "ABS_code = [
     instr POP_D (Some ''X'') None None,
     instr JS (Some ''X'') None (Some 2),
     instr PUSH_D (Some ''X'') None None,
     instr JMP (Some ''NEXTREG'') None None,
     instr SUB (Some ''Y'') (Some (Reg ''Y'')) None,
     instr SUB (Some ''Y'') (Some (Reg ''X'')) None,
     instr PUSH_D (Some ''Y'') None None,
     instr JMP (Some ''NEXTREG'') None None]"

definition ONEPLUS_code :: program where
  "ONEPLUS_code = [
     instr POP_D (Some ''X'') None None,
     instr ADD (Some ''X'') (Some (Imm 1)) None,
     instr PUSH_D (Some ''X'') None None,
     instr JMP (Some ''NEXTREG'') None None]"

definition ONEMINUS_code :: program where
  "ONEMINUS_code = [
     instr POP_D (Some ''X'') None None,
     instr SUB (Some ''X'') (Some (Imm 1)) None,
     instr PUSH_D (Some ''X'') None None,
     instr JMP (Some ''NEXTREG'') None None]"

definition FETCH_code :: program where
  "FETCH_code = [
     instr POP_D (Some ''X'') None None,
     instr LOAD (Some ''Y'') (Some (Reg ''X'')) None,
     instr PUSH_D (Some ''Y'') None None,
     instr JMP (Some ''NEXTREG'') None None]"

definition STOREW_code :: program where
  "STOREW_code = [
     instr POP_D (Some ''X'') None None,
     instr POP_D (Some ''Y'') None None,
     instr STORE (Some ''X'') (Some (Reg ''Y'')) None,
     instr JMP (Some ''NEXTREG'') None None]"

definition CFETCH_code :: program where
  "CFETCH_code = [
     instr POP_D (Some ''X'') None None,
     instr LOAD (Some ''Y'') (Some (Reg ''X'')) None,
     instr PUSH_D (Some ''Y'') None None,
     instr JMP (Some ''NEXTREG'') None None]"

definition CSTOREW_code :: program where
  "CSTOREW_code = [
     instr POP_D (Some ''X'') None None,
     instr POP_D (Some ''Y'') None None,
     instr STORE (Some ''X'') (Some (Reg ''Y'')) None,
     instr JMP (Some ''NEXTREG'') None None]"

definition TOR_code :: program where
  "TOR_code = [
     instr POP_D (Some ''X'') None None,
     instr PUSH_R (Some ''X'') None None,
     instr JMP (Some ''NEXTREG'') None None]"

definition FROMR_code :: program where
  "FROMR_code = [
     instr POP_R (Some ''X'') None None,
     instr PUSH_D (Some ''X'') None None,
     instr JMP (Some ''NEXTREG'') None None]"

definition RFETCH_code :: program where
  "RFETCH_code = [
     instr POP_R (Some ''X'') None None,
     instr PUSH_R (Some ''X'') None None,
     instr PUSH_D (Some ''X'') None None,
     instr JMP (Some ''NEXTREG'') None None]"

definition EQUALS_code :: program where
  "EQUALS_code = [
     instr POP_D (Some ''X'') None None,
     instr POP_D (Some ''Y'') None None,
     instr SUB (Some ''Y'') (Some (Reg ''X'')) None,
     instr JZ (Some ''Y'') None (Some 4),
     instr SUB (Some ''Z'') (Some (Reg ''Z'')) None,
     instr ADD (Some ''Z'') (Some (Imm 0)) None,
     instr PUSH_D (Some ''Z'') None None,
     instr JMP (Some ''NEXTREG'') None None,
     instr SUB (Some ''Z'') (Some (Reg ''Z'')) None,
     instr ADD (Some ''Z'') (Some (Imm (- 1))) None,
     instr PUSH_D (Some ''Z'') None None,
     instr JMP (Some ''NEXTREG'') None None]"

definition NOTEQUALS_code :: program where
  "NOTEQUALS_code = [
     instr POP_D (Some ''X'') None None,
     instr POP_D (Some ''Y'') None None,
     instr SUB (Some ''Y'') (Some (Reg ''X'')) None,
     instr JZ (Some ''Y'') None (Some 4),
     instr SUB (Some ''Z'') (Some (Reg ''Z'')) None,
     instr ADD (Some ''Z'') (Some (Imm (- 1))) None,
     instr PUSH_D (Some ''Z'') None None,
     instr JMP (Some ''NEXTREG'') None None,
     instr SUB (Some ''Z'') (Some (Reg ''Z'')) None,
     instr ADD (Some ''Z'') (Some (Imm 0)) None,
     instr PUSH_D (Some ''Z'') None None,
     instr JMP (Some ''NEXTREG'') None None]"

definition LESSTHAN_code :: program where
  "LESSTHAN_code = [
     instr POP_D (Some ''X'') None None,
     instr POP_D (Some ''Y'') None None,
     instr SUB (Some ''Y'') (Some (Reg ''X'')) None,
     instr JS (Some ''Y'') None (Some 4),
     instr SUB (Some ''Z'') (Some (Reg ''Z'')) None,
     instr ADD (Some ''Z'') (Some (Imm 0)) None,
     instr PUSH_D (Some ''Z'') None None,
     instr JMP (Some ''NEXTREG'') None None,
     instr SUB (Some ''Z'') (Some (Reg ''Z'')) None,
     instr ADD (Some ''Z'') (Some (Imm (- 1))) None,
     instr PUSH_D (Some ''Z'') None None,
     instr JMP (Some ''NEXTREG'') None None]"

definition GREATERTHAN_code :: program where
  "GREATERTHAN_code = [
     instr POP_D (Some ''X'') None None,
     instr POP_D (Some ''Y'') None None,
     instr SUB (Some ''X'') (Some (Reg ''Y'')) None,
     instr JS (Some ''X'') None (Some 4),
     instr SUB (Some ''Z'') (Some (Reg ''Z'')) None,
     instr ADD (Some ''Z'') (Some (Imm 0)) None,
     instr PUSH_D (Some ''Z'') None None,
     instr JMP (Some ''NEXTREG'') None None,
     instr SUB (Some ''Z'') (Some (Reg ''Z'')) None,
     instr ADD (Some ''Z'') (Some (Imm (- 1))) None,
     instr PUSH_D (Some ''Z'') None None,
     instr JMP (Some ''NEXTREG'') None None]"

definition ZEROEQ_code :: program where
  "ZEROEQ_code = [
     instr POP_D (Some ''X'') None None,
     instr JZ (Some ''X'') None (Some 4),
     instr SUB (Some ''Z'') (Some (Reg ''Z'')) None,
     instr ADD (Some ''Z'') (Some (Imm 0)) None,
     instr PUSH_D (Some ''Z'') None None,
     instr JMP (Some ''NEXTREG'') None None,
     instr SUB (Some ''Z'') (Some (Reg ''Z'')) None,
     instr ADD (Some ''Z'') (Some (Imm (- 1))) None,
     instr PUSH_D (Some ''Z'') None None,
     instr JMP (Some ''NEXTREG'') None None]"

definition ZEROLT_code :: program where
  "ZEROLT_code = [
     instr POP_D (Some ''X'') None None,
     instr JS (Some ''X'') None (Some 4),
     instr SUB (Some ''Z'') (Some (Reg ''Z'')) None,
     instr ADD (Some ''Z'') (Some (Imm 0)) None,
     instr PUSH_D (Some ''Z'') None None,
     instr JMP (Some ''NEXTREG'') None None,
     instr SUB (Some ''Z'') (Some (Reg ''Z'')) None,
     instr ADD (Some ''Z'') (Some (Imm (- 1))) None,
     instr PUSH_D (Some ''Z'') None None,
     instr JMP (Some ''NEXTREG'') None None]"

definition BITAND_code :: program where
  "BITAND_code = [
     instr POP_D (Some ''X'') None None,
     instr POP_D (Some ''Y'') None None,
     instr OP_AND (Some ''Y'') (Some (Reg ''X'')) None,
     instr PUSH_D (Some ''Y'') None None,
     instr JMP (Some ''NEXTREG'') None None]"

definition BITOR_code :: program where
  "BITOR_code = [
     instr POP_D (Some ''X'') None None,
     instr POP_D (Some ''Y'') None None,
     instr OP_OR (Some ''Y'') (Some (Reg ''X'')) None,
     instr PUSH_D (Some ''Y'') None None,
     instr JMP (Some ''NEXTREG'') None None]"

definition BITINVERT_code :: program where
  "BITINVERT_code = [
     instr POP_D (Some ''X'') None None,
     instr INVERT (Some ''X'') None None,
     instr PUSH_D (Some ''X'') None None,
     instr JMP (Some ''NEXTREG'') None None]"

definition KEY_code :: program where
  "KEY_code = [
     instr IN (Some ''X'') None None,
     instr PUSH_D (Some ''X'') None None,
     instr JMP (Some ''NEXTREG'') None None]"

definition EMIT_code :: program where
  "EMIT_code = [
     instr POP_D (Some ''X'') None None,
     instr OUT (Some ''X'') None None,
     instr JMP (Some ''NEXTREG'') None None]"

definition NUMBER_code :: program where
  "NUMBER_code = [
     instr POP_D (Some ''PTR'') None None,
     instr LOAD (Some ''LEN'') (Some (Reg ''PTR'')) None,
     instr ADD (Some ''PTR'') (Some (Imm 1)) None,
     instr SUB (Some ''N'') (Some (Reg ''N'')) None,
     instr SUB (Some ''NEG'') (Some (Reg ''NEG'')) None,
     instr JZ (Some ''LEN'') None (Some 52),
     instr LOAD (Some ''C'') (Some (Reg ''PTR'')) None,
     instr SUB (Some ''T'') (Some (Reg ''T'')) None,
     instr ADD (Some ''T'') (Some (Reg ''C'')) None,
     instr SUB (Some ''T'') (Some (Imm 45)) None,
     instr JZ (Some ''T'') None (Some 3),
     instr SUB (Some ''R'') (Some (Reg ''R'')) None,
     instr ADD (Some ''R'') (Some (Imm 235)) None,
     instr JMP (Some ''R'') None None,
     instr SUB (Some ''NEG'') (Some (Reg ''NEG'')) None,
     instr ADD (Some ''NEG'') (Some (Imm 1)) None,
     instr ADD (Some ''PTR'') (Some (Imm 1)) None,
     instr SUB (Some ''LEN'') (Some (Imm 1)) None,
     instr JZ (Some ''LEN'') None (Some 39),
     instr JZ (Some ''LEN'') None (Some 28),
     instr LOAD (Some ''C'') (Some (Reg ''PTR'')) None,
     instr SUB (Some ''DIGIT'') (Some (Reg ''DIGIT'')) None,
     instr ADD (Some ''DIGIT'') (Some (Reg ''C'')) None,
     instr SUB (Some ''DIGIT'') (Some (Imm 48)) None,
     instr JS (Some ''DIGIT'') None (Some 33),
     instr SUB (Some ''T'') (Some (Reg ''T'')) None,
     instr ADD (Some ''T'') (Some (Reg ''DIGIT'')) None,
     instr SUB (Some ''T'') (Some (Imm 10)) None,
     instr JS (Some ''T'') None (Some 3),
     instr SUB (Some ''R'') (Some (Reg ''R'')) None,
     instr ADD (Some ''R'') (Some (Imm 274)) None,
     instr JMP (Some ''R'') None None,
     instr SUB (Some ''T'') (Some (Reg ''T'')) None,
     instr ADD (Some ''T'') (Some (Reg ''N'')) None,
     instr ADD (Some ''T'') (Some (Reg ''T'')) None,
     instr SUB (Some ''U'') (Some (Reg ''U'')) None,
     instr ADD (Some ''U'') (Some (Reg ''T'')) None,
     instr ADD (Some ''T'') (Some (Reg ''T'')) None,
     instr ADD (Some ''T'') (Some (Reg ''T'')) None,
     instr ADD (Some ''T'') (Some (Reg ''U'')) None,
     instr SUB (Some ''N'') (Some (Reg ''N'')) None,
     instr ADD (Some ''N'') (Some (Reg ''T'')) None,
     instr ADD (Some ''N'') (Some (Reg ''DIGIT'')) None,
     instr ADD (Some ''PTR'') (Some (Imm 1)) None,
     instr SUB (Some ''LEN'') (Some (Imm 1)) None,
     instr SUB (Some ''R'') (Some (Reg ''R'')) None,
     instr ADD (Some ''R'') (Some (Imm 235)) None,
     instr JMP (Some ''R'') None None,
     instr JZ (Some ''NEG'') None (Some 4),
     instr SUB (Some ''T'') (Some (Reg ''T'')) None,
     instr ADD (Some ''T'') (Some (Reg ''N'')) None,
     instr SUB (Some ''N'') (Some (Reg ''N'')) None,
     instr SUB (Some ''N'') (Some (Reg ''T'')) None,
     instr PUSH_D (Some ''N'') None None,
     instr SUB (Some ''FLAG'') (Some (Reg ''FLAG'')) None,
     instr ADD (Some ''FLAG'') (Some (Imm 1)) None,
     instr PUSH_D (Some ''FLAG'') None None,
     instr JMP (Some ''NEXTREG'') None None,
     instr SUB (Some ''Z'') (Some (Reg ''Z'')) None,
     instr PUSH_D (Some ''Z'') None None,
     instr PUSH_D (Some ''Z'') None None,
     instr JMP (Some ''NEXTREG'') None None]"

definition WORD_code :: program where
  "WORD_code = [
     instr POP_D (Some ''DELIM'') None None,
     instr IN (Some ''C'') None None,
     instr SUB (Some ''T'') (Some (Reg ''T'')) None,
     instr ADD (Some ''T'') (Some (Reg ''C'')) None,
     instr SUB (Some ''T'') (Some (Reg ''DELIM'')) None,
     instr JZ (Some ''T'') None (Some (- 5)),
     instr SUB (Some ''PTR'') (Some (Reg ''PTR'')) None,
     instr ADD (Some ''PTR'') (Some (Imm 1984)) None,
     instr ADD (Some ''PTR'') (Some (Imm 1)) None,
     instr SUB (Some ''LEN'') (Some (Reg ''LEN'')) None,
     instr STORE (Some ''PTR'') (Some (Reg ''C'')) None,
     instr ADD (Some ''PTR'') (Some (Imm 1)) None,
     instr ADD (Some ''LEN'') (Some (Imm 1)) None,
     instr IN (Some ''C'') None None,
     instr SUB (Some ''T'') (Some (Reg ''T'')) None,
     instr ADD (Some ''T'') (Some (Reg ''C'')) None,
     instr SUB (Some ''T'') (Some (Reg ''DELIM'')) None,
     instr JZ (Some ''T'') None (Some 3),
     instr SUB (Some ''R'') (Some (Reg ''R'')) None,
     instr ADD (Some ''R'') (Some (Imm 288)) None,
     instr JMP (Some ''R'') None None,
     instr SUB (Some ''PTR'') (Some (Reg ''PTR'')) None,
     instr ADD (Some ''PTR'') (Some (Imm 1984)) None,
     instr STORE (Some ''PTR'') (Some (Reg ''LEN'')) None,
     instr PUSH_D (Some ''PTR'') None None,
     instr JMP (Some ''NEXTREG'') None None]"

definition FIND_code :: program where
  "FIND_code = [
     instr POP_D (Some ''NAMEADDR'') None None,
     instr LOAD (Some ''SLEN'') (Some (Reg ''NAMEADDR'')) None,
     instr SUB (Some ''T'') (Some (Reg ''T'')) None,
     instr ADD (Some ''T'') (Some (Imm 1)) None,
     instr LOAD (Some ''CUR'') (Some (Reg ''T'')) None,
     instr JZ (Some ''CUR'') None (Some 65),
     instr SUB (Some ''T'') (Some (Reg ''T'')) None,
     instr ADD (Some ''T'') (Some (Reg ''CUR'')) None,
     instr SUB (Some ''T'') (Some (Imm 1)) None,
     instr LOAD (Some ''SMUDGE'') (Some (Reg ''T'')) None,
     instr JZ (Some ''SMUDGE'') None (Some 3),
     instr SUB (Some ''R'') (Some (Reg ''R'')) None,
     instr ADD (Some ''R'') (Some (Imm 368)) None,
     instr JMP (Some ''R'') None None,
     instr LOAD (Some ''WLEN'') (Some (Reg ''CUR'')) None,
     instr SUB (Some ''T'') (Some (Reg ''T'')) None,
     instr ADD (Some ''T'') (Some (Reg ''WLEN'')) None,
     instr SUB (Some ''T'') (Some (Reg ''SLEN'')) None,
     instr JZ (Some ''T'') None (Some 3),
     instr SUB (Some ''R'') (Some (Reg ''R'')) None,
     instr ADD (Some ''R'') (Some (Imm 368)) None,
     instr JMP (Some ''R'') None None,
     instr SUB (Some ''WPTR'') (Some (Reg ''WPTR'')) None,
     instr ADD (Some ''WPTR'') (Some (Reg ''CUR'')) None,
     instr ADD (Some ''WPTR'') (Some (Imm 1)) None,
     instr SUB (Some ''SPTR'') (Some (Reg ''SPTR'')) None,
     instr ADD (Some ''SPTR'') (Some (Reg ''NAMEADDR'')) None,
     instr ADD (Some ''SPTR'') (Some (Imm 1)) None,
     instr SUB (Some ''COUNT'') (Some (Reg ''COUNT'')) None,
     instr ADD (Some ''COUNT'') (Some (Reg ''SLEN'')) None,
     instr JZ (Some ''COUNT'') None (Some 15),
     instr LOAD (Some ''WC'') (Some (Reg ''WPTR'')) None,
     instr LOAD (Some ''SC'') (Some (Reg ''SPTR'')) None,
     instr SUB (Some ''T'') (Some (Reg ''T'')) None,
     instr ADD (Some ''T'') (Some (Reg ''WC'')) None,
     instr SUB (Some ''T'') (Some (Reg ''SC'')) None,
     instr JZ (Some ''T'') None (Some 3),
     instr SUB (Some ''R'') (Some (Reg ''R'')) None,
     instr ADD (Some ''R'') (Some (Imm 368)) None,
     instr JMP (Some ''R'') None None,
     instr ADD (Some ''WPTR'') (Some (Imm 1)) None,
     instr ADD (Some ''SPTR'') (Some (Imm 1)) None,
     instr SUB (Some ''COUNT'') (Some (Imm 1)) None,
     instr SUB (Some ''R'') (Some (Reg ''R'')) None,
     instr ADD (Some ''R'') (Some (Imm 334)) None,
     instr JMP (Some ''R'') None None,
     instr SUB (Some ''CFA'') (Some (Reg ''CFA'')) None,
     instr ADD (Some ''CFA'') (Some (Reg ''CUR'')) None,
     instr ADD (Some ''CFA'') (Some (Imm 1)) None,
     instr ADD (Some ''CFA'') (Some (Reg ''WLEN'')) None,
     instr PUSH_D (Some ''CFA'') None None,
     instr SUB (Some ''T'') (Some (Reg ''T'')) None,
     instr ADD (Some ''T'') (Some (Reg ''CUR'')) None,
     instr SUB (Some ''T'') (Some (Imm 2)) None,
     instr LOAD (Some ''IMM'') (Some (Reg ''T'')) None,
     instr JZ (Some ''IMM'') None (Some 4),
     instr SUB (Some ''FLAG'') (Some (Reg ''FLAG'')) None,
     instr ADD (Some ''FLAG'') (Some (Imm 1)) None,
     instr PUSH_D (Some ''FLAG'') None None,
     instr JMP (Some ''NEXTREG'') None None,
     instr SUB (Some ''FLAG'') (Some (Reg ''FLAG'')) None,
     instr SUB (Some ''FLAG'') (Some (Imm 1)) None,
     instr PUSH_D (Some ''FLAG'') None None,
     instr JMP (Some ''NEXTREG'') None None,
     instr SUB (Some ''T'') (Some (Reg ''T'')) None,
     instr ADD (Some ''T'') (Some (Reg ''CUR'')) None,
     instr SUB (Some ''T'') (Some (Imm 3)) None,
     instr LOAD (Some ''CUR'') (Some (Reg ''T'')) None,
     instr SUB (Some ''R'') (Some (Reg ''R'')) None,
     instr ADD (Some ''R'') (Some (Imm 309)) None,
     instr JMP (Some ''R'') None None,
     instr SUB (Some ''T'') (Some (Reg ''T'')) None,
     instr PUSH_D (Some ''T'') None None,
     instr PUSH_D (Some ''T'') None None,
     instr JMP (Some ''NEXTREG'') None None]"

text \<open>Start index, source, labels and instructions of every routine, in program order.\<close>

definition routine_table :: "(int \<times> string \<times> (string \<times> int) list \<times> program) list" where
  "routine_table = [
     (0, CORE_SOURCE, [(''START'', 0), (''NEXT'', 3), (''ENTER'', 7)], CORE_code),
     (12, LIT_source, [(''LIT'', 12)], LIT_code),
     (16, EXIT_source, [(''EXIT'', 16)], EXIT_code),
     (18, BYE_source, [(''BYE'', 18)], BYE_code),
     (19, DUP_source, [(''DUP'', 19)], DUP_code),
     (23, DROP_source, [(''DROP'', 23)], DROP_code),
     (25, SWAP_source, [(''SWAP'', 25)], SWAP_code),
     (30, OVER_source, [(''OVER'', 30)], OVER_code),
     (36, ROT_source, [(''ROT'', 36)], ROT_code),
     (43, NROT_source, [(''NROT'', 43)], NROT_code),
     (50, NIP_source, [(''NIP'', 50)], NIP_code),
     (54, TUCK_source, [(''TUCK'', 54)], TUCK_code),
     (60, PLUS_source, [(''PLUS'', 60)], PLUS_code),
     (65, MINUS_source, [(''MINUS'', 65)], MINUS_code),
     (70, MUL_source, [(''MUL'', 70), (''MUL_LOOP'', 73), (''MUL_DONE'', 79)], MUL_code),
     (81, NEGATE_source, [(''NEGATE'', 81)], NEGATE_code),
     (86, ABS_source, [(''ABS'', 86), (''ABS_NEG'', 90)], ABS_code),
     (94, ONEPLUS_source, [(''ONEPLUS'', 94)], ONEPLUS_code),
     (98, ONEMINUS_source, [(''ONEMINUS'', 98)], ONEMINUS_code),
     (102, FETCH_source, [(''FETCH'', 102)], FETCH_code),
     (106, STOREW_source, [(''STOREW'', 106)], STOREW_code),
     (110, CFETCH_source, [(''CFETCH'', 110)], CFETCH_code),
     (114, CSTOREW_source, [(''CSTOREW'', 114)], CSTOREW_code),
     (118, TOR_source, [(''TOR'', 118)], TOR_code),
     (121, FROMR_source, [(''FROMR'', 121)], FROMR_code),
     (124, RFETCH_source, [(''RFETCH'', 124)], RFETCH_code),
     (128, EQUALS_source, [(''EQUALS'', 128), (''EQ_TRUE'', 136)], EQUALS_code),
     (140, NOTEQUALS_source, [(''NOTEQUALS'', 140), (''NE_FALSE'', 148)], NOTEQUALS_code),
     (152, LESSTHAN_source, [(''LESSTHAN'', 152), (''LT_TRUE'', 160)], LESSTHAN_code),
     (164, GREATERTHAN_source, [(''GREATERTHAN'', 164), (''GT_TRUE'', 172)], GREATERTHAN_code),
     (176, ZEROEQ_source, [(''ZEROEQ'', 176), (''ZE_TRUE'', 182)], ZEROEQ_code),
     (186, ZEROLT_source, [(''ZEROLT'', 186), (''ZL_TRUE'', 192)], ZEROLT_code),
     (196, BITAND_source, [(''BITAND'', 196)], BITAND_code),
     (201, BITOR_source, [(''BITOR'', 201)], BITOR_code),
     (206, BITINVERT_source, [(''BITINVERT'', 206)], BITINVERT_code),
     (210, KEY_source, [(''KEY'', 210)], KEY_code),
     (213, EMIT_source, [(''EMIT'', 213)], EMIT_code),
     (216, NUMBER_source, [(''NUMBER'', 216), (''NUM_NEG'', 230), (''NUM_LOOP'', 235), (''NUM_DIGIT_OK'',
        248), (''NUM_DONE'', 264), (''NUM_PUSH'', 269), (''NUM_FAIL'', 274)], NUMBER_code),
     (278, WORD_source, [(''WORD'', 278), (''WORD_SKIP'', 279), (''WORD_COLLECT'', 288), (''WORD_END'',
        299)], WORD_code),
     (304, FIND_source, [(''FIND'', 304), (''FIND_LOOP'', 309), (''FIND_VISIBLE'', 318), (''FIND_CMP'',
        326), (''FIND_CHARS'', 334), (''FIND_CHAR_OK'', 344), (''FIND_MATCH'', 350),
        (''FIND_NORMAL'', 364), (''FIND_NEXT'', 368), (''FIND_NOTFOUND'', 375)], FIND_code)]"

definition kernel_sites :: "(string \<times> int) list" where
  "kernel_sites = concat (map (\<lambda>(a, s, sites, code). sites) routine_table)"

definition kernel_labels :: label_table where
  "kernel_labels = map_of kernel_sites"

definition kernel_program :: program where
  "kernel_program = concat (map (\<lambda>(a, s, sites, code). code) routine_table)"

lemma kernel_sites_literal [code]: "kernel_sites =
    [(''START'', 0), (''NEXT'', 3), (''ENTER'', 7), (''LIT'', 12), (''EXIT'', 16), (''BYE'', 18),
     (''DUP'', 19), (''DROP'', 23), (''SWAP'', 25), (''OVER'', 30), (''ROT'', 36), (''NROT'', 43),
     (''NIP'', 50), (''TUCK'', 54), (''PLUS'', 60), (''MINUS'', 65), (''MUL'', 70), (''MUL_LOOP'', 73),
     (''MUL_DONE'', 79), (''NEGATE'', 81), (''ABS'', 86), (''ABS_NEG'', 90), (''ONEPLUS'', 94),
     (''ONEMINUS'', 98), (''FETCH'', 102), (''STOREW'', 106), (''CFETCH'', 110), (''CSTOREW'', 114),
     (''TOR'', 118), (''FROMR'', 121), (''RFETCH'', 124), (''EQUALS'', 128), (''EQ_TRUE'', 136),
     (''NOTEQUALS'', 140), (''NE_FALSE'', 148), (''LESSTHAN'', 152), (''LT_TRUE'', 160),
     (''GREATERTHAN'', 164), (''GT_TRUE'', 172), (''ZEROEQ'', 176), (''ZE_TRUE'', 182), (''ZEROLT'',
     186), (''ZL_TRUE'', 192), (''BITAND'', 196), (''BITOR'', 201), (''BITINVERT'', 206), (''KEY'', 210),
     (''EMIT'', 213), (''NUMBER'', 216), (''NUM_NEG'', 230), (''NUM_LOOP'', 235), (''NUM_DIGIT_OK'',
     248), (''NUM_DONE'', 264), (''NUM_PUSH'', 269), (''NUM_FAIL'', 274), (''WORD'', 278),
     (''WORD_SKIP'', 279), (''WORD_COLLECT'', 288), (''WORD_END'', 299), (''FIND'', 304), (''FIND_LOOP'',
     309), (''FIND_VISIBLE'', 318), (''FIND_CMP'', 326), (''FIND_CHARS'', 334), (''FIND_CHAR_OK'', 344),
     (''FIND_MATCH'', 350), (''FIND_NORMAL'', 364), (''FIND_NEXT'', 368), (''FIND_NOTFOUND'', 375)]"
  by (simp add: kernel_sites_def routine_table_def)

text \<open>The table at every label, and at the registers the code adds, which it must not hold.\<close>

lemma kernel_label_lookup:
  "kernel_labels ''START'' = Some 0"
  "kernel_labels ''NEXT'' = Some 3"
  "kernel_labels ''ENTER'' = Some 7"
  "kernel_labels ''LIT'' = Some 12"
  "kernel_labels ''EXIT'' = Some 16"
  "kernel_labels ''BYE'' = Some 18"
  "kernel_labels ''DUP'' = Some 19"
  "kernel_labels ''DROP'' = Some 23"
  "kernel_labels ''SWAP'' = Some 25"
  "kernel_labels ''OVER'' = Some 30"
  "kernel_labels ''ROT'' = Some 36"
  "kernel_labels ''NROT'' = Some 43"
  "kernel_labels ''NIP'' = Some 50"
  "kernel_labels ''TUCK'' = Some 54"
  "kernel_labels ''PLUS'' = Some 60"
  "kernel_labels ''MINUS'' = Some 65"
  "kernel_labels ''MUL'' = Some 70"
  "kernel_labels ''MUL_LOOP'' = Some 73"
  "kernel_labels ''MUL_DONE'' = Some 79"
  "kernel_labels ''NEGATE'' = Some 81"
  "kernel_labels ''ABS'' = Some 86"
  "kernel_labels ''ABS_NEG'' = Some 90"
  "kernel_labels ''ONEPLUS'' = Some 94"
  "kernel_labels ''ONEMINUS'' = Some 98"
  "kernel_labels ''FETCH'' = Some 102"
  "kernel_labels ''STOREW'' = Some 106"
  "kernel_labels ''CFETCH'' = Some 110"
  "kernel_labels ''CSTOREW'' = Some 114"
  "kernel_labels ''TOR'' = Some 118"
  "kernel_labels ''FROMR'' = Some 121"
  "kernel_labels ''RFETCH'' = Some 124"
  "kernel_labels ''EQUALS'' = Some 128"
  "kernel_labels ''EQ_TRUE'' = Some 136"
  "kernel_labels ''NOTEQUALS'' = Some 140"
  "kernel_labels ''NE_FALSE'' = Some 148"
  "kernel_labels ''LESSTHAN'' = Some 152"
  "kernel_labels ''LT_TRUE'' = Some 160"
  "kernel_labels ''GREATERTHAN'' = Some 164"
  "kernel_labels ''GT_TRUE'' = Some 172"
  "kernel_labels ''ZEROEQ'' = Some 176"
  "kernel_labels ''ZE_TRUE'' = Some 182"
  "kernel_labels ''ZEROLT'' = Some 186"
  "kernel_labels ''ZL_TRUE'' = Some 192"
  "kernel_labels ''BITAND'' = Some 196"
  "kernel_labels ''BITOR'' = Some 201"
  "kernel_labels ''BITINVERT'' = Some 206"
  "kernel_labels ''KEY'' = Some 210"
  "kernel_labels ''EMIT'' = Some 213"
  "kernel_labels ''NUMBER'' = Some 216"
  "kernel_labels ''NUM_NEG'' = Some 230"
  "kernel_labels ''NUM_LOOP'' = Some 235"
  "kernel_labels ''NUM_DIGIT_OK'' = Some 248"
  "kernel_labels ''NUM_DONE'' = Some 264"
  "kernel_labels ''NUM_PUSH'' = Some 269"
  "kernel_labels ''NUM_FAIL'' = Some 274"
  "kernel_labels ''WORD'' = Some 278"
  "kernel_labels ''WORD_SKIP'' = Some 279"
  "kernel_labels ''WORD_COLLECT'' = Some 288"
  "kernel_labels ''WORD_END'' = Some 299"
  "kernel_labels ''FIND'' = Some 304"
  "kernel_labels ''FIND_LOOP'' = Some 309"
  "kernel_labels ''FIND_VISIBLE'' = Some 318"
  "kernel_labels ''FIND_CMP'' = Some 326"
  "kernel_labels ''FIND_CHARS'' = Some 334"
  "kernel_labels ''FIND_CHAR_OK'' = Some 344"
  "kernel_labels ''FIND_MATCH'' = Some 350"
  "kernel_labels ''FIND_NORMAL'' = Some 364"
  "kernel_labels ''FIND_NEXT'' = Some 368"
  "kernel_labels ''FIND_NOTFOUND'' = Some 375"
  by code_simp+

lemma kernel_register_lookup:
  "kernel_labels ''ACC'' = None"
  "kernel_labels ''DELIM'' = None"
  "kernel_labels ''DIGIT'' = None"
  "kernel_labels ''FLAG'' = None"
  "kernel_labels ''LEN'' = None"
  "kernel_labels ''N'' = None"
  "kernel_labels ''NEG'' = None"
  "kernel_labels ''NEXTREG'' = None"
  "kernel_labels ''PTR'' = None"
  "kernel_labels ''R'' = None"
  "kernel_labels ''SC'' = None"
  "kernel_labels ''SLEN'' = None"
  "kernel_labels ''T'' = None"
  "kernel_labels ''U'' = None"
  "kernel_labels ''WLEN'' = None"
  "kernel_labels ''X'' = None"
  "kernel_labels ''Y'' = None"
  "kernel_labels ''Z'' = None"
  by code_simp+

subsection \<open>Joining the blocks\<close>

definition routine_block :: "int \<Rightarrow> string \<Rightarrow> (string \<times> int) list \<Rightarrow> program \<Rightarrow> bool" where
  "routine_block a src sites code \<longleftrightarrow>
     (\<exists>raws. closed_lines src = Some raws \<and>
        (\<forall>n. \<exists>ls. parse_lines n raws = Inr ls \<and> label_sites a ls = sites \<and>
           emit_lines (placed_from a ls) kernel_labels = Inr code))"

lemma routine_block_append:
  assumes "routine_block a s sites code" and "routine_block (a + int (length code)) t sites' code'"
  shows "routine_block a (s @ t) (sites @ sites') (code @ code')"
proof -
  from assms(1) obtain raws where raws: "closed_lines s = Some raws"
    and one: "\<And>n. \<exists>ls. parse_lines n raws = Inr ls \<and> label_sites a ls = sites \<and>
        emit_lines (placed_from a ls) kernel_labels = Inr code"
    by (auto simp: routine_block_def)
  from assms(2) obtain raws' where raws': "closed_lines t = Some raws'"
    and two: "\<And>n. \<exists>ls. parse_lines n raws' = Inr ls \<and> label_sites (a + int (length code)) ls = sites' \<and>
        emit_lines (placed_from (a + int (length code)) ls) kernel_labels = Inr code'"
    by (auto simp: routine_block_def)
  have "\<exists>ls. parse_lines n (raws @ raws') = Inr ls \<and> label_sites a ls = sites @ sites' \<and>
      emit_lines (placed_from a ls) kernel_labels = Inr (code @ code')" for n
  proof -
    obtain ls where ls: "parse_lines n raws = Inr ls" "label_sites a ls = sites"
        "emit_lines (placed_from a ls) kernel_labels = Inr code"
      using one by blast
    obtain ls' where ls': "parse_lines (n + length raws) raws' = Inr ls'"
        "label_sites (a + int (length code)) ls' = sites'"
        "emit_lines (placed_from (a + int (length code)) ls') kernel_labels = Inr code'"
      using two by blast
    have "int (length code) = total_size ls" using emit_lines_ok [OF ls(3)] by simp
    with ls ls' show ?thesis
      by (simp add: parse_lines_append label_sites_append placed_from_append emit_lines_append)
  qed
  with closed_lines_join [OF raws raws'] show ?thesis by (auto simp: routine_block_def)
qed

text \<open>A table whose start indices run on from \<open>a\<close>.\<close>

fun table_from :: "int \<Rightarrow> (int \<times> string \<times> (string \<times> int) list \<times> program) list \<Rightarrow> bool" where
  "table_from a [] = True"
| "table_from a ((b, s, sites, code) # rest) =
     (b = a \<and> routine_block a s sites code \<and> table_from (a + int (length code)) rest)"

lemma table_from_block:
  "table_from a t \<Longrightarrow> routine_block a (concat (map (\<lambda>(b, s, sites, code). s) t))
     (concat (map (\<lambda>(b, s, sites, code). sites) t)) (concat (map (\<lambda>(b, s, sites, code). code) t))"
proof (induction a t rule: table_from.induct)
  case (1 a)
  then show ?case by (simp add: routine_block_def closed_lines_bits)
next
  case (2 a b s sites code rest)
  then show ?case by (auto intro!: routine_block_append)
qed

lemma table_from_code_at:
  assumes "table_from a t" and "(b, s, sites, code) \<in> set t" and "int (length pre) = a"
  shows "code_at (pre @ concat (map (\<lambda>(b, s, sites, code). code) t)) b code"
  using assms
proof (induction a t arbitrary: pre rule: table_from.induct)
  case (1 a)
  then show ?case by simp
next
  case (2 a b' s' sites' code' rest)
  show ?case
  proof (cases "(b, s, sites, code) = (b', s', sites', code')")
    case True
    with "2.prems" show ?thesis by (auto simp: code_at_def)
  next
    case False
    with "2.prems"(2) have "(b, s, sites, code) \<in> set rest" by auto
    with "2.prems"(1,3) "2.IH" [of "pre @ code'"] show ?thesis by simp
  qed
qed

subsection \<open>The routines\<close>

lemma spliced_numbers:
  "py_str_int 1984 = ''1984''" "py_str_int 1 = ''1''" "py_str_int 2 = ''2''" "py_str_int 3 = ''3''"
  by (simp_all add: py_str_int_def decimal.simps)

lemmas kernel_evals = routine_block_def parse_evals text_simps peel_labels.simps
  line_size_def PSEUDO_OP_SIZES_def emit_line_def emit_set_def emit_mov_def emit_opcode_def
  mnemonic_lookup resolve_register_ident resolve_reg_or_immediate_def resolve_offset_ident
  resolve_constant_def kernel_label_lookup kernel_register_lookup spliced_numbers literal_evals

lemma CORE_block: "routine_block 0 CORE_SOURCE
    [(''START'', 0), (''NEXT'', 3), (''ENTER'', 7)] CORE_code"
  by (simp add: kernel_evals CORE_SOURCE_def CORE_code_def)

lemma LIT_block: "routine_block 12 LIT_source
    [(''LIT'', 12)] LIT_code"
  by (simp add: kernel_evals LIT_source_def LIT_code_def)

lemma EXIT_block: "routine_block 16 EXIT_source
    [(''EXIT'', 16)] EXIT_code"
  by (simp add: kernel_evals EXIT_source_def EXIT_code_def)

lemma BYE_block: "routine_block 18 BYE_source
    [(''BYE'', 18)] BYE_code"
  by (simp add: kernel_evals BYE_source_def BYE_code_def)

lemma DUP_block: "routine_block 19 DUP_source
    [(''DUP'', 19)] DUP_code"
  by (simp add: kernel_evals DUP_source_def DUP_code_def)

lemma DROP_block: "routine_block 23 DROP_source
    [(''DROP'', 23)] DROP_code"
  by (simp add: kernel_evals DROP_source_def DROP_code_def)

lemma SWAP_block: "routine_block 25 SWAP_source
    [(''SWAP'', 25)] SWAP_code"
  by (simp add: kernel_evals SWAP_source_def SWAP_code_def)

lemma OVER_block: "routine_block 30 OVER_source
    [(''OVER'', 30)] OVER_code"
  by (simp add: kernel_evals OVER_source_def OVER_code_def)

lemma ROT_block: "routine_block 36 ROT_source
    [(''ROT'', 36)] ROT_code"
  by (simp add: kernel_evals ROT_source_def ROT_code_def)

lemma NROT_block: "routine_block 43 NROT_source
    [(''NROT'', 43)] NROT_code"
  by (simp add: kernel_evals NROT_source_def NROT_code_def)

lemma NIP_block: "routine_block 50 NIP_source
    [(''NIP'', 50)] NIP_code"
  by (simp add: kernel_evals NIP_source_def NIP_code_def)

lemma TUCK_block: "routine_block 54 TUCK_source
    [(''TUCK'', 54)] TUCK_code"
  by (simp add: kernel_evals TUCK_source_def TUCK_code_def)

lemma PLUS_block: "routine_block 60 PLUS_source
    [(''PLUS'', 60)] PLUS_code"
  by (simp add: kernel_evals PLUS_source_def PLUS_code_def)

lemma MINUS_block: "routine_block 65 MINUS_source
    [(''MINUS'', 65)] MINUS_code"
  by (simp add: kernel_evals MINUS_source_def MINUS_code_def)

lemma MUL_block: "routine_block 70 MUL_source
    [(''MUL'', 70), (''MUL_LOOP'', 73), (''MUL_DONE'', 79)] MUL_code"
  by (simp add: kernel_evals MUL_source_def MUL_code_def)

lemma NEGATE_block: "routine_block 81 NEGATE_source
    [(''NEGATE'', 81)] NEGATE_code"
  by (simp add: kernel_evals NEGATE_source_def NEGATE_code_def)

lemma ABS_block: "routine_block 86 ABS_source
    [(''ABS'', 86), (''ABS_NEG'', 90)] ABS_code"
  by (simp add: kernel_evals ABS_source_def ABS_code_def)

lemma ONEPLUS_block: "routine_block 94 ONEPLUS_source
    [(''ONEPLUS'', 94)] ONEPLUS_code"
  by (simp add: kernel_evals ONEPLUS_source_def ONEPLUS_code_def)

lemma ONEMINUS_block: "routine_block 98 ONEMINUS_source
    [(''ONEMINUS'', 98)] ONEMINUS_code"
  by (simp add: kernel_evals ONEMINUS_source_def ONEMINUS_code_def)

lemma FETCH_block: "routine_block 102 FETCH_source
    [(''FETCH'', 102)] FETCH_code"
  by (simp add: kernel_evals FETCH_source_def FETCH_code_def)

lemma STOREW_block: "routine_block 106 STOREW_source
    [(''STOREW'', 106)] STOREW_code"
  by (simp add: kernel_evals STOREW_source_def STOREW_code_def)

lemma CFETCH_block: "routine_block 110 CFETCH_source
    [(''CFETCH'', 110)] CFETCH_code"
  by (simp add: kernel_evals CFETCH_source_def CFETCH_code_def)

lemma CSTOREW_block: "routine_block 114 CSTOREW_source
    [(''CSTOREW'', 114)] CSTOREW_code"
  by (simp add: kernel_evals CSTOREW_source_def CSTOREW_code_def)

lemma TOR_block: "routine_block 118 TOR_source
    [(''TOR'', 118)] TOR_code"
  by (simp add: kernel_evals TOR_source_def TOR_code_def)

lemma FROMR_block: "routine_block 121 FROMR_source
    [(''FROMR'', 121)] FROMR_code"
  by (simp add: kernel_evals FROMR_source_def FROMR_code_def)

lemma RFETCH_block: "routine_block 124 RFETCH_source
    [(''RFETCH'', 124)] RFETCH_code"
  by (simp add: kernel_evals RFETCH_source_def RFETCH_code_def)

lemma EQUALS_block: "routine_block 128 EQUALS_source
    [(''EQUALS'', 128), (''EQ_TRUE'', 136)] EQUALS_code"
  by (simp add: kernel_evals EQUALS_source_def EQUALS_code_def)

lemma NOTEQUALS_block: "routine_block 140 NOTEQUALS_source
    [(''NOTEQUALS'', 140), (''NE_FALSE'', 148)] NOTEQUALS_code"
  by (simp add: kernel_evals NOTEQUALS_source_def NOTEQUALS_code_def)

lemma LESSTHAN_block: "routine_block 152 LESSTHAN_source
    [(''LESSTHAN'', 152), (''LT_TRUE'', 160)] LESSTHAN_code"
  by (simp add: kernel_evals LESSTHAN_source_def LESSTHAN_code_def)

lemma GREATERTHAN_block: "routine_block 164 GREATERTHAN_source
    [(''GREATERTHAN'', 164), (''GT_TRUE'', 172)] GREATERTHAN_code"
  by (simp add: kernel_evals GREATERTHAN_source_def GREATERTHAN_code_def)

lemma ZEROEQ_block: "routine_block 176 ZEROEQ_source
    [(''ZEROEQ'', 176), (''ZE_TRUE'', 182)] ZEROEQ_code"
  by (simp add: kernel_evals ZEROEQ_source_def ZEROEQ_code_def)

lemma ZEROLT_block: "routine_block 186 ZEROLT_source
    [(''ZEROLT'', 186), (''ZL_TRUE'', 192)] ZEROLT_code"
  by (simp add: kernel_evals ZEROLT_source_def ZEROLT_code_def)

lemma BITAND_block: "routine_block 196 BITAND_source
    [(''BITAND'', 196)] BITAND_code"
  by (simp add: kernel_evals BITAND_source_def BITAND_code_def)

lemma BITOR_block: "routine_block 201 BITOR_source
    [(''BITOR'', 201)] BITOR_code"
  by (simp add: kernel_evals BITOR_source_def BITOR_code_def)

lemma BITINVERT_block: "routine_block 206 BITINVERT_source
    [(''BITINVERT'', 206)] BITINVERT_code"
  by (simp add: kernel_evals BITINVERT_source_def BITINVERT_code_def)

lemma KEY_block: "routine_block 210 KEY_source
    [(''KEY'', 210)] KEY_code"
  by (simp add: kernel_evals KEY_source_def KEY_code_def)

lemma EMIT_block: "routine_block 213 EMIT_source
    [(''EMIT'', 213)] EMIT_code"
  by (simp add: kernel_evals EMIT_source_def EMIT_code_def)

lemma NUMBER_block: "routine_block 216 NUMBER_source
    [(''NUMBER'', 216), (''NUM_NEG'', 230), (''NUM_LOOP'', 235), (''NUM_DIGIT_OK'', 248), (''NUM_DONE'',
     264), (''NUM_PUSH'', 269), (''NUM_FAIL'', 274)] NUMBER_code"
  by (simp add: kernel_evals NUMBER_source_def NUMBER_code_def)

lemma WORD_block: "routine_block 278 WORD_source
    [(''WORD'', 278), (''WORD_SKIP'', 279), (''WORD_COLLECT'', 288), (''WORD_END'', 299)] WORD_code"
  by (simp add: kernel_evals WORD_source_def WORD_code_def)

lemma FIND_block: "routine_block 304 FIND_source
    [(''FIND'', 304), (''FIND_LOOP'', 309), (''FIND_VISIBLE'', 318), (''FIND_CMP'', 326),
     (''FIND_CHARS'', 334), (''FIND_CHAR_OK'', 344), (''FIND_MATCH'', 350), (''FIND_NORMAL'', 364),
     (''FIND_NEXT'', 368), (''FIND_NOTFOUND'', 375)] FIND_code"
  by (simp add: kernel_evals FIND_source_def FIND_code_def)

lemmas routine_blocks = CORE_block LIT_block EXIT_block BYE_block DUP_block DROP_block SWAP_block OVER_block
  ROT_block NROT_block NIP_block TUCK_block PLUS_block MINUS_block MUL_block NEGATE_block
  ABS_block ONEPLUS_block ONEMINUS_block FETCH_block STOREW_block CFETCH_block
  CSTOREW_block TOR_block FROMR_block RFETCH_block EQUALS_block NOTEQUALS_block
  LESSTHAN_block GREATERTHAN_block ZEROEQ_block ZEROLT_block BITAND_block BITOR_block
  BITINVERT_block KEY_block EMIT_block NUMBER_block WORD_block FIND_block

lemma code_lengths [simp]:
 "length CORE_code = 12"  "length LIT_code = 4"  "length EXIT_code = 2"  "length BYE_code = 1"
   "length DUP_code = 4"  "length DROP_code = 2"  "length SWAP_code = 5"  "length OVER_code = 6"
   "length ROT_code = 7"  "length NROT_code = 7"  "length NIP_code = 4"  "length TUCK_code = 6"
   "length PLUS_code = 5"  "length MINUS_code = 5"  "length MUL_code = 11"
   "length NEGATE_code = 5"  "length ABS_code = 8"  "length ONEPLUS_code = 4"
   "length ONEMINUS_code = 4"  "length FETCH_code = 4"  "length STOREW_code = 4"
   "length CFETCH_code = 4"  "length CSTOREW_code = 4"  "length TOR_code = 3"
   "length FROMR_code = 3"  "length RFETCH_code = 4"  "length EQUALS_code = 12"
   "length NOTEQUALS_code = 12"  "length LESSTHAN_code = 12"  "length GREATERTHAN_code = 12"
   "length ZEROEQ_code = 10"  "length ZEROLT_code = 10"  "length BITAND_code = 5"
   "length BITOR_code = 5"  "length BITINVERT_code = 4"  "length KEY_code = 3"
   "length EMIT_code = 3"  "length NUMBER_code = 62"  "length WORD_code = 26"
   "length FIND_code = 75"
  by (simp_all add: CORE_code_def LIT_code_def EXIT_code_def BYE_code_def DUP_code_def DROP_code_def
     SWAP_code_def OVER_code_def ROT_code_def NROT_code_def NIP_code_def TUCK_code_def
     PLUS_code_def MINUS_code_def MUL_code_def NEGATE_code_def ABS_code_def ONEPLUS_code_def
     ONEMINUS_code_def FETCH_code_def STOREW_code_def CFETCH_code_def CSTOREW_code_def TOR_code_def
     FROMR_code_def RFETCH_code_def EQUALS_code_def NOTEQUALS_code_def LESSTHAN_code_def
     GREATERTHAN_code_def ZEROEQ_code_def ZEROLT_code_def BITAND_code_def BITOR_code_def
     BITINVERT_code_def KEY_code_def EMIT_code_def NUMBER_code_def WORD_code_def FIND_code_def)

subsection \<open>The whole program\<close>

lemma kernel_table: "table_from 0 routine_table"
  by (simp add: routine_table_def routine_blocks)

lemma KERNEL_SOURCE_table: "KERNEL_SOURCE = concat (map (\<lambda>(a, s, sites, code). s) routine_table)"
  by (simp add: KERNEL_SOURCE_def PRIMITIVES_def routine_table_def primitive_def)

lemma kernel_sites_distinct: "distinct (map fst kernel_sites)"
  by code_simp

lemma assemble_kernel:
  "assemble KERNEL_SOURCE = Inr \<lparr>aprogram = kernel_program, alabels = kernel_labels\<rparr>"
proof -
  from table_from_block [OF kernel_table]
  have "routine_block 0 KERNEL_SOURCE kernel_sites kernel_program"
    by (simp add: KERNEL_SOURCE_table kernel_sites_def kernel_program_def)
  then obtain raws ls where "closed_lines KERNEL_SOURCE = Some raws" and ls: "parse_lines 1 raws = Inr ls"
      "label_sites 0 ls = kernel_sites" "emit_lines (placed_from 0 ls) kernel_labels = Inr kernel_program"
    unfolding routine_block_def by blast
  then have "parse KERNEL_SOURCE = Inr ls" by (simp add: parse_def closed_lines_split)
  moreover have "all_labels ls = map fst kernel_sites" using ls(2) by (metis map_fst_label_sites)
  ultimately show ?thesis
    using ls kernel_sites_distinct by (simp add: assemble_eq kernel_labels_def)
qed

text \<open>Where each routine's instructions stand in the program.\<close>

lemma kernel_code_at: "(a, s, sites, code) \<in> set routine_table \<Longrightarrow> code_at kernel_program a code"
  using table_from_code_at [OF kernel_table, of a s sites code "[]"] by (simp add: kernel_program_def)

text \<open>
  C29. The kernel's source assembles: \<^verbatim>\<open>START\<close> is index 0, \<^verbatim>\<open>NEXT\<close> is 3, \<^verbatim>\<open>ENTER\<close> is 7, the program has 379
  instructions, and every routine label of \<^verbatim>\<open>CODE_WORDS\<close> is in the table, pointing at the first
  instruction of that routine's block.
\<close>

theorem kernel_assembles:
  "\<exists>a. assemble KERNEL_SOURCE = Inr a \<and> length (aprogram a) = 379 \<and>
     alabels a ''START'' = Some 0 \<and> alabels a ''NEXT'' = Some 3 \<and> alabels a ENTER_LABEL = Some 7 \<and>
     map (\<lambda>w. (cw_name w, alabels a (cw_routine_label w))) CODE_WORDS =
       [(''LIT'', Some 12), (''EXIT'', Some 16), (''BYE'', Some 18), (''DUP'', Some 19), (''DROP'',
        Some 23), (''SWAP'', Some 25), (''OVER'', Some 30), (''ROT'', Some 36), (''-ROT'', Some 43),
        (''NIP'', Some 50), (''TUCK'', Some 54), (''+'', Some 60), (''-'', Some 65), (''*'', Some 70),
        (''NEGATE'', Some 81), (''ABS'', Some 86), (''1+'', Some 94), (''1-'', Some 98), (''@'',
        Some 102), (''!'', Some 106), (''C@'', Some 110), (''C!'', Some 114), (''>R'', Some 118),
        (''R>'', Some 121), (''R@'', Some 124), (''='', Some 128), (''<>'', Some 140), (''<'',
        Some 152), (''>'', Some 164), (''0='', Some 176), (''0<'', Some 186), (''AND'', Some 196),
        (''OR'', Some 201), (''INVERT'', Some 206), (''KEY'', Some 210), (''EMIT'', Some 213),
        (''NUMBER'', Some 216), (''WORD'', Some 278), (''FIND'', Some 304)]"
  by (simp add: assemble_kernel kernel_label_lookup ENTER_LABEL_def CODE_WORDS_def PRIMITIVES_def
      primitive_def kernel_program_def routine_table_def)

end
