(* ===== verification/Threaded.thy ===== *)
theory Threaded
  imports KernelImage
begin

section \<open>The threaded-code machine: what the kernel's routines promise\<close>

text \<open>
  The specification the kernel's native routines are proved against. A Forth machine state has the
  thread pointer, the two stacks, the cells and the devices, and nothing of the CPU: no registers
  and no program counter. Every code word is a function on such states: the usual stack-effect
  comment of the word, made precise, with its errors. \<open>Wild\<close> is claimed where a word reaches outside
  the cells or does not return.
\<close>

subsection \<open>States and stack effects\<close>

record vm =
  vip :: int
  vds :: "int list"
  vrs :: "int list"
  vcells :: "int list"
  vin :: "int list"
  vout :: "int list"
  vhalted :: bool

type_synonym word_semantics = "config \<Rightarrow> vm \<Rightarrow> vm outcome"

text \<open>
  \<open>effect n f\<close>: take \<open>n\<close> values off the data stack, top first, and put \<open>f\<close> of them in their place.
\<close>

definition effect :: "nat \<Rightarrow> (int list \<Rightarrow> int list) \<Rightarrow> word_semantics" where
  "effect n f c v =
     (if length (vds v) < n then Fail underflow
      else let d = f (take n (vds v)) @ drop n (vds v)
           in if length d \<le> dcap c then Next (v\<lparr>vds := d\<rparr>) else Fail overflow)"

definition flag :: "bool \<Rightarrow> int" where "flag b = (if b then -1 else 0)"

text \<open>The words that only rearrange or compute on the data stack, keyed by routine label.\<close>

definition stack_words :: "(string \<times> nat \<times> (int list \<Rightarrow> int list)) list" where
  "stack_words = [
     (''DUP'', 1, \<lambda>s. [s ! 0, s ! 0]),
     (''DROP'', 1, \<lambda>s. []),
     (''SWAP'', 2, \<lambda>s. [s ! 1, s ! 0]),
     (''OVER'', 2, \<lambda>s. [s ! 1, s ! 0, s ! 1]),
     (''ROT'', 3, \<lambda>s. [s ! 2, s ! 0, s ! 1]),
     (''NROT'', 3, \<lambda>s. [s ! 1, s ! 2, s ! 0]),
     (''NIP'', 2, \<lambda>s. [s ! 0]),
     (''TUCK'', 2, \<lambda>s. [s ! 0, s ! 1, s ! 0]),
     (''PLUS'', 2, \<lambda>s. [s ! 1 + s ! 0]),
     (''MINUS'', 2, \<lambda>s. [s ! 1 - s ! 0]),
     (''NEGATE'', 1, \<lambda>s. [- s ! 0]),
     (''ABS'', 1, \<lambda>s. [\<bar>s ! 0\<bar>]),
     (''ONEPLUS'', 1, \<lambda>s. [s ! 0 + 1]),
     (''ONEMINUS'', 1, \<lambda>s. [s ! 0 - 1]),
     (''EQUALS'', 2, \<lambda>s. [flag (s ! 1 = s ! 0)]),
     (''NOTEQUALS'', 2, \<lambda>s. [flag (s ! 1 \<noteq> s ! 0)]),
     (''LESSTHAN'', 2, \<lambda>s. [flag (s ! 1 < s ! 0)]),
     (''GREATERTHAN'', 2, \<lambda>s. [flag (s ! 1 > s ! 0)]),
     (''ZEROEQ'', 1, \<lambda>s. [flag (s ! 0 = 0)]),
     (''ZEROLT'', 1, \<lambda>s. [flag (s ! 0 < 0)]),
     (''BITAND'', 2, \<lambda>s. [s ! 1 AND s ! 0]),
     (''BITOR'', 2, \<lambda>s. [s ! 1 OR s ! 0]),
     (''BITINVERT'', 1, \<lambda>s. [NOT (s ! 0)])]"

text \<open>The words on memory, the return stack, the devices and the thread.\<close>

definition pushed :: "int \<Rightarrow> word_semantics" where
  "pushed x c v = (if length (vds v) < dcap c then Next (v\<lparr>vds := x # vds v\<rparr>) else Fail overflow)"

definition fetch_word :: word_semantics where
  "fetch_word c v = popped (vds v) underflow (\<lambda>a d.
     if in_store (vcells v) a then Next (v\<lparr>vds := vcells v ! nat a # d\<rparr>) else Wild)"

definition store_word :: word_semantics where
  "store_word c v = popped (vds v) underflow (\<lambda>a d. popped d underflow (\<lambda>x d'.
     if in_store (vcells v) a then Next (v\<lparr>vds := d', vcells := (vcells v)[nat a := x]\<rparr>) else Wild))"

definition to_r_word :: word_semantics where
  "to_r_word c v = popped (vds v) underflow (\<lambda>x d.
     if length (vrs v) < rcap c then Next (v\<lparr>vds := d, vrs := x # vrs v\<rparr>) else Fail overflow)"

definition from_r_word :: word_semantics where
  "from_r_word c v = popped (vrs v) underflow (\<lambda>x q. pushed x c (v\<lparr>vrs := q\<rparr>))"

definition r_fetch_word :: word_semantics where
  "r_fetch_word c v = popped (vrs v) underflow (\<lambda>x q. pushed x c v)"

definition key_word :: word_semantics where
  "key_word c v = popped (vin v) InputExhaustedError (\<lambda>x i. pushed x c (v\<lparr>vin := i\<rparr>))"

definition emit_word :: word_semantics where
  "emit_word c v = popped (vds v) underflow (\<lambda>x d. Next (v\<lparr>vds := d, vout := vout v @ [x]\<rparr>))"

definition lit_word :: word_semantics where
  "lit_word c v =
     (if in_store (vcells v) (vip v) then pushed (vcells v ! nat (vip v)) c (v\<lparr>vip := vip v + 1\<rparr>) else Wild)"

definition exit_word :: word_semantics where
  "exit_word c v = popped (vrs v) underflow (\<lambda>x q. Next (v\<lparr>vip := x, vrs := q\<rparr>))"

definition bye_word :: word_semantics where
  "bye_word c v = Next (v\<lparr>vhalted := True\<rparr>)"

text \<open>\<^verbatim>\<open>*\<close> adds the second value up, counting the top one down to zero: for a negative top it never stops.\<close>

definition times_word :: word_semantics where
  "times_word c v = popped (vds v) underflow (\<lambda>b d. popped d underflow (\<lambda>a d'.
     if 0 \<le> b then Next (v\<lparr>vds := a * b # d'\<rparr>) else Wild))"

fun digits_value :: "int \<Rightarrow> int list \<Rightarrow> int option" where
  "digits_value acc [] = Some acc"
| "digits_value acc (x # xs) = (if 48 \<le> x \<and> x \<le> 57 then digits_value (acc * 10 + (x - 48)) xs else None)"

text \<open>A signed decimal number: an optional minus, then one or more digits.\<close>

fun number_value :: "int list \<Rightarrow> int option" where
  "number_value [] = None"
| "number_value (x # xs) =
     (if x = 45 then (if xs = [] then None else map_option uminus (digits_value 0 xs))
      else digits_value 0 (x # xs))"

definition number_word :: word_semantics where
  "number_word c v = popped (vds v) underflow (\<lambda>p d.
     case counted (vcells v) p of
       None \<Rightarrow> Wild
     | Some cs \<Rightarrow>
         if length d + 2 \<le> dcap c
         then Next (v\<lparr>vds := (case number_value cs of Some n \<Rightarrow> [1, n] | None \<Rightarrow> [0, 0]) @ d\<rparr>)
         else Fail overflow)"

text \<open>
  \<^verbatim>\<open>WORD\<close> skips delimiters, then collects characters into the buffer until the next delimiter, which it
  consumes. Nothing checks the length of the token against the buffer: only the store bounds it.
\<close>

text \<open>The characters before the first delimiter, and what is left after it if there is one.\<close>

fun until_delim :: "int \<Rightarrow> int list \<Rightarrow> int list \<times> int list option" where
  "until_delim x [] = ([], None)"
| "until_delim x (y # i) =
     (if y = x then ([], Some i) else (y # fst (until_delim x i), snd (until_delim x i)))"

definition word_word :: word_semantics where
  "word_word c v = popped (vds v) underflow (\<lambda>x d.
     let scan = until_delim x (dropWhile (\<lambda>y. y = x) (vin v));
         base = nat WORD_BUFFER_BASE
     in if length (vcells v) < Suc base + length (fst scan) then Wild
        else (case snd scan of
                None \<Rightarrow> Fail InputExhaustedError
              | Some left \<Rightarrow> Next (v\<lparr>vds := WORD_BUFFER_BASE # d, vin := left,
                    vcells := put_cells (vcells v) base (int (length (fst scan)) # fst scan)\<rparr>)))"

text \<open>
  \<^verbatim>\<open>FIND\<close> walks the link chain from a name field, skipping smudged headers, and gives back the code
  field's address and the flag. \<open>None\<close>: the walk leaves the store, meets a name that does, or does
  not end.
\<close>

fun search :: "nat \<Rightarrow> int list \<Rightarrow> int list \<Rightarrow> int \<Rightarrow> (int \<times> int) option" where
  "search 0 m name cur = None"
| "search (Suc n) m name cur =
     (if cur = 0 then Some (0, 0)
      else case (read_store m (cur - SMUDGE_FROM_NAME_FIELD), read_store m (cur - IMMEDIATE_FROM_NAME_FIELD),
                 read_store m (cur - LINK_FROM_NAME_FIELD), counted m cur) of
             (Some smudge, Some imm, Some link, Some name') \<Rightarrow>
               if smudge = 0 \<and> name' = name
               then Some (if imm = 0 then -1 else 1, cur + 1 + int (length name'))
               else search n m name link
           | _ \<Rightarrow> None)"

text \<open>How many headers the walk looks at.\<close>

fun visited :: "nat \<Rightarrow> int list \<Rightarrow> int list \<Rightarrow> int \<Rightarrow> nat" where
  "visited 0 m name cur = 0"
| "visited (Suc n) m name cur =
     (if cur = 0 then 0
      else case (read_store m (cur - SMUDGE_FROM_NAME_FIELD), read_store m (cur - LINK_FROM_NAME_FIELD), counted m cur) of
             (Some smudge, Some link, Some name') \<Rightarrow>
               if smudge = 0 \<and> name' = name then 1 else Suc (visited n m name link)
           | _ \<Rightarrow> 0)"

definition find_word :: word_semantics where
  "find_word c v = popped (vds v) underflow (\<lambda>p d.
     case (counted (vcells v) p, read_store (vcells v) LATEST_ADDR) of
       (Some name, Some latest) \<Rightarrow>
         (case search (length (vcells v)) (vcells v) name latest of
            Some (fl, xt) \<Rightarrow>
              if length d + 2 \<le> dcap c then Next (v\<lparr>vds := fl # xt # d\<rparr>) else Fail overflow
          | None \<Rightarrow> Wild)
     | _ \<Rightarrow> Wild)"

subsection \<open>How a CPU state stands for a Forth state\<close>

definition view :: "amachine \<Rightarrow> vm" where
  "view a = \<lparr>vip = aread a ''IP'', vds = ads a, vrs = ars a, vcells = acells a, vin = ainq a, vout = aoutb a,
     vhalted = ahalted a\<rparr>"

text \<open>About to execute the routine at index \<open>k\<close>.\<close>

definition poised :: "config \<Rightarrow> int \<Rightarrow> amachine \<Rightarrow> bool" where
  "poised c k a \<longleftrightarrow> ccode c = kernel_program \<and> apc a = k \<and> aread a ''NEXTREG'' = 3 \<and> \<not> ahalted a \<and>
     length (ads a) \<le> dcap c \<and> length (ars a) \<le> rcap c"

text \<open>At \<^verbatim>\<open>NEXT\<close>, or halted.\<close>

definition settled :: "config \<Rightarrow> vm \<Rightarrow> amachine \<Rightarrow> bool" where
  "settled c v a \<longleftrightarrow> view a = v \<and> length (ads a) \<le> dcap c \<and> length (ars a) \<le> rcap c \<and>
     (ahalted a \<or> apc a = 3 \<and> aread a ''NEXTREG'' = 3)"

text \<open>The code from \<open>a\<close> on does what the outcome says, in at most \<open>n\<close> steps.\<close>

definition delivers :: "config \<Rightarrow> nat \<Rightarrow> amachine \<Rightarrow> vm outcome \<Rightarrow> bool" where
  "delivers c n a res \<longleftrightarrow>
     (case res of
        Next v \<Rightarrow> within c n a (settled c v)
      | Fail e \<Rightarrow> within c n a (\<lambda>b. \<not> ahalted b \<and> astep c b = Fail e)
      | Wild \<Rightarrow> True)"

definition implements :: "config \<Rightarrow> int \<Rightarrow> (vm \<Rightarrow> nat) \<Rightarrow> word_semantics \<Rightarrow> bool" where
  "implements c k n f \<longleftrightarrow> (\<forall>a. poised c k a \<longrightarrow> delivers c (n (view a)) a (f c (view a)))"

subsection \<open>Running a routine symbolically\<close>

text \<open>
  \<open>drive\<close> steps the machine until it halts, reaches \<^verbatim>\<open>NEXT\<close> or fails, and compares with the promised
  outcome; on a state given as a record the simplifier computes it.
\<close>

definition rests :: "config \<Rightarrow> amachine \<Rightarrow> vm outcome \<Rightarrow> bool" where
  "rests c a res = (case res of Next v \<Rightarrow> settled c v a | Fail e \<Rightarrow> False | Wild \<Rightarrow> True)"

fun drive :: "config \<Rightarrow> nat \<Rightarrow> amachine \<Rightarrow> vm outcome \<Rightarrow> bool" where
  "drive c 0 a res = rests c a res"
| "drive c (Suc n) a res =
     (if ahalted a \<or> apc a = 3 then rests c a res
      else (case astep c a of Next b \<Rightarrow> drive c n b res | Fail e \<Rightarrow> res = Fail e | Wild \<Rightarrow> res = Wild))"

lemma rests_delivers: "rests c a res \<Longrightarrow> delivers c n a res"
  by (auto simp: rests_def delivers_def within_now split: outcome.splits)

lemma within_step:
  assumes "\<not> ahalted a" and "astep c a = Next b" and "within c n b Q"
  shows "within c (Suc n) a Q"
proof -
  from assms(3) obtain k where "k \<le> n" "after c k b Q" by (auto simp: within_def)
  with assms(1,2) have "Suc k \<le> Suc n" "after c (Suc k) a Q" by simp_all
  then show ?thesis unfolding within_def by blast
qed

lemma delivers_step:
  assumes "\<not> ahalted a" and "astep c a = Next b" and "delivers c n b res"
  shows "delivers c (Suc n) a res"
  using assms by (auto simp: delivers_def intro: within_step split: outcome.splits)

lemma drive_delivers: "drive c n a res \<Longrightarrow> delivers c n a res"
proof (induction n arbitrary: a)
  case 0
  then show ?case by (simp add: rests_delivers)
next
  case (Suc n)
  show ?case
  proof (cases "ahalted a \<or> apc a = 3")
    case True
    with Suc.prems show ?thesis by (simp add: rests_delivers)
  next
    case False
    show ?thesis
    proof (cases "astep c a")
      case (Next b)
      with False Suc show ?thesis by (auto intro: delivers_step)
    next
      case (Fail e)
      with False Suc.prems show ?thesis by (auto simp: delivers_def within_now)
    next
      case Wild
      with False Suc.prems show ?thesis by (auto simp: delivers_def)
    qed
  qed
qed

lemma delivers_wild [simp]: "delivers c n a Wild"
  by (simp add: delivers_def)

lemma delivers_within: "within c m a P \<Longrightarrow> (\<And>b. P b \<Longrightarrow> delivers c n b res) \<Longrightarrow> delivers c (m + n) a res"
  by (auto simp: delivers_def intro: within_chain split: outcome.splits)

lemma delivers_after:
  "after c m a (\<lambda>b. delivers c n b res) \<Longrightarrow> m + n \<le> k \<Longrightarrow> delivers c k a res"
proof (induction m arbitrary: a k)
  case 0
  then show ?case by (auto simp: delivers_def intro: within_mono split: outcome.splits)
next
  case (Suc m)
  then obtain b where b: "\<not> ahalted a" "astep c a = Next b" "after c m b (\<lambda>b. delivers c n b res)"
    by (auto split: outcome.splits)
  obtain j where "k = Suc j" "m + n \<le> j" using Suc.prems(2) by (cases k) auto
  with Suc.IH [OF b(3)] delivers_step [OF b(1,2)] show ?case by simp
qed

lemma delivers_mono: "delivers c m a res \<Longrightarrow> m \<le> n \<Longrightarrow> delivers c n a res"
  by (auto simp: delivers_def intro: within_mono split: outcome.splits)

lemma delivers_drive: "drive c m a res \<Longrightarrow> m \<le> n \<Longrightarrow> delivers c n a res"
  by (blast intro: drive_delivers delivers_mono)

lemma drive_numeral:
  "drive c (numeral k) a res =
     (if ahalted a \<or> apc a = 3 then rests c a res
      else (case astep c a of Next b \<Rightarrow> drive c (pred_numeral k) b res | Fail e \<Rightarrow> res = Fail e | Wild \<Rightarrow> res = Wild))"
  by (simp only: numeral_eq_Suc drive.simps)

lemma implements_drive:
  assumes "\<And>r d q m i ou. ccode c = kernel_program \<Longrightarrow> register_read r ''NEXTREG'' = 3 \<Longrightarrow>
      length d \<le> dcap c \<Longrightarrow> length q \<le> rcap c \<Longrightarrow>
      drive c n \<lparr>aregs = r, ads = d, ars = q, acells = m, ainq = i, aoutb = ou, apc = k, ahalted = False\<rparr>
        (f c \<lparr>vip = register_read r ''IP'', vds = d, vrs = q, vcells = m, vin = i, vout = ou, vhalted = False\<rparr>)"
  shows "implements c k (\<lambda>_. n) f"
  unfolding implements_def
proof (intro allI impI)
  fix a assume p: "poised c k a"
  obtain r d q m i ou k' h where
    a: "a = \<lparr>aregs = r, ads = d, ars = q, acells = m, ainq = i, aoutb = ou, apc = k', ahalted = h\<rparr>"
    by (rule amachine.cases_scheme [of a]) auto
  have "drive c n a (f c (view a))"
    using p assms [of r d q m i ou] by (simp add: a view_def poised_def aread_def)
  then show "delivers c n a (f c (view a))" by (rule drive_delivers)
qed

lemma stack_cases:
  assumes "P []" and "\<And>x. P [x]" and "\<And>x y. P [x, y]" and "\<And>x y z d. P (x # y # z # d)"
  shows "P (d :: int list)"
  using assms by (cases d; cases "tl d"; cases "tl (tl d)") auto

lemmas drive_simps = astep_def aarith_def abranch_def avalue_def aread_def awrite_def need.simps
  rests_def settled_def view_def drive_numeral after_numeral effect_def flag_def overflow_def underflow_def

end
