(* ===== verification/Primitives.thy ===== *)
theory Primitives
  imports Threaded
begin

section \<open>The straight-line code words\<close>

text \<open>
  Every routine without a loop, run symbolically on every shape of the stacks: it delivers its stack
  effect, or the stack or input error, in at most twelve steps.
\<close>

subsection \<open>The code of each routine\<close>

lemma CORE_fetch: "0 \<le> n \<Longrightarrow> n < 12 \<Longrightarrow> fetch_at kernel_program n = Some (CORE_code ! nat (n - 0))"
  by (rule code_at_fetch [OF kernel_code_at]) (auto simp: routine_table_def)

lemma LIT_fetch: "12 \<le> n \<Longrightarrow> n < 16 \<Longrightarrow> fetch_at kernel_program n = Some (LIT_code ! nat (n - 12))"
  by (rule code_at_fetch [OF kernel_code_at]) (auto simp: routine_table_def)

lemma EXIT_fetch: "16 \<le> n \<Longrightarrow> n < 18 \<Longrightarrow> fetch_at kernel_program n = Some (EXIT_code ! nat (n - 16))"
  by (rule code_at_fetch [OF kernel_code_at]) (auto simp: routine_table_def)

lemma BYE_fetch: "18 \<le> n \<Longrightarrow> n < 19 \<Longrightarrow> fetch_at kernel_program n = Some (BYE_code ! nat (n - 18))"
  by (rule code_at_fetch [OF kernel_code_at]) (auto simp: routine_table_def)

lemma DUP_fetch: "19 \<le> n \<Longrightarrow> n < 23 \<Longrightarrow> fetch_at kernel_program n = Some (DUP_code ! nat (n - 19))"
  by (rule code_at_fetch [OF kernel_code_at]) (auto simp: routine_table_def)

lemma DROP_fetch: "23 \<le> n \<Longrightarrow> n < 25 \<Longrightarrow> fetch_at kernel_program n = Some (DROP_code ! nat (n - 23))"
  by (rule code_at_fetch [OF kernel_code_at]) (auto simp: routine_table_def)

lemma SWAP_fetch: "25 \<le> n \<Longrightarrow> n < 30 \<Longrightarrow> fetch_at kernel_program n = Some (SWAP_code ! nat (n - 25))"
  by (rule code_at_fetch [OF kernel_code_at]) (auto simp: routine_table_def)

lemma OVER_fetch: "30 \<le> n \<Longrightarrow> n < 36 \<Longrightarrow> fetch_at kernel_program n = Some (OVER_code ! nat (n - 30))"
  by (rule code_at_fetch [OF kernel_code_at]) (auto simp: routine_table_def)

lemma ROT_fetch: "36 \<le> n \<Longrightarrow> n < 43 \<Longrightarrow> fetch_at kernel_program n = Some (ROT_code ! nat (n - 36))"
  by (rule code_at_fetch [OF kernel_code_at]) (auto simp: routine_table_def)

lemma NROT_fetch: "43 \<le> n \<Longrightarrow> n < 50 \<Longrightarrow> fetch_at kernel_program n = Some (NROT_code ! nat (n - 43))"
  by (rule code_at_fetch [OF kernel_code_at]) (auto simp: routine_table_def)

lemma NIP_fetch: "50 \<le> n \<Longrightarrow> n < 54 \<Longrightarrow> fetch_at kernel_program n = Some (NIP_code ! nat (n - 50))"
  by (rule code_at_fetch [OF kernel_code_at]) (auto simp: routine_table_def)

lemma TUCK_fetch: "54 \<le> n \<Longrightarrow> n < 60 \<Longrightarrow> fetch_at kernel_program n = Some (TUCK_code ! nat (n - 54))"
  by (rule code_at_fetch [OF kernel_code_at]) (auto simp: routine_table_def)

lemma PLUS_fetch: "60 \<le> n \<Longrightarrow> n < 65 \<Longrightarrow> fetch_at kernel_program n = Some (PLUS_code ! nat (n - 60))"
  by (rule code_at_fetch [OF kernel_code_at]) (auto simp: routine_table_def)

lemma MINUS_fetch: "65 \<le> n \<Longrightarrow> n < 70 \<Longrightarrow> fetch_at kernel_program n = Some (MINUS_code ! nat (n - 65))"
  by (rule code_at_fetch [OF kernel_code_at]) (auto simp: routine_table_def)

lemma MUL_fetch: "70 \<le> n \<Longrightarrow> n < 81 \<Longrightarrow> fetch_at kernel_program n = Some (MUL_code ! nat (n - 70))"
  by (rule code_at_fetch [OF kernel_code_at]) (auto simp: routine_table_def)

lemma NEGATE_fetch: "81 \<le> n \<Longrightarrow> n < 86 \<Longrightarrow> fetch_at kernel_program n = Some (NEGATE_code ! nat (n - 81))"
  by (rule code_at_fetch [OF kernel_code_at]) (auto simp: routine_table_def)

lemma ABS_fetch: "86 \<le> n \<Longrightarrow> n < 94 \<Longrightarrow> fetch_at kernel_program n = Some (ABS_code ! nat (n - 86))"
  by (rule code_at_fetch [OF kernel_code_at]) (auto simp: routine_table_def)

lemma ONEPLUS_fetch: "94 \<le> n \<Longrightarrow> n < 98 \<Longrightarrow> fetch_at kernel_program n = Some (ONEPLUS_code ! nat (n - 94))"
  by (rule code_at_fetch [OF kernel_code_at]) (auto simp: routine_table_def)

lemma ONEMINUS_fetch: "98 \<le> n \<Longrightarrow> n < 102 \<Longrightarrow> fetch_at kernel_program n = Some (ONEMINUS_code ! nat (n - 98))"
  by (rule code_at_fetch [OF kernel_code_at]) (auto simp: routine_table_def)

lemma FETCH_fetch: "102 \<le> n \<Longrightarrow> n < 106 \<Longrightarrow> fetch_at kernel_program n = Some (FETCH_code ! nat (n - 102))"
  by (rule code_at_fetch [OF kernel_code_at]) (auto simp: routine_table_def)

lemma STOREW_fetch: "106 \<le> n \<Longrightarrow> n < 110 \<Longrightarrow> fetch_at kernel_program n = Some (STOREW_code ! nat (n - 106))"
  by (rule code_at_fetch [OF kernel_code_at]) (auto simp: routine_table_def)

lemma CFETCH_fetch: "110 \<le> n \<Longrightarrow> n < 114 \<Longrightarrow> fetch_at kernel_program n = Some (CFETCH_code ! nat (n - 110))"
  by (rule code_at_fetch [OF kernel_code_at]) (auto simp: routine_table_def)

lemma CSTOREW_fetch: "114 \<le> n \<Longrightarrow> n < 118 \<Longrightarrow> fetch_at kernel_program n = Some (CSTOREW_code ! nat (n - 114))"
  by (rule code_at_fetch [OF kernel_code_at]) (auto simp: routine_table_def)

lemma TOR_fetch: "118 \<le> n \<Longrightarrow> n < 121 \<Longrightarrow> fetch_at kernel_program n = Some (TOR_code ! nat (n - 118))"
  by (rule code_at_fetch [OF kernel_code_at]) (auto simp: routine_table_def)

lemma FROMR_fetch: "121 \<le> n \<Longrightarrow> n < 124 \<Longrightarrow> fetch_at kernel_program n = Some (FROMR_code ! nat (n - 121))"
  by (rule code_at_fetch [OF kernel_code_at]) (auto simp: routine_table_def)

lemma RFETCH_fetch: "124 \<le> n \<Longrightarrow> n < 128 \<Longrightarrow> fetch_at kernel_program n = Some (RFETCH_code ! nat (n - 124))"
  by (rule code_at_fetch [OF kernel_code_at]) (auto simp: routine_table_def)

lemma EQUALS_fetch: "128 \<le> n \<Longrightarrow> n < 140 \<Longrightarrow> fetch_at kernel_program n = Some (EQUALS_code ! nat (n - 128))"
  by (rule code_at_fetch [OF kernel_code_at]) (auto simp: routine_table_def)

lemma NOTEQUALS_fetch: "140 \<le> n \<Longrightarrow> n < 152 \<Longrightarrow> fetch_at kernel_program n = Some (NOTEQUALS_code ! nat (n - 140))"
  by (rule code_at_fetch [OF kernel_code_at]) (auto simp: routine_table_def)

lemma LESSTHAN_fetch: "152 \<le> n \<Longrightarrow> n < 164 \<Longrightarrow> fetch_at kernel_program n = Some (LESSTHAN_code ! nat (n - 152))"
  by (rule code_at_fetch [OF kernel_code_at]) (auto simp: routine_table_def)

lemma GREATERTHAN_fetch: "164 \<le> n \<Longrightarrow> n < 176 \<Longrightarrow> fetch_at kernel_program n = Some (GREATERTHAN_code ! nat (n - 164))"
  by (rule code_at_fetch [OF kernel_code_at]) (auto simp: routine_table_def)

lemma ZEROEQ_fetch: "176 \<le> n \<Longrightarrow> n < 186 \<Longrightarrow> fetch_at kernel_program n = Some (ZEROEQ_code ! nat (n - 176))"
  by (rule code_at_fetch [OF kernel_code_at]) (auto simp: routine_table_def)

lemma ZEROLT_fetch: "186 \<le> n \<Longrightarrow> n < 196 \<Longrightarrow> fetch_at kernel_program n = Some (ZEROLT_code ! nat (n - 186))"
  by (rule code_at_fetch [OF kernel_code_at]) (auto simp: routine_table_def)

lemma BITAND_fetch: "196 \<le> n \<Longrightarrow> n < 201 \<Longrightarrow> fetch_at kernel_program n = Some (BITAND_code ! nat (n - 196))"
  by (rule code_at_fetch [OF kernel_code_at]) (auto simp: routine_table_def)

lemma BITOR_fetch: "201 \<le> n \<Longrightarrow> n < 206 \<Longrightarrow> fetch_at kernel_program n = Some (BITOR_code ! nat (n - 201))"
  by (rule code_at_fetch [OF kernel_code_at]) (auto simp: routine_table_def)

lemma BITINVERT_fetch: "206 \<le> n \<Longrightarrow> n < 210 \<Longrightarrow> fetch_at kernel_program n = Some (BITINVERT_code ! nat (n - 206))"
  by (rule code_at_fetch [OF kernel_code_at]) (auto simp: routine_table_def)

lemma KEY_fetch: "210 \<le> n \<Longrightarrow> n < 213 \<Longrightarrow> fetch_at kernel_program n = Some (KEY_code ! nat (n - 210))"
  by (rule code_at_fetch [OF kernel_code_at]) (auto simp: routine_table_def)

lemma EMIT_fetch: "213 \<le> n \<Longrightarrow> n < 216 \<Longrightarrow> fetch_at kernel_program n = Some (EMIT_code ! nat (n - 213))"
  by (rule code_at_fetch [OF kernel_code_at]) (auto simp: routine_table_def)

lemma NUMBER_fetch: "216 \<le> n \<Longrightarrow> n < 278 \<Longrightarrow> fetch_at kernel_program n = Some (NUMBER_code ! nat (n - 216))"
  by (rule code_at_fetch [OF kernel_code_at]) (auto simp: routine_table_def)

lemma WORD_fetch: "278 \<le> n \<Longrightarrow> n < 304 \<Longrightarrow> fetch_at kernel_program n = Some (WORD_code ! nat (n - 278))"
  by (rule code_at_fetch [OF kernel_code_at]) (auto simp: routine_table_def)

lemma FIND_fetch: "304 \<le> n \<Longrightarrow> n < 379 \<Longrightarrow> fetch_at kernel_program n = Some (FIND_code ! nat (n - 304))"
  by (rule code_at_fetch [OF kernel_code_at]) (auto simp: routine_table_def)

subsection \<open>Words on the data stack\<close>

lemma DUP_word: "implements c 19 (\<lambda>_. 12) (effect 1 (\<lambda>s. [s ! 0, s ! 0]))"
  apply (rule implements_drive)
  subgoal for r d
    by (induct d rule: stack_cases) (simp_all add: drive_simps DUP_fetch DUP_code_def)
  done

lemma DROP_word: "implements c 23 (\<lambda>_. 12) (effect 1 (\<lambda>s. []))"
  apply (rule implements_drive)
  subgoal for r d
    by (induct d rule: stack_cases) (simp_all add: drive_simps DROP_fetch DROP_code_def)
  done

lemma SWAP_word: "implements c 25 (\<lambda>_. 12) (effect 2 (\<lambda>s. [s ! 1, s ! 0]))"
  apply (rule implements_drive)
  subgoal for r d
    by (induct d rule: stack_cases) (simp_all add: drive_simps SWAP_fetch SWAP_code_def)
  done

lemma OVER_word: "implements c 30 (\<lambda>_. 12) (effect 2 (\<lambda>s. [s ! 1, s ! 0, s ! 1]))"
  apply (rule implements_drive)
  subgoal for r d
    by (induct d rule: stack_cases) (simp_all add: drive_simps OVER_fetch OVER_code_def)
  done

lemma ROT_word: "implements c 36 (\<lambda>_. 12) (effect 3 (\<lambda>s. [s ! 2, s ! 0, s ! 1]))"
  apply (rule implements_drive)
  subgoal for r d
    by (induct d rule: stack_cases) (simp_all add: drive_simps ROT_fetch ROT_code_def)
  done

lemma NROT_word: "implements c 43 (\<lambda>_. 12) (effect 3 (\<lambda>s. [s ! 1, s ! 2, s ! 0]))"
  apply (rule implements_drive)
  subgoal for r d
    by (induct d rule: stack_cases) (simp_all add: drive_simps NROT_fetch NROT_code_def)
  done

lemma NIP_word: "implements c 50 (\<lambda>_. 12) (effect 2 (\<lambda>s. [s ! 0]))"
  apply (rule implements_drive)
  subgoal for r d
    by (induct d rule: stack_cases) (simp_all add: drive_simps NIP_fetch NIP_code_def)
  done

lemma TUCK_word: "implements c 54 (\<lambda>_. 12) (effect 2 (\<lambda>s. [s ! 0, s ! 1, s ! 0]))"
  apply (rule implements_drive)
  subgoal for r d
    by (induct d rule: stack_cases) (simp_all add: drive_simps TUCK_fetch TUCK_code_def)
  done

lemma PLUS_word: "implements c 60 (\<lambda>_. 12) (effect 2 (\<lambda>s. [s ! 1 + s ! 0]))"
  apply (rule implements_drive)
  subgoal for r d
    by (induct d rule: stack_cases) (simp_all add: drive_simps PLUS_fetch PLUS_code_def)
  done

lemma MINUS_word: "implements c 65 (\<lambda>_. 12) (effect 2 (\<lambda>s. [s ! 1 - s ! 0]))"
  apply (rule implements_drive)
  subgoal for r d
    by (induct d rule: stack_cases) (simp_all add: drive_simps MINUS_fetch MINUS_code_def)
  done

lemma NEGATE_word: "implements c 81 (\<lambda>_. 12) (effect 1 (\<lambda>s. [- s ! 0]))"
  apply (rule implements_drive)
  subgoal for r d
    by (induct d rule: stack_cases) (simp_all add: drive_simps NEGATE_fetch NEGATE_code_def)
  done

lemma ABS_word: "implements c 86 (\<lambda>_. 12) (effect 1 (\<lambda>s. [\<bar>s ! 0\<bar>]))"
  apply (rule implements_drive)
  subgoal for r d
    by (induct d rule: stack_cases) (simp_all add: drive_simps ABS_fetch ABS_code_def)
  done

lemma ONEPLUS_word: "implements c 94 (\<lambda>_. 12) (effect 1 (\<lambda>s. [s ! 0 + 1]))"
  apply (rule implements_drive)
  subgoal for r d
    by (induct d rule: stack_cases) (simp_all add: drive_simps ONEPLUS_fetch ONEPLUS_code_def)
  done

lemma ONEMINUS_word: "implements c 98 (\<lambda>_. 12) (effect 1 (\<lambda>s. [s ! 0 - 1]))"
  apply (rule implements_drive)
  subgoal for r d
    by (induct d rule: stack_cases) (simp_all add: drive_simps ONEMINUS_fetch ONEMINUS_code_def)
  done

lemma EQUALS_word: "implements c 128 (\<lambda>_. 12) (effect 2 (\<lambda>s. [flag (s ! 1 = s ! 0)]))"
  apply (rule implements_drive)
  subgoal for r d
    by (induct d rule: stack_cases) (simp_all add: drive_simps EQUALS_fetch EQUALS_code_def)
  done

lemma NOTEQUALS_word: "implements c 140 (\<lambda>_. 12) (effect 2 (\<lambda>s. [flag (s ! 1 \<noteq> s ! 0)]))"
  apply (rule implements_drive)
  subgoal for r d
    by (induct d rule: stack_cases) (simp_all add: drive_simps NOTEQUALS_fetch NOTEQUALS_code_def)
  done

lemma LESSTHAN_word: "implements c 152 (\<lambda>_. 12) (effect 2 (\<lambda>s. [flag (s ! 1 < s ! 0)]))"
  apply (rule implements_drive)
  subgoal for r d
    by (induct d rule: stack_cases) (simp_all add: drive_simps LESSTHAN_fetch LESSTHAN_code_def)
  done

lemma GREATERTHAN_word: "implements c 164 (\<lambda>_. 12) (effect 2 (\<lambda>s. [flag (s ! 1 > s ! 0)]))"
  apply (rule implements_drive)
  subgoal for r d
    by (induct d rule: stack_cases) (simp_all add: drive_simps GREATERTHAN_fetch GREATERTHAN_code_def)
  done

lemma ZEROEQ_word: "implements c 176 (\<lambda>_. 12) (effect 1 (\<lambda>s. [flag (s ! 0 = 0)]))"
  apply (rule implements_drive)
  subgoal for r d
    by (induct d rule: stack_cases) (simp_all add: drive_simps ZEROEQ_fetch ZEROEQ_code_def)
  done

lemma ZEROLT_word: "implements c 186 (\<lambda>_. 12) (effect 1 (\<lambda>s. [flag (s ! 0 < 0)]))"
  apply (rule implements_drive)
  subgoal for r d
    by (induct d rule: stack_cases) (simp_all add: drive_simps ZEROLT_fetch ZEROLT_code_def)
  done

lemma BITAND_word: "implements c 196 (\<lambda>_. 12) (effect 2 (\<lambda>s. [s ! 1 AND s ! 0]))"
  apply (rule implements_drive)
  subgoal for r d
    by (induct d rule: stack_cases) (simp_all add: drive_simps BITAND_fetch BITAND_code_def)
  done

lemma BITOR_word: "implements c 201 (\<lambda>_. 12) (effect 2 (\<lambda>s. [s ! 1 OR s ! 0]))"
  apply (rule implements_drive)
  subgoal for r d
    by (induct d rule: stack_cases) (simp_all add: drive_simps BITOR_fetch BITOR_code_def)
  done

lemma BITINVERT_word: "implements c 206 (\<lambda>_. 12) (effect 1 (\<lambda>s. [NOT (s ! 0)]))"
  apply (rule implements_drive)
  subgoal for r d
    by (induct d rule: stack_cases) (simp_all add: drive_simps BITINVERT_fetch BITINVERT_code_def)
  done

subsection \<open>Words on memory, the return stack, devices and the thread\<close>

lemma FETCH_word: "implements c 102 (\<lambda>_. 12) fetch_word"
  apply (rule implements_drive)
  subgoal for r d
    by (induct d rule: stack_cases) (simp_all add: drive_simps fetch_word_def pushed_def in_store_def in_cells_def FETCH_fetch FETCH_code_def)
  done

lemma CFETCH_word: "implements c 110 (\<lambda>_. 12) fetch_word"
  apply (rule implements_drive)
  subgoal for r d
    by (induct d rule: stack_cases) (simp_all add: drive_simps fetch_word_def pushed_def in_store_def in_cells_def CFETCH_fetch CFETCH_code_def)
  done

lemma STOREW_word: "implements c 106 (\<lambda>_. 12) store_word"
  apply (rule implements_drive)
  subgoal for r d
    by (induct d rule: stack_cases) (simp_all add: drive_simps store_word_def pushed_def in_store_def in_cells_def STOREW_fetch STOREW_code_def)
  done

lemma CSTOREW_word: "implements c 114 (\<lambda>_. 12) store_word"
  apply (rule implements_drive)
  subgoal for r d
    by (induct d rule: stack_cases) (simp_all add: drive_simps store_word_def pushed_def in_store_def in_cells_def CSTOREW_fetch CSTOREW_code_def)
  done

lemma TOR_word: "implements c 118 (\<lambda>_. 12) to_r_word"
  apply (rule implements_drive)
  subgoal for r d
    by (induct d rule: stack_cases) (simp_all add: drive_simps to_r_word_def pushed_def in_store_def in_cells_def TOR_fetch TOR_code_def)
  done

lemma FROMR_word: "implements c 121 (\<lambda>_. 12) from_r_word"
  apply (rule implements_drive)
  subgoal for r d q
    by (induct q rule: stack_cases) (simp_all add: drive_simps from_r_word_def pushed_def in_store_def in_cells_def FROMR_fetch FROMR_code_def)
  done

lemma RFETCH_word: "implements c 124 (\<lambda>_. 12) r_fetch_word"
  apply (rule implements_drive)
  subgoal for r d q
    by (induct q rule: stack_cases) (simp_all add: drive_simps r_fetch_word_def pushed_def in_store_def in_cells_def RFETCH_fetch RFETCH_code_def)
  done

lemma KEY_word: "implements c 210 (\<lambda>_. 12) key_word"
  apply (rule implements_drive)
  subgoal for r d q m i
    by (induct i rule: stack_cases) (simp_all add: drive_simps key_word_def pushed_def in_store_def in_cells_def KEY_fetch KEY_code_def)
  done

lemma EMIT_word: "implements c 213 (\<lambda>_. 12) emit_word"
  apply (rule implements_drive)
  subgoal for r d
    by (induct d rule: stack_cases) (simp_all add: drive_simps emit_word_def pushed_def in_store_def in_cells_def EMIT_fetch EMIT_code_def)
  done

lemma LIT_word: "implements c 12 (\<lambda>_. 12) lit_word"
  apply (rule implements_drive)
  subgoal for r
    by (simp add: drive_simps lit_word_def pushed_def in_store_def in_cells_def LIT_fetch LIT_code_def)
  done

lemma EXIT_word: "implements c 16 (\<lambda>_. 12) exit_word"
  apply (rule implements_drive)
  subgoal for r d q
    by (induct q rule: stack_cases) (simp_all add: drive_simps exit_word_def pushed_def in_store_def in_cells_def EXIT_fetch EXIT_code_def)
  done

lemma BYE_word: "implements c 18 (\<lambda>_. 12) bye_word"
  apply (rule implements_drive)
  subgoal for r
    by (simp add: drive_simps bye_word_def pushed_def in_store_def in_cells_def BYE_fetch BYE_code_def)
  done

end
