(* ===== verification/Loops.thy ===== *)
theory Loops
  imports Primitives
begin

section \<open>The code words with loops\<close>

text \<open>
  \<^verbatim>\<open>*\<close>, \<^verbatim>\<open>NUMBER\<close>, \<^verbatim>\<open>WORD\<close> and \<^verbatim>\<open>FIND\<close>: each loop has a lemma, by induction on what it counts, that the
  machine at the loop's head delivers the loop's result, with the number of steps it takes.
\<close>

text \<open>A machine with these registers and this data state, at index \<open>k\<close>.\<close>

abbreviation at_index :: "int \<Rightarrow> registers \<Rightarrow> int list \<Rightarrow> int list \<Rightarrow> int list \<Rightarrow> int list \<Rightarrow> int list \<Rightarrow> amachine" where
  "at_index k r d q m i ou \<equiv>
     \<lparr>aregs = r, ads = d, ars = q, acells = m, ainq = i, aoutb = ou, apc = k, ahalted = False\<rparr>"

definition kernel_ready :: "config \<Rightarrow> registers \<Rightarrow> int list \<Rightarrow> int list \<Rightarrow> bool" where
  "kernel_ready c r d q \<longleftrightarrow> ccode c = kernel_program \<and> register_read r ''NEXTREG'' = 3 \<and>
     length d \<le> dcap c \<and> length q \<le> rcap c"

lemma implements_loop:
  assumes "\<And>r d q m i ou. kernel_ready c r d q \<Longrightarrow>
      delivers c (n \<lparr>vip = register_read r ''IP'', vds = d, vrs = q, vcells = m, vin = i, vout = ou, vhalted = False\<rparr>)
        (at_index k r d q m i ou)
        (f c \<lparr>vip = register_read r ''IP'', vds = d, vrs = q, vcells = m, vin = i, vout = ou, vhalted = False\<rparr>)"
  shows "implements c k n f"
  unfolding implements_def
proof (intro allI impI)
  fix a assume p: "poised c k a"
  obtain r d q m i ou k' h where
    a: "a = \<lparr>aregs = r, ads = d, ars = q, acells = m, ainq = i, aoutb = ou, apc = k', ahalted = h\<rparr>"
    by (rule amachine.cases_scheme [of a]) auto
  show "delivers c (n (view a)) a (f c (view a))"
    using p assms [of r d q m i ou] by (simp add: a view_def poised_def aread_def kernel_ready_def)
qed

subsection \<open>Multiplication\<close>

lemma MUL_loop:
  assumes "kernel_ready c r (x # d) q" and "register_read r ''X'' = int n"
    and "res = Next \<lparr>vip = register_read r ''IP'', vds = (register_read r ''ACC'' + register_read r ''Y'' * int n) # d,
        vrs = q, vcells = m, vin = i, vout = ou, vhalted = False\<rparr>"
  shows "delivers c (6 * n + 3) (at_index 73 r d q m i ou) res"
  using assms
proof (induction n arbitrary: r res)
  case 0
  then show ?case
    by (intro drive_delivers) (simp add: drive_simps kernel_ready_def MUL_fetch MUL_code_def)
next
  case (Suc n)
  show ?case
  proof (rule delivers_after)
    show "after c 6 (at_index 73 r d q m i ou) (\<lambda>b. delivers c (6 * n + 3) b res)"
      using Suc.prems
      apply (simp add: drive_simps kernel_ready_def MUL_fetch MUL_code_def)
      apply (rule Suc.IH)
        apply (simp_all add: kernel_ready_def algebra_simps)
      done
  qed simp
qed

lemma MUL_word: "implements c 70 (\<lambda>v. 6 * nat (hd (vds v)) + 6) times_word"
  apply (rule implements_loop)
  subgoal for r d q m i ou
  proof (induct d rule: stack_cases)
    case (3 b a)
    then show ?case
      by (intro delivers_after [of c 3 _ "6 * nat b + 3"])
        (auto simp: drive_simps kernel_ready_def MUL_fetch MUL_code_def times_word_def intro!: MUL_loop)
  next
    case (4 b a z d)
    then show ?case
      by (intro delivers_after [of c 3 _ "6 * nat b + 3"])
        (auto simp: drive_simps kernel_ready_def MUL_fetch MUL_code_def times_word_def intro!: MUL_loop)
  next
    case 1
    then show ?case
      by (intro delivers_drive [of c 6])
        (simp_all add: drive_simps times_word_def kernel_ready_def MUL_fetch MUL_code_def)
  next
    case (2 x)
    then show ?case
      by (intro delivers_drive [of c 6])
        (simp_all add: drive_simps times_word_def kernel_ready_def MUL_fetch MUL_code_def)
  qed
  done

text \<open>A negative count never gets to zero.\<close>

lemma MUL_endless:
  assumes "kernel_ready c r d q" and "register_read r ''X'' < 0"
  shows "diverges c (at_index 73 r d q m i ou)"
proof (rule diverges_loop [where j = 5 and P = "\<lambda>a. \<exists>r. a = at_index 73 r d q m i ou \<and> kernel_ready c r d q \<and> register_read r ''X'' < 0"])
  fix a assume "\<exists>r. a = at_index 73 r d q m i ou \<and> kernel_ready c r d q \<and> register_read r ''X'' < 0"
  then show "after c (Suc 5) a (\<lambda>a. \<exists>r. a = at_index 73 r d q m i ou \<and> kernel_ready c r d q \<and> register_read r ''X'' < 0)"
    by (auto simp: drive_simps kernel_ready_def MUL_fetch MUL_code_def)
qed (use assms in blast)

lemma MUL_diverges:
  assumes "poised c 70 a" and "vds (view a) = b # x # d" and "b < 0"
  shows "diverges c a"
proof -
  obtain r d' q m i ou k' h where
    a: "a = \<lparr>aregs = r, ads = d', ars = q, acells = m, ainq = i, aoutb = ou, apc = k', ahalted = h\<rparr>"
    by (rule amachine.cases_scheme [of a]) auto
  with assms have "after c 3 a (diverges c)"
    by (auto simp: view_def poised_def drive_simps MUL_fetch MUL_code_def kernel_ready_def intro!: MUL_endless)
  then show ?thesis by (rule diverges_after)
qed

subsection \<open>Number parsing\<close>

definition number_result :: "config \<Rightarrow> vm \<Rightarrow> int list \<Rightarrow> int option \<Rightarrow> vm outcome" where
  "number_result c v d x =
     (if length d + 2 \<le> dcap c then Next (v\<lparr>vds := (case x of Some n \<Rightarrow> [1, n] | None \<Rightarrow> [0, 0]) @ d\<rparr>)
      else Fail overflow)"

lemma NUM_loop:
  assumes "kernel_ready c r d q" and "register_read r ''PTR'' = int p" and "register_read r ''LEN'' = int n"
    and "p + n \<le> length m"
    and "res = number_result c
        \<lparr>vip = register_read r ''IP'', vds = dx, vrs = q, vcells = m, vin = i, vout = ou, vhalted = False\<rparr> d
        (map_option (\<lambda>x. if register_read r ''NEG'' = 0 then x else - x)
          (digits_value (register_read r ''N'') (slice m p (p + n))))"
  shows "delivers c (26 * n + 20) (at_index 235 r d q m i ou) res"
  using assms
proof (induction n arbitrary: r p res)
  case 0
  then show ?case
    by (intro delivers_drive [of c 20])
      (simp_all add: drive_simps kernel_ready_def NUMBER_fetch NUMBER_code_def number_result_def)
next
  case (Suc n)
  then have sl: "slice m p (p + Suc n) = m ! p # slice m (Suc p) (Suc p + n)"
    using slice_Cons [of p "p + Suc n" m] by simp
  consider "m ! p < 48" | "57 < m ! p" | "48 \<le> m ! p" "m ! p \<le> 57" by linarith
  then show ?case
  proof cases
    case 1
    with Suc.prems sl show ?thesis
      by (intro delivers_drive [of c 20])
        (simp_all add: drive_simps kernel_ready_def NUMBER_fetch NUMBER_code_def number_result_def in_cells_def)
  next
    case 2
    with Suc.prems sl show ?thesis
      by (intro delivers_drive [of c 20])
        (simp_all add: drive_simps kernel_ready_def NUMBER_fetch NUMBER_code_def number_result_def in_cells_def)
  next
    case 3
    show ?thesis
    proof (rule delivers_after)
      show "after c 26 (at_index 235 r d q m i ou) (\<lambda>b. delivers c (26 * n + 20) b res)"
        using Suc.prems 3 sl
        apply (simp add: drive_simps kernel_ready_def NUMBER_fetch NUMBER_code_def in_cells_def)
        apply (rule Suc.IH [of _ "Suc p"])
            apply (simp_all add: kernel_ready_def algebra_simps)
        done
    qed simp
  qed
qed

lemma number_from_text:
  assumes "kernel_ready c r (int k # d) q" and "m ! k = int n" and "k + n < length m"
    and "res = number_result c
        \<lparr>vip = register_read r ''IP'', vds = dx, vrs = q, vcells = m, vin = i, vout = ou, vhalted = False\<rparr> d
        (number_value (slice m (Suc k) (Suc (k + n))))"
  shows "delivers c (26 * n + 40) (at_index 216 r (int k # d) q m i ou) res"
proof (cases n)
  case 0
  with assms show ?thesis
    by (intro delivers_drive [of c 40])
      (simp_all add: drive_simps kernel_ready_def NUMBER_fetch NUMBER_code_def number_result_def in_cells_def)
next
  case (Suc j)
  with assms(3) have sl: "slice m (Suc k) (Suc (k + n)) = m ! Suc k # slice m (Suc (Suc k)) (Suc (k + n))"
    by (simp add: slice_Cons)
  show ?thesis
  proof (cases "m ! Suc k = 45")
    case False
    show ?thesis
    proof (rule delivers_after)
      show "after c 14 (at_index 216 r (int k # d) q m i ou) (\<lambda>b. delivers c (26 * n + 20) b res)"
        using assms(1-3) Suc False
        apply (simp add: drive_simps kernel_ready_def NUMBER_fetch NUMBER_code_def in_cells_def nat_add_distrib)
        apply (rule delivers_mono [OF NUM_loop [where p = "Suc k" and n = "Suc j" and dx = dx]])
            apply (use assms(4) sl in \<open>simp_all add: kernel_ready_def option.map_ident\<close>)
        done
    qed simp
  next
    case minus: True
    show ?thesis
    proof (cases j)
      case 0
      with assms Suc minus sl show ?thesis
        by (intro delivers_drive [of c 40])
          (simp_all add: drive_simps kernel_ready_def NUMBER_fetch NUMBER_code_def number_result_def in_cells_def
            nat_add_distrib)
    next
      case j: (Suc j')
      then have ne: "slice m (Suc (Suc k)) (Suc (k + n)) \<noteq> []"
        using Suc assms(3) slice_Cons [of "Suc (Suc k)" "Suc (k + n)" m] by simp
      show ?thesis
      proof (rule delivers_after)
        show "after c 16 (at_index 216 r (int k # d) q m i ou) (\<lambda>b. delivers c (26 * j + 20) b res)"
          using assms(1-3) Suc j minus
          apply (simp add: drive_simps kernel_ready_def NUMBER_fetch NUMBER_code_def in_cells_def nat_add_distrib)
          apply (rule delivers_mono [OF NUM_loop [where p = "Suc (Suc k)" and n = "Suc j'" and dx = dx]])
              apply (use assms(4) sl ne in \<open>simp_all add: kernel_ready_def\<close>)
          done
      qed (simp add: Suc)
    qed
  qed
qed

lemma NUMBER_word: "implements c 216 (\<lambda>v. 26 * nat (vcells v ! nat (hd (vds v))) + 40) number_word"
  apply (rule implements_loop)
  subgoal for r d q m i ou
  proof (cases d)
    case Nil
    assume "kernel_ready c r d q"
    with Nil show ?thesis
      by (intro delivers_drive [of c 1])
        (simp_all add: drive_simps kernel_ready_def NUMBER_fetch NUMBER_code_def number_word_def)
  next
    case (Cons p d')
    assume k: "kernel_ready c r d q"
    show ?thesis
    proof (cases "counted m p")
      case None
      with Cons show ?thesis by (simp add: number_word_def)
    next
      case (Some cs)
      then obtain j n where jn: "p = int j" "m ! j = int n" "j + n < length m"
          "cs = slice m (Suc j) (Suc (j + n))"
        by (auto simp: counted_Some)
      have "delivers c (26 * n + 40) (at_index 216 r (int j # d') q m i ou) (number_word c
          \<lparr>vip = register_read r ''IP'', vds = d, vrs = q, vcells = m, vin = i, vout = ou, vhalted = False\<rparr>)"
        using k Cons Some jn
        by (intro number_from_text [where dx = d]) (simp_all add: number_word_def number_result_def)
      with Cons jn show ?thesis by simp
    qed
  qed
  done

subsection \<open>Tokenizing the input\<close>

definition word_result :: "vm \<Rightarrow> int list \<Rightarrow> int \<Rightarrow> nat \<Rightarrow> int \<Rightarrow> vm outcome" where
  "word_result v d x n ch =
     (if length (vcells v) < 1986 + n + length (fst (until_delim x (vin v))) then Wild
      else (case snd (until_delim x (vin v)) of
              None \<Rightarrow> Fail InputExhaustedError
            | Some left \<Rightarrow> Next (v\<lparr>vds := 1984 # d, vin := left,
                  vcells := (put_cells (vcells v) (1985 + n) (ch # fst (until_delim x (vin v))))
                    [1984 := int (Suc n + length (fst (until_delim x (vin v))))]\<rparr>)))"

lemma word_result_next:
  assumes "y \<noteq> x" and "1985 + n < length m"
  shows "word_result \<lparr>vip = p, vds = dx, vrs = q, vcells = m, vin = y # i, vout = ou, vhalted = False\<rparr> d x n ch =
     word_result \<lparr>vip = p, vds = dx, vrs = q, vcells = m[1985 + n := ch], vin = i, vout = ou, vhalted = False\<rparr> d x (Suc n) y"
  using assms by (simp add: word_result_def put_cells_Cons split: option.split)

lemma WORD_collect:
  assumes "kernel_ready c r (z # d) q" and "register_read r ''PTR'' = int (1985 + n)"
    and "register_read r ''LEN'' = int n" and "register_read r ''DELIM'' = x" and "register_read r ''C'' = ch"
    and "res = word_result
        \<lparr>vip = register_read r ''IP'', vds = dx, vrs = q, vcells = m, vin = i, vout = ou, vhalted = False\<rparr> d x n ch"
  shows "delivers c (11 * length i + 20) (at_index 288 r d q m i ou) res"
  using assms
proof (induction i arbitrary: r m n ch res)
  case Nil
  then show ?case
    by (intro delivers_drive [of c 20])
      (simp_all add: drive_simps kernel_ready_def WORD_fetch WORD_code_def word_result_def in_cells_def)
next
  case (Cons y i)
  show ?case
  proof (cases "1985 + n < length m")
    case False
    with Cons.prems(6) show ?thesis by (simp add: word_result_def)
  next
    case room: True
    show ?thesis
    proof (cases "y = x")
      case True
      from Cons.prems(6) True room have "res = Next \<lparr>vip = register_read r ''IP'', vds = 1984 # d, vrs = q,
          vcells = m[1985 + n := ch, 1984 := int n + 1], vin = i, vout = ou, vhalted = False\<rparr>"
        by (simp add: word_result_def put_cells_Cons add.commute)
      with Cons.prems(1-5) room True show ?thesis
        by (intro delivers_drive [of c 20])
          (simp_all add: drive_simps kernel_ready_def WORD_fetch WORD_code_def in_cells_def nat_add_distrib)
    next
      case False
      show ?thesis
      proof (rule delivers_after)
        show "after c 11 (at_index 288 r d q m (y # i) ou) (\<lambda>b. delivers c (11 * length i + 20) b res)"
          using Cons.prems(1-5) room False
          apply (simp add: drive_simps kernel_ready_def WORD_fetch WORD_code_def in_cells_def nat_add_distrib)
          apply (rule Cons.IH [where n = "Suc n" and ch = y])
               apply (use Cons.prems(6) in \<open>simp_all add: kernel_ready_def word_result_next\<close>)
          done
      qed simp
    qed
  qed
qed

lemma WORD_skip:
  assumes "kernel_ready c r (z # d) q" and "register_read r ''DELIM'' = x"
    and "res = word_word c
        \<lparr>vip = register_read r ''IP'', vds = x # d, vrs = q, vcells = m, vin = i, vout = ou, vhalted = False\<rparr>"
  shows "delivers c (11 * length i + 30) (at_index 279 r d q m i ou) res"
  using assms
proof (induction i arbitrary: r res)
  case Nil
  then have "res = Wild \<or> res = Fail InputExhaustedError" by (auto simp: word_word_def Let_def)
  then show ?case
  proof
    assume "res = Fail InputExhaustedError"
    with Nil.prems(1,2) show ?thesis
      by (intro delivers_drive [of c 20])
        (simp_all add: drive_simps kernel_ready_def WORD_fetch WORD_code_def)
  qed simp
next
  case (Cons y i)
  show ?case
  proof (cases "y = x")
    case True
    show ?thesis
    proof (rule delivers_after)
      show "after c 5 (at_index 279 r d q m (y # i) ou) (\<lambda>b. delivers c (11 * length i + 30) b res)"
        using Cons.prems(1,2) True
        apply (simp add: drive_simps kernel_ready_def WORD_fetch WORD_code_def)
        apply (rule Cons.IH)
          apply (use Cons.prems(3) in \<open>simp_all add: kernel_ready_def word_word_def Let_def split: option.split\<close>)
        done
    qed simp
  next
    case False
    have "res = word_result \<lparr>vip = register_read r ''IP'', vds = x # d, vrs = q, vcells = m, vin = i, vout = ou,
        vhalted = False\<rparr> d x 0 y"
      using Cons.prems(3) False
      by (simp add: word_word_def word_result_def put_cells_Cons put_cells_before list_update_swap [of 1985 1984] Let_def split: option.splits)
    note res = this
    show ?thesis
    proof (rule delivers_after)
      show "after c 9 (at_index 279 r d q m (y # i) ou) (\<lambda>b. delivers c (11 * length i + 20) b res)"
        using Cons.prems(1,2) False
        apply (simp add: drive_simps kernel_ready_def WORD_fetch WORD_code_def)
        apply (rule WORD_collect [where n = 0 and ch = y and z = z and x = x and dx = "x # d"])
             apply (use res in \<open>simp_all add: kernel_ready_def\<close>)
        done
    qed simp
  qed
qed

lemma WORD_word: "implements c 278 (\<lambda>v. 11 * length (vin v) + 31) word_word"
  apply (rule implements_loop)
  subgoal for r d q m i ou
  proof (cases d)
    case Nil
    assume "kernel_ready c r d q"
    with Nil show ?thesis
      by (intro delivers_drive [of c 1])
        (simp_all add: drive_simps kernel_ready_def WORD_fetch WORD_code_def word_word_def)
  next
    case (Cons x d')
    assume k: "kernel_ready c r d q"
    show ?thesis
    proof (rule delivers_after)
      show "after c 1 (at_index 278 r d q m i ou) (\<lambda>b. delivers c (11 * length i + 30) b (word_word c
          \<lparr>vip = register_read r ''IP'', vds = d, vrs = q, vcells = m, vin = i, vout = ou, vhalted = False\<rparr>))"
        using k Cons
        apply (simp add: drive_simps kernel_ready_def WORD_fetch WORD_code_def)
        apply (rule WORD_skip [where z = 0 and x = x])
          apply (simp_all add: kernel_ready_def)
        done
    qed simp
  qed
  done

subsection \<open>Dictionary search\<close>

definition same_regs :: "string list \<Rightarrow> registers \<Rightarrow> registers \<Rightarrow> bool" where
  "same_regs xs r r' \<longleftrightarrow> list_all (\<lambda>x. register_read r' x = register_read r x) xs"

definition find_regs :: "string list" where
  "find_regs = [''NEXTREG'', ''IP'', ''NAMEADDR'', ''SLEN'', ''CUR'', ''WLEN'']"

lemma FIND_chars:
  assumes "kernel_ready c r d q" and "register_read r ''COUNT'' = int n"
    and "register_read r ''WPTR'' = int a" and "register_read r ''SPTR'' = int b"
    and "a + n \<le> length m" and "b + n \<le> length m"
    and "\<And>r'. same_regs find_regs r r' \<Longrightarrow> slice m a (a + n) = slice m b (b + n) \<Longrightarrow>
        delivers c k (at_index 350 r' d q m i ou) res"
    and "\<And>r'. same_regs find_regs r r' \<Longrightarrow> slice m a (a + n) \<noteq> slice m b (b + n) \<Longrightarrow>
        delivers c k (at_index 368 r' d q m i ou) res"
  shows "delivers c (13 * n + 1 + k) (at_index 334 r d q m i ou) res"
  using assms
proof (induction n arbitrary: r a b)
  case 0
  show ?case
  proof (rule delivers_after)
    show "after c 1 (at_index 334 r d q m i ou) (\<lambda>b. delivers c k b res)"
      using "0.prems"(1-4) "0.prems"(7) [of r]
      by (simp add: drive_simps kernel_ready_def FIND_fetch FIND_code_def same_regs_def list_all_iff)
  qed simp
next
  case (Suc n)
  have sl: "slice m a (a + Suc n) = m ! a # slice m (Suc a) (Suc a + n)"
      "slice m b (b + Suc n) = m ! b # slice m (Suc b) (Suc b + n)"
    using Suc.prems(5,6) slice_Cons [of a "a + Suc n" m] slice_Cons [of b "b + Suc n" m] by simp_all
  show ?case
  proof (cases "m ! a = m ! b")
    case True
    show ?thesis
    proof (rule delivers_after)
      show "after c 13 (at_index 334 r d q m i ou) (\<lambda>b. delivers c (13 * n + 1 + k) b res)"
        using Suc.prems(1-6) True
        apply (simp add: drive_simps kernel_ready_def FIND_fetch FIND_code_def in_cells_def)
        apply (rule Suc.IH [where a = "Suc a" and b = "Suc b", simplified])
               apply (simp_all add: kernel_ready_def)
         apply (rule Suc.prems(7))
          apply (use sl True in \<open>simp_all add: same_regs_def find_regs_def\<close>)
        apply (rule Suc.prems(8))
         apply (simp_all add: same_regs_def find_regs_def)
        done
    qed simp
  next
    case False
    show ?thesis
    proof (rule delivers_after)
      show "after c 10 (at_index 334 r d q m i ou) (\<lambda>b. delivers c k b res)"
        using Suc.prems(1-6) False
        apply (simp add: drive_simps kernel_ready_def FIND_fetch FIND_code_def in_cells_def)
        apply (rule Suc.prems(8))
         apply (use sl False in \<open>simp_all add: same_regs_def find_regs_def\<close>)
        done
    qed simp
  qed
qed

definition find_result :: "config \<Rightarrow> vm \<Rightarrow> int list \<Rightarrow> int \<times> int \<Rightarrow> vm outcome" where
  "find_result c v d x =
     (if length d + 2 \<le> dcap c then Next (v\<lparr>vds := fst x # snd x # d\<rparr>) else Fail overflow)"

lemma FIND_match:
  assumes "kernel_ready c r (z # d) q" and "register_read r ''CUR'' = cur" and "register_read r ''WLEN'' = len"
    and "read_store m (cur - 2) = Some imm"
    and "res = find_result c
        \<lparr>vip = register_read r ''IP'', vds = dx, vrs = q, vcells = m, vin = i, vout = ou, vhalted = False\<rparr> d
        (if imm = 0 then -1 else 1, cur + 1 + len)"
  shows "delivers c 16 (at_index 350 r d q m i ou) res"
proof (cases "imm = 0")
  case True
  with assms show ?thesis
    by (intro delivers_drive [of c 16])
      (simp_all add: drive_simps kernel_ready_def FIND_fetch FIND_code_def find_result_def in_cells_def
        read_store_Some in_store_def)
next
  case False
  with assms show ?thesis
    by (intro delivers_drive [of c 16])
      (simp_all add: drive_simps kernel_ready_def FIND_fetch FIND_code_def find_result_def in_cells_def
        read_store_Some in_store_def)
qed

lemma FIND_loop:
  assumes "kernel_ready c r (z # d) q" and "register_read r ''CUR'' = cur" and "register_read r ''NAMEADDR'' = p"
    and "counted m p = Some name" and "register_read r ''SLEN'' = int (length name)"
    and "search n m name cur = Some x"
    and "res = find_result c
        \<lparr>vip = register_read r ''IP'', vds = dx, vrs = q, vcells = m, vin = i, vout = ou, vhalted = False\<rparr> d x"
  shows "delivers c (visited n m name cur * (13 * length name + 45) + 16) (at_index 309 r d q m i ou) res"
  using assms
proof (induction n arbitrary: r cur)
  case 0
  then show ?case by simp
next
  case (Suc n)
  show ?case
  proof (cases "cur = 0")
    case True
    with Suc.prems(6) have "x = (0, 0)" by simp
    with True Suc.prems(1-5,7) show ?thesis
      by (intro delivers_drive [of c 16])
        (simp_all add: drive_simps kernel_ready_def FIND_fetch FIND_code_def find_result_def)
  next
    case nz: False
    with Suc.prems(6) obtain smudge imm link name' where
      hd: "read_store m (cur - 1) = Some smudge" "read_store m (cur - 2) = Some imm"
        "read_store m (cur - 3) = Some link" "counted m cur = Some name'"
      and found: "(if smudge = 0 \<and> name' = name then Some (if imm = 0 then -1 else 1, cur + 1 + int (length name'))
          else search n m name link) = Some x"
      by (auto split: option.splits)
    let ?s = "13 * length name + 45"
    have vis: "visited (Suc n) m name cur = (if smudge = 0 \<and> name' = name then 1 else Suc (visited n m name link))"
      using nz hd by simp
    from hd(4) obtain k j where kj: "cur = int k" "m ! k = int j" "k + j < length m"
        "name' = slice m (Suc k) (Suc (k + j))"
      by (auto simp: counted_Some)
    then have lenj: "length name' = j" by simp
    from Suc.prems(4) obtain kp jp where pj: "p = int kp" "kp + length name < length m"
        "name = slice m (Suc kp) (Suc (kp + length name))" "m ! kp = int jp" "length name = jp"
      by (auto simp: counted_Some)
    text \<open>Following the link takes seven steps to the loop's head.\<close>
    have next_header: "delivers c (visited n m name link * ?s + 23) (at_index 368 r' d q m i ou) res"
      if "same_regs find_regs (r(''WLEN'' := w)) (r'(''WLEN'' := w))" "\<not> (smudge = 0 \<and> name' = name)" for r' w
    proof (rule delivers_after)
      from that(1) have rr: "register_read r' ''NEXTREG'' = 3" "register_read r' ''CUR'' = cur"
        "register_read r' ''NAMEADDR'' = p" "register_read r' ''SLEN'' = int (length name)"
        "register_read r' ''IP'' = register_read r ''IP''"
        using Suc.prems(1-5) by (simp_all add: same_regs_def find_regs_def kernel_ready_def register_read_def)
      show "after c 7 (at_index 368 r' d q m i ou) (\<lambda>b. delivers c (visited n m name link * ?s + 16) b res)"
        using rr hd(3) Suc.prems(1)
        apply (simp add: drive_simps kernel_ready_def FIND_fetch FIND_code_def in_cells_def read_store_Some in_store_def)
        apply (rule Suc.IH)
             apply (use Suc.prems(4,7) found that(2) in \<open>simp_all add: kernel_ready_def\<close>)
        done
    qed simp
    note evals = drive_simps kernel_ready_def FIND_fetch FIND_code_def in_cells_def read_store_Some in_store_def
    consider "smudge \<noteq> 0" | "smudge = 0" "j \<noteq> length name" | "smudge = 0" "j = length name" by blast
    then show ?thesis
    proof cases
      case 1
      show ?thesis
      proof (rule delivers_after)
        show "after c 9 (at_index 309 r d q m i ou) (\<lambda>b. delivers c (visited n m name link * ?s + 23) b res)"
          using Suc.prems(1,2) hd(1) nz 1
          apply (simp add: evals)
          apply (rule next_header [where w = None])
           apply (simp_all add: same_regs_def find_regs_def register_read_def register_write_def)
          done
      qed (use vis 1 in simp)
    next
      case 2
      show ?thesis
      proof (rule delivers_after)
        show "after c 14 (at_index 309 r d q m i ou) (\<lambda>b. delivers c (visited n m name link * ?s + 23) b res)"
          using Suc.prems(1,2,5) hd(1) nz 2 kj(1-3)
          apply (simp add: evals)
          apply (rule next_header [where w = None])
           apply (use lenj in \<open>auto simp: same_regs_def find_regs_def register_read_def register_write_def\<close>)
          done
      qed (use vis 2 lenj in auto)
    next
      case 3
      define kk where "kk = (if name' = name then 16 else visited n m name link * ?s + 23)"
      have same: "slice m (Suc k) (Suc k + j) = slice m (Suc kp) (Suc kp + j) \<longleftrightarrow> name' = name"
        using 3 kj(4) pj(3) by simp
      have compare: "delivers c (13 * j + 1 + kk) (at_index 334 r1 d q m i ou) res"
        if r1: "kernel_ready c r1 (z # d) q" "register_read r1 ''CUR'' = cur" "register_read r1 ''NAMEADDR'' = p"
          "register_read r1 ''SLEN'' = int (length name)" "register_read r1 ''IP'' = register_read r ''IP''"
          "register_read r1 ''WLEN'' = int j" "register_read r1 ''COUNT'' = int j"
          "register_read r1 ''WPTR'' = int (Suc k)" "register_read r1 ''SPTR'' = int (Suc kp)" for r1
      proof (rule FIND_chars [where a = "Suc k" and b = "Suc kp"])
        fix r2 assume r2: "same_regs find_regs r1 r2"
        then have reads: "kernel_ready c r2 (z # d) q" "register_read r2 ''CUR'' = cur"
            "register_read r2 ''WLEN'' = int j" "register_read r2 ''IP'' = register_read r ''IP''"
          using r1 by (simp_all add: same_regs_def find_regs_def kernel_ready_def)
        show "delivers c kk (at_index 350 r2 d q m i ou) res"
          if "slice m (Suc k) (Suc k + j) = slice m (Suc kp) (Suc kp + j)"
        proof -
          from that same have eq: "name' = name" by simp
          with found 3 lenj have "x = (if imm = 0 then -1 else 1, cur + 1 + int j)" by simp
          with Suc.prems(7) reads eq hd(2) show ?thesis
            unfolding kk_def by (intro delivers_mono [OF FIND_match [where dx = dx]]) simp_all
        qed
        show "delivers c kk (at_index 368 r2 d q m i ou) res"
          if "slice m (Suc k) (Suc k + j) \<noteq> slice m (Suc kp) (Suc kp + j)"
        proof -
          from that same have ne: "name' \<noteq> name" by simp
          have "same_regs find_regs (r(''WLEN'' := None)) (r2(''WLEN'' := None))"
            using r1 r2 Suc.prems(1-5)
            by (simp add: same_regs_def find_regs_def kernel_ready_def register_read_def)
          from next_header [OF this] ne show ?thesis by (simp add: kk_def)
        qed
      qed (use r1 kj(3) pj(2) 3 in \<open>simp_all add: kernel_ready_def\<close>)
      show ?thesis
      proof (rule delivers_after)
        show "after c 19 (at_index 309 r d q m i ou) (\<lambda>b. delivers c (13 * j + 1 + kk) b res)"
          using Suc.prems(1,2,3,5) hd(1) nz 3(1) kj(1-3) pj(1,2) 3(2) [symmetric]
          apply (simp add: evals)
          apply (rule delivers_mono [OF compare])
                   apply (simp_all add: kernel_ready_def)
          done
      qed (use vis 3 in \<open>simp add: kk_def\<close>)
    qed
  qed
qed

definition find_cost :: "vm \<Rightarrow> nat" where
  "find_cost v =
     (case (counted (vcells v) (hd (vds v)), read_store (vcells v) LATEST_ADDR) of
        (Some name, Some latest) \<Rightarrow> visited (length (vcells v)) (vcells v) name latest * (13 * length name + 45) + 21
      | _ \<Rightarrow> 21)"

lemma FIND_word: "implements c 304 find_cost find_word"
  apply (rule implements_loop)
  subgoal for r d q m i ou
  proof (cases d)
    case Nil
    assume "kernel_ready c r d q"
    with Nil show ?thesis
      by (intro delivers_drive [of c 1])
        (simp_all add: drive_simps kernel_ready_def FIND_fetch FIND_code_def find_word_def find_cost_def split: option.split)
  next
    case (Cons p d')
    assume k: "kernel_ready c r d q"
    let ?v = "\<lparr>vip = register_read r ''IP'', vds = d, vrs = q, vcells = m, vin = i, vout = ou, vhalted = False\<rparr>"
    show ?thesis
    proof (cases "\<exists>name latest x. counted m p = Some name \<and> read_store m 1 = Some latest \<and>
        search (length m) m name latest = Some x")
      case False
      with Cons show ?thesis by (auto simp: find_word_def split: option.splits)
    next
      case True
      then obtain name latest x where found: "counted m p = Some name" "read_store m 1 = Some latest"
        "search (length m) m name latest = Some x"
        by blast
      have res: "find_word c ?v = find_result c ?v d' x"
        using found Cons by (cases x) (simp add: find_word_def find_result_def)
      from found(1) obtain kp where p: "p = int kp" "m ! kp = int (length name)" "kp + length name < length m"
        by (auto simp: counted_Some)
      show ?thesis unfolding res
      proof (rule delivers_after)
        show "after c 5 (at_index 304 r d q m i ou) (\<lambda>b. delivers c
            (visited (length m) m name latest * (13 * length name + 45) + 16) b (find_result c ?v d' x))"
          using k Cons found(2) p
          apply (simp add: drive_simps kernel_ready_def FIND_fetch FIND_code_def in_cells_def read_store_Some in_store_def)
          apply (rule delivers_mono [OF FIND_loop [where z = 0 and cur = latest and p = p and dx = d and name = name and n = "length m"]])
                 apply (use found in \<open>simp_all add: kernel_ready_def read_store_Some\<close>)
          done
      qed (use Cons found in \<open>simp add: find_cost_def\<close>)
    qed
  qed
  done

end
