(* ===== verification/Interpreter.thy ===== *)
theory Interpreter
  imports Loops
begin

section \<open>The threaded-code interpreter\<close>

text \<open>
  \<^verbatim>\<open>START\<close>, \<^verbatim>\<open>NEXT\<close> and \<^verbatim>\<open>ENTER\<close> with the code words make an interpreter of threads of code-field
  addresses. \<open>vm_step\<close> is what one turn of it does on Forth states: fetch the code field the thread
  points at, then enter the colon word or run the code word. The assembled kernel does exactly
  this, in a known number of CPU steps, and so do whole runs of it.
\<close>

subsection \<open>The table of code words\<close>

definition code_semantics :: "(string \<times> (vm \<Rightarrow> nat) \<times> word_semantics) list" where
  "code_semantics = map (\<lambda>(l, n, f). (l, \<lambda>_. 12, effect n f)) stack_words @ [
     (''MUL'', \<lambda>v. 6 * nat (hd (vds v)) + 6, times_word),
     (''FETCH'', \<lambda>_. 12, fetch_word), (''STOREW'', \<lambda>_. 12, store_word),
     (''CFETCH'', \<lambda>_. 12, fetch_word), (''CSTOREW'', \<lambda>_. 12, store_word),
     (''TOR'', \<lambda>_. 12, to_r_word), (''FROMR'', \<lambda>_. 12, from_r_word), (''RFETCH'', \<lambda>_. 12, r_fetch_word),
     (''KEY'', \<lambda>_. 12, key_word), (''EMIT'', \<lambda>_. 12, emit_word), (''LIT'', \<lambda>_. 12, lit_word),
     (''EXIT'', \<lambda>_. 12, exit_word), (''BYE'', \<lambda>_. 12, bye_word),
     (''NUMBER'', \<lambda>v. 26 * nat (vcells v ! nat (hd (vds v))) + 40, number_word),
     (''WORD'', \<lambda>v. 11 * length (vin v) + 31, word_word),
     (''FIND'', find_cost, find_word)]"

definition word_at :: "int \<Rightarrow> ((vm \<Rightarrow> nat) \<times> word_semantics) option" where
  "word_at k = map_of (map (\<lambda>(l, w). (the (kernel_labels l), w)) code_semantics) k"

lemmas code_word_lemmas = DUP_word DROP_word SWAP_word OVER_word ROT_word NROT_word NIP_word TUCK_word
  PLUS_word MINUS_word MUL_word NEGATE_word ABS_word ONEPLUS_word ONEMINUS_word FETCH_word STOREW_word
  CFETCH_word CSTOREW_word TOR_word FROMR_word RFETCH_word EQUALS_word NOTEQUALS_word LESSTHAN_word
  GREATERTHAN_word ZEROEQ_word ZEROLT_word BITAND_word BITOR_word BITINVERT_word KEY_word EMIT_word
  LIT_word EXIT_word BYE_word NUMBER_word WORD_word FIND_word

lemma code_semantics_implemented:
  "list_all (\<lambda>(l, n, f). implements c (the (kernel_labels l)) n f) code_semantics"
  by (simp add: code_semantics_def stack_words_def kernel_label_lookup code_word_lemmas [simplified])

lemma word_at_implements: "word_at k = Some (n, f) \<Longrightarrow> implements c k n f"
  using code_semantics_implemented [of c]
  by (auto simp: word_at_def list_all_iff dest!: map_of_SomeD)

text \<open>Every word of \<^verbatim>\<open>CODE_WORDS\<close> has its routine in the table.\<close>

lemma code_words_covered:
  "list_all (\<lambda>w. cw_routine_label w \<in> set (map fst code_semantics)) CODE_WORDS"
  by (simp add: CODE_WORDS_def PRIMITIVES_def primitive_def code_semantics_def stack_words_def)

text \<open>
  C3. Every native routine of the assembled kernel, entered at its label, does what its word means on Forth
  states: the result, or the stack or input error, and back to \<^verbatim>\<open>NEXT\<close> within the stated number of CPU steps.
\<close>

theorem kernel_words_correct:
  "list_all (\<lambda>w. case map_of code_semantics (cw_routine_label w) of
      None \<Rightarrow> False
    | Some (n, f) \<Rightarrow> implements c (the (kernel_labels (cw_routine_label w))) n f) CODE_WORDS"
proof -
  have "case map_of code_semantics l of None \<Rightarrow> False | Some (n, f) \<Rightarrow> implements c (the (kernel_labels l)) n f"
    if "l \<in> set (map fst code_semantics)" for l
  proof (cases "map_of code_semantics l")
    case None
    with that show ?thesis by (simp add: map_of_eq_None_iff)
  next
    case (Some w)
    with code_semantics_implemented [of c] show ?thesis
      by (auto simp: list_all_iff dest: map_of_SomeD)
  qed
  with code_words_covered show ?thesis unfolding list_all_iff by blast
qed

subsection \<open>One turn of the interpreter\<close>

definition enter_word :: "int \<Rightarrow> word_semantics" where
  "enter_word cfa c v =
     (if length (vrs v) < rcap c then Next (v\<lparr>vrs := vip v # vrs v, vip := cfa + 1\<rparr>) else Fail overflow)"

definition vm_step :: word_semantics where
  "vm_step c v =
     (case read_store (vcells v) (vip v) of
        None \<Rightarrow> Wild
      | Some cfa \<Rightarrow>
          (case read_store (vcells v) cfa of
             None \<Rightarrow> Wild
           | Some k \<Rightarrow>
               if k = 7 then enter_word cfa c (v\<lparr>vip := vip v + 1\<rparr>)
               else (case word_at k of None \<Rightarrow> Wild | Some (n, f) \<Rightarrow> f c (v\<lparr>vip := vip v + 1\<rparr>))))"

definition step_cost :: "vm \<Rightarrow> nat" where
  "step_cost v =
     (case read_store (vcells v) (vip v) of
        None \<Rightarrow> 0
      | Some cfa \<Rightarrow>
          (case read_store (vcells v) cfa of
             None \<Rightarrow> 0
           | Some k \<Rightarrow>
               if k = 7 then 9
               else (case word_at k of None \<Rightarrow> 0 | Some (n, f) \<Rightarrow> 4 + n (v\<lparr>vip := vip v + 1\<rparr>))))"

lemma NEXT_after:
  assumes "ccode c = kernel_program" and "apc a = 3" and "aread a ''NEXTREG'' = 3" and "\<not> ahalted a"
    and "read_store (acells a) (aread a ''IP'') = Some cfa" and "read_store (acells a) cfa = Some k"
    and "length (ads a) \<le> dcap c" and "length (ars a) \<le> rcap c"
  shows "after c 4 a (\<lambda>b. poised c k b \<and> aread b ''W'' = cfa \<and> view b = (view a)\<lparr>vip := aread a ''IP'' + 1\<rparr>)"
proof -
  obtain r d q m i ou k' h where
    a: "a = \<lparr>aregs = r, ads = d, ars = q, acells = m, ainq = i, aoutb = ou, apc = k', ahalted = h\<rparr>"
    by (rule amachine.cases_scheme [of a]) auto
  show ?thesis
    using assms
    by (simp add: a drive_simps CORE_fetch CORE_code_def in_cells_def read_store_Some in_store_def poised_def)
qed

lemma NEXT_code:
  assumes "ccode c = kernel_program" and "apc a = 3" and "aread a ''NEXTREG'' = 3" and "\<not> ahalted a"
    and "read_store (acells a) (aread a ''IP'') = Some cfa" and "read_store (acells a) cfa = Some k"
    and "length (ads a) \<le> dcap c" and "length (ars a) \<le> rcap c"
    and "\<And>b. poised c k b \<Longrightarrow> aread b ''W'' = cfa \<Longrightarrow> view b = (view a)\<lparr>vip := aread a ''IP'' + 1\<rparr> \<Longrightarrow> delivers c n b res"
  shows "delivers c (4 + n) a res"
proof (rule delivers_after)
  show "after c 4 a (\<lambda>b. delivers c n b res)"
    by (rule after_mono [OF NEXT_after [OF assms(1-8)]]) (use assms(9) in blast)
qed simp

lemma ENTER_code:
  assumes "poised c 7 a" and "aread a ''W'' = cfa"
  shows "delivers c 5 a (enter_word cfa c (view a))"
proof -
  obtain r d q m i ou k' h where
    a: "a = \<lparr>aregs = r, ads = d, ars = q, acells = m, ainq = i, aoutb = ou, apc = k', ahalted = h\<rparr>"
    by (rule amachine.cases_scheme [of a]) auto
  from assms show ?thesis
    by (intro delivers_drive [of c 5])
      (simp_all add: a drive_simps poised_def enter_word_def CORE_fetch CORE_code_def)
qed

lemma vm_step_code:
  assumes "ccode c = kernel_program" and "settled c v a" and "\<not> vhalted v"
  shows "delivers c (step_cost v) a (vm_step c v)"
proof -
  have a: "view a = v" "apc a = 3" "aread a ''NEXTREG'' = 3" "\<not> ahalted a"
      "length (ads a) \<le> dcap c" "length (ars a) \<le> rcap c"
    using assms(2,3) by (auto simp: settled_def view_def)
  then have v: "vcells v = acells a" "vip v = aread a ''IP''" by (auto simp: view_def)
  show ?thesis
  proof (cases "read_store (vcells v) (vip v)")
    case None
    then show ?thesis by (simp add: vm_step_def)
  next
    case ip: (Some cfa)
    show ?thesis
    proof (cases "read_store (vcells v) cfa")
      case None
      with ip show ?thesis by (simp add: vm_step_def)
    next
      case cf: (Some k)
      note start = NEXT_code [OF assms(1) a(2-4) ip [unfolded v] cf [unfolded v] a(5,6)]
      show ?thesis
      proof (cases "k = 7")
        case True
        have "delivers c (4 + 5) a (enter_word cfa c (v\<lparr>vip := vip v + 1\<rparr>))"
        proof (rule start)
          fix b assume "poised c k b" "aread b ''W'' = cfa" "view b = (view a)\<lparr>vip := aread a ''IP'' + 1\<rparr>"
          with True a(1) v(2) ENTER_code [of c b cfa] show "delivers c 5 b (enter_word cfa c (v\<lparr>vip := vip v + 1\<rparr>))"
            by simp
        qed
        with True ip cf show ?thesis by (simp add: vm_step_def step_cost_def)
      next
        case nk: False
        show ?thesis
        proof (cases "word_at k")
          case None
          with ip cf nk show ?thesis by (simp add: vm_step_def)
        next
          case (Some nf)
          obtain n f where nf: "nf = (n, f)" by force
          let ?v = "v\<lparr>vip := vip v + 1\<rparr>"
          have "delivers c (4 + n ?v) a (f c ?v)"
          proof (rule start)
            fix b assume "poised c k b" "view b = (view a)\<lparr>vip := aread a ''IP'' + 1\<rparr>"
            with word_at_implements [of k n f c] Some nf a(1) v(2) show "delivers c (n ?v) b (f c ?v)"
              by (auto simp: implements_def)
          qed
          with Some nf nk ip cf show ?thesis by (simp add: vm_step_def step_cost_def)
        qed
      qed
    qed
  qed
qed

text \<open>\<^verbatim>\<open>*\<close> with a negative number on top never comes back.\<close>

lemma times_diverges:
  assumes "ccode c = kernel_program" and "settled c v a" and "\<not> vhalted v"
    and "read_store (vcells v) (vip v) = Some cfa" and "read_store (vcells v) cfa = Some 70"
    and "vds v = b # x # d" and "b < 0"
  shows "diverges c a"
proof (rule diverges_after [OF after_mono [OF NEXT_after]])
  show "read_store (acells a) (aread a ''IP'') = Some cfa" "read_store (acells a) cfa = Some 70"
    using assms(2,4,5) by (auto simp: settled_def view_def)
  fix e assume "poised c 70 e \<and> aread e ''W'' = cfa \<and> view e = (view a)\<lparr>vip := aread a ''IP'' + 1\<rparr>"
  then show "diverges c e" using assms(2,6,7) by (auto simp: settled_def intro: MUL_diverges)
qed (use assms in \<open>auto simp: settled_def view_def\<close>)

subsection \<open>Whole runs\<close>

text \<open>At most \<open>n\<close> turns, until a word halts the machine.\<close>

fun vm_run :: "config \<Rightarrow> nat \<Rightarrow> vm \<Rightarrow> vm outcome" where
  "vm_run c 0 v = (if vhalted v then Next v else Wild)"
| "vm_run c (Suc n) v =
     (if vhalted v then Next v
      else (case vm_step c v of Next v' \<Rightarrow> vm_run c n v' | Fail e \<Rightarrow> Fail e | Wild \<Rightarrow> Wild))"

fun run_cost :: "config \<Rightarrow> nat \<Rightarrow> vm \<Rightarrow> nat" where
  "run_cost c 0 v = 0"
| "run_cost c (Suc n) v =
     (if vhalted v then 0
      else step_cost v + (case vm_step c v of Next v' \<Rightarrow> run_cost c n v' | Fail e \<Rightarrow> 0 | Wild \<Rightarrow> 0))"

lemma vm_run_code:
  assumes "ccode c = kernel_program" and "settled c v a"
  shows "delivers c (run_cost c n v) a (vm_run c n v)"
  using assms(2)
proof (induction n arbitrary: v a)
  case 0
  then show ?case by (auto simp: delivers_def within_now)
next
  case (Suc n)
  show ?case
  proof (cases "vhalted v")
    case True
    with Suc.prems show ?thesis by (simp add: delivers_def within_now)
  next
    case False
    from vm_step_code [OF assms(1) Suc.prems False]
    have st: "delivers c (step_cost v) a (vm_step c v)" .
    show ?thesis
    proof (cases "vm_step c v")
      case (Next v')
      with st have "within c (step_cost v) a (settled c v')" by (simp add: delivers_def)
      then have "delivers c (step_cost v + run_cost c n v') a (vm_run c n v')"
        by (rule delivers_within) (rule Suc.IH)
      with Next False show ?thesis by simp
    qed (use st False in simp_all)
  qed
qed

lemma vm_run_halted: "vm_run c n v = Next v' \<Longrightarrow> vhalted v'"
  by (induction n arbitrary: v) (auto split: if_splits outcome.splits)

text \<open>Booting: \<^verbatim>\<open>START\<close> sets the \<^verbatim>\<open>NEXT\<close> register and falls into \<^verbatim>\<open>NEXT\<close>.\<close>

lemma START_code:
  assumes "ccode c = kernel_program" and "apc a = 0" and "\<not> ahalted a"
    and "length (ads a) \<le> dcap c" and "length (ars a) \<le> rcap c"
  shows "within c 3 a (settled c (view a))"
proof -
  obtain r d q m i ou k' h where
    a: "a = \<lparr>aregs = r, ads = d, ars = q, acells = m, ainq = i, aoutb = ou, apc = k', ahalted = h\<rparr>"
    by (rule amachine.cases_scheme [of a]) auto
  from assms have "delivers c 3 a (Next (view a))"
    by (intro delivers_drive [of c 3]) (simp_all add: a drive_simps CORE_fetch CORE_code_def)
  then show ?thesis by (simp add: delivers_def)
qed

end
