(* ===== verification/Dictionary.thy ===== *)
theory Dictionary
  imports Protected
begin

section \<open>The dictionary and its codecs\<close>

text \<open>
  \<^verbatim>\<open>adapters/system_variables.py\<close>, \<^verbatim>\<open>counted_string.py\<close> and \<^verbatim>\<open>dictionary.py\<close>: words laid out in the
  memory the emulator runs on. The adapters are defined over any memory port (its read and write, as
  state-and-error computations); the locale \<open>store_port\<close> states what they rely on, and the cells of the
  shared data path below the stacks satisfy it.
\<close>

subsection \<open>The adapters\<close>

type_synonym 's rd_port = "address \<Rightarrow> (error, 's, cell) exec"
type_synonym 's wr_port = "address \<Rightarrow> cell \<Rightarrow> (error, 's, unit) exec"

definition get_dp :: "'s rd_port \<Rightarrow> (error, 's, address) exec" where "get_dp rd = rd DP_ADDR"
definition set_dp :: "'s wr_port \<Rightarrow> address \<Rightarrow> (error, 's, unit) exec" where "set_dp wr v = wr DP_ADDR v"
definition get_latest :: "'s rd_port \<Rightarrow> (error, 's, address) exec" where "get_latest rd = rd LATEST_ADDR"
definition set_latest :: "'s wr_port \<Rightarrow> address \<Rightarrow> (error, 's, unit) exec" where "set_latest wr v = wr LATEST_ADDR v"

text \<open>\<^verbatim>\<open>chr\<close> accepts a code point only.\<close>

definition is_code_point :: "int \<Rightarrow> bool" where "is_code_point x \<longleftrightarrow> 0 \<le> x \<and> x \<le> 0x10FFFF"

fun read_chars :: "'s rd_port \<Rightarrow> address \<Rightarrow> nat \<Rightarrow> (error, 's, pystr) exec" where
  "read_chars rd a 0 = pure []"
| "read_chars rd a (Suc n) =
     chain (rd a) (\<lambda>x.
       if is_code_point x then chain (read_chars rd (a + 1) n) (\<lambda>xs. pure (x # xs)) else raise ValueError)"

definition counted_read :: "'s rd_port \<Rightarrow> address \<Rightarrow> (error, 's, pystr) exec" where
  "counted_read rd a = chain (rd a) (\<lambda>n. read_chars rd (a + 1) (nat n))"

fun write_chars :: "'s wr_port \<Rightarrow> address \<Rightarrow> pystr \<Rightarrow> (error, 's, unit) exec" where
  "write_chars wr a [] = pure ()"
| "write_chars wr a (x # xs) = chain (wr a x) (\<lambda>_. write_chars wr (a + 1) xs)"

definition counted_write :: "'s wr_port \<Rightarrow> address \<Rightarrow> pystr \<Rightarrow> (error, 's, address) exec" where
  "counted_write wr a text =
     chain (wr a (int (length text))) (\<lambda>_.
     chain (write_chars wr (a + 1) text) (\<lambda>_. pure (a + 1 + int (length text))))"

definition dictionary_new :: "'s wr_port \<Rightarrow> (error, 's, unit) exec" where
  "dictionary_new wr = chain (set_dp wr DICTIONARY_BASE) (\<lambda>_. set_latest wr 0)"

definition here :: "'s rd_port \<Rightarrow> (error, 's, address) exec" where "here rd = get_dp rd"

definition append_cell :: "'s rd_port \<Rightarrow> 's wr_port \<Rightarrow> int \<Rightarrow> (error, 's, address) exec" where
  "append_cell rd wr v =
     chain (get_dp rd) (\<lambda>a. chain (wr a v) (\<lambda>_. chain (set_dp wr (a + 1)) (\<lambda>_. pure a)))"

fun append_cells :: "'s rd_port \<Rightarrow> 's wr_port \<Rightarrow> int list \<Rightarrow> (error, 's, unit) exec" where
  "append_cells rd wr [] = pure ()"
| "append_cells rd wr (v # vs) = chain (append_cell rd wr v) (\<lambda>_. append_cells rd wr vs)"

definition append_word ::
  "'s rd_port \<Rightarrow> 's wr_port \<Rightarrow> pystr \<Rightarrow> program_index \<Rightarrow> address list \<Rightarrow> bool \<Rightarrow> (error, 's, address) exec" where
  "append_word rd wr name code_field thread immediate =
     chain (get_latest rd) (\<lambda>link.
     chain (append_cell rd wr link) (\<lambda>_.
     chain (append_cell rd wr (if immediate then 1 else 0)) (\<lambda>_.
     chain (append_cell rd wr 0) (\<lambda>_.
     chain (here rd) (\<lambda>name_field.
     chain (counted_write wr name_field name) (\<lambda>past.
     chain (set_dp wr past) (\<lambda>_.
     chain (here rd) (\<lambda>cfa.
     chain (append_cell rd wr code_field) (\<lambda>_.
     chain (append_cells rd wr thread) (\<lambda>_.
     chain (set_latest wr name_field) (\<lambda>_. pure cfa)))))))))))"

definition read_header :: "'s rd_port \<Rightarrow> address \<Rightarrow> (error, 's, dictionary_header) exec" where
  "read_header rd name_field =
     (let start = name_field - NAME_LENGTH in
      chain (counted_read rd name_field) (\<lambda>name.
      chain (rd (start + LINK)) (\<lambda>link.
      chain (rd (start + IMMEDIATE)) (\<lambda>imm.
      chain (rd (start + SMUDGE)) (\<lambda>smudge.
        pure \<lparr>hname = name, hlink = link, himmediate = (imm \<noteq> 0), hsmudge = (smudge \<noteq> 0),
          hcfa = name_field + 1 + int (length name)\<rparr>)))))"

text \<open>
  \<^verbatim>\<open>find\<close> over the generator \<^verbatim>\<open>headers\<close>: nothing guards against a cyclic chain, so it may run forever.
\<close>

partial_function (option) find_loop ::
  "'s rd_port \<Rightarrow> pystr \<Rightarrow> address \<Rightarrow> 's \<Rightarrow> ((error + dictionary_header option) \<times> 's) option" where
  "find_loop rd name name_field s =
     (if name_field = 0 then Some (Inr None, s)
      else (case read_header rd name_field s of
              (Inl e, s') \<Rightarrow> Some (Inl e, s')
            | (Inr h, s') \<Rightarrow>
                if hname h = name then Some (Inr (Some h), s')
                else (case rd (name_field - NAME_LENGTH) s' of
                        (Inl e, s'') \<Rightarrow> Some (Inl e, s'')
                      | (Inr link, s'') \<Rightarrow> find_loop rd name link s'')))"

definition dictionary_find ::
  "'s rd_port \<Rightarrow> pystr \<Rightarrow> 's \<Rightarrow> ((error + dictionary_header option) \<times> 's) option" where
  "dictionary_find rd name s =
     (case get_latest rd s of
        (Inl e, s') \<Rightarrow> Some (Inl e, s')
      | (Inr latest, s') \<Rightarrow> find_loop rd name latest s')"

text \<open>\<^verbatim>\<open>headers\<close>, all of the generator's values.\<close>

partial_function (option) headers_loop ::
  "'s rd_port \<Rightarrow> address \<Rightarrow> 's \<Rightarrow> ((error + dictionary_header list) \<times> 's) option" where
  "headers_loop rd name_field s =
     (if name_field = 0 then Some (Inr [], s)
      else (case read_header rd name_field s of
              (Inl e, s') \<Rightarrow> Some (Inl e, s')
            | (Inr h, s') \<Rightarrow>
                (case rd (name_field - NAME_LENGTH) s' of
                   (Inl e, s'') \<Rightarrow> Some (Inl e, s'')
                 | (Inr link, s'') \<Rightarrow>
                     Option.bind (headers_loop rd link s'')
                       (\<lambda>(r, t). Some (case r of Inl e \<Rightarrow> Inl e | Inr hs \<Rightarrow> Inr (h # hs), t)))))"

definition headers :: "'s rd_port \<Rightarrow> 's \<Rightarrow> ((error + dictionary_header list) \<times> 's) option" where
  "headers rd s =
     (case get_latest rd s of
        (Inl e, s') \<Rightarrow> Some (Inl e, s')
      | (Inr latest, s') \<Rightarrow> headers_loop rd latest s')"

subsection \<open>Growing the dictionary\<close>

text \<open>The cells after appending \<open>vs\<close> at the dictionary pointer \<open>k\<close>.\<close>

definition grown :: "nat \<Rightarrow> int list \<Rightarrow> int list \<Rightarrow> int list" where
  "grown k m vs = (put_cells m k vs)[0 := int (k + length vs)]"

definition dp_at :: "nat \<Rightarrow> int list \<Rightarrow> bool" where
  "dp_at k m \<longleftrightarrow> 2 \<le> k \<and> k \<le> length m \<and> m ! 0 = int k"

lemma grown_Nil: "dp_at k m \<Longrightarrow> grown k m [] = m"
  by (simp add: grown_def dp_at_def list_update_same_conv) (metis list_update_id)

lemma length_grown [simp]: "k + length vs \<le> length m \<Longrightarrow> length (grown k m vs) = length m"
  by (simp add: grown_def)

lemma dp_at_pos: "dp_at k m \<Longrightarrow> m \<noteq> []" "dp_at k m \<Longrightarrow> 1 < length m"
  by (auto simp: dp_at_def)

lemma dp_at_grown: "dp_at k m \<Longrightarrow> k + length vs \<le> length m \<Longrightarrow> dp_at (k + length vs) (grown k m vs)"
  using dp_at_pos [of k m] by (simp add: dp_at_def grown_def)

lemma grown_grown:
  assumes "dp_at k m" and "k + length vs + length ws \<le> length m"
  shows "grown (k + length vs) (grown k m vs) ws = grown k m (vs @ ws)"
  using assms
  by (simp add: grown_def dp_at_def put_cells_append put_cells_before [symmetric] add.assoc)

lemma nth_grown:
  "dp_at k m \<Longrightarrow> k + length vs \<le> length m \<Longrightarrow> i < length m \<Longrightarrow>
     grown k m vs ! i = (if i = 0 then int (k + length vs) else if k \<le> i \<and> i < k + length vs then vs ! (i - k) else m ! i)"
  by (auto simp: grown_def nth_put_cells nth_list_update dp_at_def)

text \<open>The cells of a word: link, flags, counted name, code field, thread.\<close>

definition word_cells :: "int \<Rightarrow> bool \<Rightarrow> pystr \<Rightarrow> int \<Rightarrow> int list \<Rightarrow> int list" where
  "word_cells link immediate name code_field thread =
     [link, if immediate then 1 else 0, 0, int (length name)] @ name @ [code_field] @ thread"

lemma length_word_cells [simp]:
  "length (word_cells l i name c thread) = 5 + length name + length thread"
  by (simp add: word_cells_def)

subsection \<open>The link chain\<close>

text \<open>
  What the dictionary holds, newest word first: name, flag cells, and the address of the name field.
\<close>

record entry =
  ename :: pystr
  eimm :: int
  esmudge :: int
  enf :: nat

definition ecfa :: "entry \<Rightarrow> nat" where "ecfa e = enf e + 1 + length (ename e)"

text \<open>The words \<open>es\<close> are chained from name field \<open>nf\<close>, each inside the cells from 8 up to \<open>hi\<close>, older ones lower.\<close>

fun chain_in :: "int list \<Rightarrow> nat \<Rightarrow> int \<Rightarrow> entry list \<Rightarrow> bool" where
  "chain_in m hi nf [] \<longleftrightarrow> nf = 0"
| "chain_in m hi nf (e # es) \<longleftrightarrow>
     nf = int (enf e) \<and> 11 \<le> enf e \<and> ecfa e < hi \<and> hi \<le> length m \<and>
     counted m (int (enf e)) = Some (ename e) \<and> m ! (enf e - 2) = eimm e \<and> m ! (enf e - 1) = esmudge e \<and>
     list_all is_code_point (ename e) \<and> chain_in m (enf e - 3) (m ! (enf e - 3)) es"

definition dict_ok :: "int list \<Rightarrow> nat \<Rightarrow> entry list \<Rightarrow> bool" where
  "dict_ok m k es \<longleftrightarrow> dp_at k m \<and> 8 \<le> k \<and> chain_in m k (m ! 1) es"

lemma counted_cong:
  assumes "counted m (int a) = Some xs" and "a + length xs < hi" and "hi \<le> length m'"
    and "\<And>i. a \<le> i \<Longrightarrow> i < hi \<Longrightarrow> m' ! i = m ! i"
  shows "counted m' (int a) = Some xs"
proof -
  from assms(1) obtain n where n: "m ! a = int n" "a + n < length m" "xs = slice m (Suc a) (Suc (a + n))"
    by (auto simp: counted_Some)
  then have len: "length xs = n" by simp
  have "slice m' (Suc a) (Suc (a + n)) = slice m (Suc a) (Suc (a + n))"
    using assms(2-4) n(2) len by (intro nth_equalityI) auto
  with n len assms(2-4) show ?thesis by (auto simp: counted_Some)
qed

lemma chain_in_cong:
  assumes "chain_in m hi nf es" and "hi \<le> length m'" and "\<And>i. 8 \<le> i \<Longrightarrow> i < hi \<Longrightarrow> m' ! i = m ! i"
  shows "chain_in m' hi nf es"
  using assms
proof (induction m hi nf es rule: chain_in.induct)
  case (1 m hi nf)
  then show ?case by simp
next
  case (2 m hi nf e es)
  note agree = "2.prems"(3)
  from "2.prems"(1,2) have e: "nf = int (enf e)" "11 \<le> enf e" "ecfa e < hi" "hi \<le> length m'"
      "counted m (int (enf e)) = Some (ename e)" "m ! (enf e - 2) = eimm e" "m ! (enf e - 1) = esmudge e"
      "list_all is_code_point (ename e)" "chain_in m (enf e - 3) (m ! (enf e - 3)) es"
    by simp_all
  have lt: "enf e + length (ename e) < hi" using e(3) by (simp add: ecfa_def)
  have "counted m' (int (enf e)) = Some (ename e)"
    using e(2) agree by (intro counted_cong [OF e(5) lt e(4)]) simp
  moreover have "chain_in m' (enf e - 3) (m ! (enf e - 3)) es"
    using e(2,4) lt agree by (intro "2.IH" [OF e(9)]) auto
  moreover have "m' ! (enf e - 3) = m ! (enf e - 3)" "m' ! (enf e - 2) = eimm e" "m' ! (enf e - 1) = esmudge e"
    using agree [of "enf e - 3"] agree [of "enf e - 2"] agree [of "enf e - 1"] e(2,6,7) lt by auto
  ultimately show ?case using e(1-4,8) by simp
qed

lemma chain_in_mono: "chain_in m hi nf es \<Longrightarrow> hi \<le> hi' \<Longrightarrow> hi' \<le> length m \<Longrightarrow> chain_in m hi' nf es"
  by (cases es) auto

text \<open>The chain is as long as there is room for names, and no longer.\<close>

lemma chain_in_length: "chain_in m hi nf es \<Longrightarrow> length es \<le> hi"
proof (induction m hi nf es rule: chain_in.induct)
  case (2 m hi nf e es)
  then show ?case by (auto simp: ecfa_def)
qed simp

lemma dict_ok_appended:
  assumes "dict_ok m k es" and "k + 5 + length name + length thread \<le> length m" and "list_all is_code_point name"
  shows "dict_ok ((grown k m (word_cells (m ! 1) immediate name code_field thread))[1 := int (k + 3)])
     (k + 5 + length name + length thread)
     (\<lparr>ename = name, eimm = (if immediate then 1 else 0), esmudge = 0, enf = k + 3\<rparr> # es)"
    (is "dict_ok ?m' ?k' (?e # es)")
proof -
  let ?w = "word_cells (m ! 1) immediate name code_field thread"
  define m' where "m' = ?m'"
  have dp: "dp_at k m" and k8: "8 \<le> k" and ch: "chain_in m k (m ! 1) es"
    using assms(1) by (auto simp: dict_ok_def)
  have len: "length m' = length m" using assms(2) by (simp add: m'_def)
  have nth: "m' ! i = (if i = 0 then int ?k' else if i = 1 then int (k + 3)
      else if k \<le> i \<and> i < ?k' then ?w ! (i - k) else m ! i)" if "i < length m" for i
    using nth_grown [OF dp, of ?w i] assms(2) that by (auto simp: m'_def nth_list_update)
  have "m' ! (Suc (k + 3) + i) = name ! i" if "i < length name" for i
    using nth [of "Suc (k + 3) + i"] that assms(2) k8 by (simp add: word_cells_def nth_append)
  then have "slice m' (Suc (k + 3)) (Suc (k + 3 + length name)) = name"
    using assms(2) len by (intro nth_equalityI) auto
  moreover have "m' ! (k + 3) = int (length name)"
    using nth [of "k + 3"] assms(2) k8 by (simp add: word_cells_def)
  ultimately have name: "counted m' (int (k + 3)) = Some name"
    unfolding counted_Some using assms(2) len
    by - (rule exI [of _ "k + 3"], rule exI [of _ "length name"], simp)
  have "chain_in m' k (m ! 1) es"
    using assms(2) len nth k8 by (intro chain_in_cong [OF ch]) auto
  with name nth [of k] nth [of "k + 1"] nth [of "k + 2"] nth [of 1] nth [of 0] assms(2,3) k8 len dp dp_at_pos [OF dp]
  have "dict_ok m' ?k' (?e # es)"
    by (auto simp: dict_ok_def dp_at_def ecfa_def word_cells_def)
  then show ?thesis by (simp only: m'_def)
qed

text \<open>The header \<^verbatim>\<open>find\<close> gives for an entry.\<close>

definition header_of :: "int list \<Rightarrow> entry \<Rightarrow> dictionary_header" where
  "header_of m e = \<lparr>hname = ename e, hlink = m ! (enf e - 3), himmediate = (eimm e \<noteq> 0),
     hsmudge = (esmudge e \<noteq> 0), hcfa = int (ecfa e)\<rparr>"

lemma header_of_name [simp]: "hname (header_of m e) = ename e"
  by (simp add: header_of_def)

subsection \<open>The interface\<close>

text \<open>
  \<open>view s\<close> is the list of cells a client may use. Reads give the cell and change nothing, writes
  change the cell and nothing the client sees otherwise.
\<close>

locale store_port =
  fixes rd :: "'s rd_port"
    and wr :: "'s wr_port"
    and good :: "'s \<Rightarrow> bool"
    and view :: "'s \<Rightarrow> int list"
    and same :: "'s \<Rightarrow> 's \<Rightarrow> bool"
  assumes rd_ok: "good s \<Longrightarrow> in_store (view s) a \<Longrightarrow> rd a s = (Inr (view s ! nat a), s)"
    and wr_ok: "good s \<Longrightarrow> in_store (view s) a \<Longrightarrow>
      \<exists>s'. wr a v s = (Inr (), s') \<and> good s' \<and> view s' = (view s)[nat a := v] \<and> same s s'"
    and same_refl: "same s s"
    and same_trans: "same s t \<Longrightarrow> same t u \<Longrightarrow> same s u"
begin

abbreviation yields_to :: "(error, 's, 'a) exec \<Rightarrow> 's \<Rightarrow> 'a \<Rightarrow> int list \<Rightarrow> bool" where
  "yields_to \<equiv> yields good view same"

lemma yields_pure: "good s \<Longrightarrow> view s = ys \<Longrightarrow> yields_to (pure x) s x ys"
  by (simp add: yields_def same_refl)

lemma yields_then:
  assumes "yields_to m s z zs" and "\<And>t. good t \<Longrightarrow> view t = zs \<Longrightarrow> yields_to (f z) t x ys"
  shows "yields_to (chain m f) s x ys"
proof -
  from assms(1) obtain t where t: "m s = (Inr z, t)" "good t" "view t = zs" "same s t"
    by (auto simp: yields_def)
  from assms(2) [OF t(2,3)] obtain u where "f z t = (Inr x, u)" "good u" "view u = ys" "same t u"
    by (auto simp: yields_def)
  with t show ?thesis unfolding yields_def by (auto intro: same_trans)
qed

lemma yields_rd: "good s \<Longrightarrow> in_store (view s) a \<Longrightarrow> view s ! nat a = x \<Longrightarrow> yields_to (rd a) s x (view s)"
  by (simp add: yields_def rd_ok same_refl)

lemma yields_wr: "good s \<Longrightarrow> in_store (view s) a \<Longrightarrow> ys = (view s)[nat a := v] \<Longrightarrow> yields_to (wr a v) s () ys"
  using wr_ok [of s a v] by (simp add: yields_def)

lemma yields_write_chars:
  assumes "good s" and "a + length xs \<le> length (view s)"
  shows "yields_to (write_chars wr (int a) xs) s () (put_cells (view s) a xs)"
  using assms
proof (induction xs arbitrary: a s)
  case Nil
  then show ?case unfolding write_chars.simps by (intro yields_pure) simp_all
next
  case (Cons x xs)
  have "yields_to (write_chars wr (int (Suc a)) xs) t () (put_cells (view s) a (x # xs))"
    if "good t" "view t = (view s)[a := x]" for t
    using Cons.IH [OF that(1), of "Suc a"] Cons.prems(2) that(2) by (simp add: put_cells_Cons)
  with Cons.prems show ?case
    by (auto intro!: yields_then [OF yields_wr] simp: in_store_def add.commute)
qed

lemma yields_counted_write:
  assumes "good s" and "a + 1 + length xs \<le> length (view s)"
  shows "yields_to (counted_write wr (int a) xs) s (int (a + 1 + length xs))
     (put_cells (view s) a (int (length xs) # xs))"
  unfolding counted_write_def
proof (rule yields_then)
  show "yields_to (wr (int a) (int (length xs))) s () ((view s)[a := int (length xs)])"
    using assms by (intro yields_wr) (auto simp: in_store_def)
  fix t assume t: "good t" "view t = (view s)[a := int (length xs)]"
  show "yields_to (chain (write_chars wr (int a + 1) xs) (\<lambda>_. pure (int a + 1 + int (length xs)))) t
      (int (a + 1 + length xs)) (put_cells (view s) a (int (length xs) # xs))"
  proof (rule yields_then)
    show "yields_to (write_chars wr (int a + 1) xs) t () (put_cells (view t) (Suc a) xs)"
      using yields_write_chars [OF t(1), of "Suc a" xs] assms t(2) by (simp add: add.commute)
    fix u assume u: "good u" "view u = put_cells (view t) (Suc a) xs"
    have "int (a + 1 + length xs) = int a + 1 + int (length xs)" by simp
    then show "yields_to (pure (int a + 1 + int (length xs))) u (int (a + 1 + length xs))
        (put_cells (view s) a (int (length xs) # xs))"
      using u t(2) assms(2) by (simp only:) (intro yields_pure, auto simp: put_cells_Cons)
  qed
qed

text \<open>Reads leave the state alone, so their results are stated exactly.\<close>

lemma read_chars_ok:
  assumes "good s" and "a + n \<le> length (view s)" and "list_all is_code_point (slice (view s) a (a + n))"
  shows "read_chars rd (int a) n s = (Inr (slice (view s) a (a + n)), s)"
  using assms
proof (induction n arbitrary: a)
  case 0
  then show ?case by simp
next
  case (Suc n)
  have sl: "slice (view s) a (a + Suc n) = view s ! a # slice (view s) (Suc a) (Suc a + n)"
    using slice_Cons [of a "a + Suc n" "view s"] Suc.prems(2) by simp
  have "rd (int a) s = (Inr (view s ! a), s)"
    using Suc.prems(1,2) rd_ok [of s "int a"] by (simp add: in_store_def)
  moreover have "read_chars rd (int a + 1) n s = (Inr (slice (view s) (Suc a) (Suc a + n)), s)"
    using Suc.IH [of "Suc a"] Suc.prems sl by (simp add: add.commute)
  ultimately show ?case using Suc.prems(3) sl by (simp add: chain_def)
qed

lemma counted_read_ok:
  assumes "good s" and "counted (view s) (int a) = Some xs" and "list_all is_code_point xs"
  shows "counted_read rd (int a) s = (Inr xs, s)"
proof -
  from assms(2) obtain n where n: "view s ! a = int n" "a + n < length (view s)"
      "xs = slice (view s) (Suc a) (Suc (a + n))"
    by (auto simp: counted_Some)
  have "rd (int a) s = (Inr (int n), s)"
    using assms(1) n(1,2) rd_ok [of s "int a"] by (simp add: in_store_def)
  moreover have "read_chars rd (int a + 1) n s = (Inr xs, s)"
    using read_chars_ok [OF assms(1), of "Suc a" n] assms(3) n by (simp add: add.commute)
  ultimately show ?thesis by (simp add: counted_read_def chain_def)
qed

lemma yields_append_cell:
  assumes "good s" and "dp_at k (view s)" and "k < length (view s)"
  shows "yields_to (append_cell rd wr v) s (int k) (grown k (view s) [v])"
  unfolding append_cell_def get_dp_def set_dp_def
proof (rule yields_then [OF yields_rd])
  fix t assume t: "good t" "view t = view s"
  show "yields_to (chain (wr (int k) v) (\<lambda>_. chain (wr DP_ADDR (int k + 1)) (\<lambda>_. pure (int k)))) t (int k)
      (grown k (view s) [v])"
  proof (rule yields_then [OF yields_wr])
    fix u assume u: "good u" "view u = (view s)[k := v]"
    show "yields_to (chain (wr DP_ADDR (int k + 1)) (\<lambda>_. pure (int k))) u (int k) (grown k (view s) [v])"
      using assms(2,3) u
      by (intro yields_then [OF yields_wr] yields_pure)
        (auto simp: in_store_def dp_at_def grown_def put_cells_Cons add.commute)
  qed (use assms t in \<open>auto simp: in_store_def\<close>)
qed (use assms in \<open>auto simp: in_store_def dp_at_def\<close>)

lemma yields_append_cells:
  assumes "good s" and "dp_at k (view s)" and "k + length vs \<le> length (view s)"
  shows "yields_to (append_cells rd wr vs) s () (grown k (view s) vs)"
  using assms
proof (induction vs arbitrary: s k)
  case Nil
  then have "grown k (view s) [] = view s" by (simp add: grown_Nil)
  with yields_pure [OF Nil(1) refl, of "()"] show ?case by (simp only: append_cells.simps)
next
  case (Cons v vs)
  show ?case
    unfolding append_cells.simps
  proof (rule yields_then [OF yields_append_cell])
    fix t assume t: "good t" "view t = grown k (view s) [v]"
    have "yields_to (append_cells rd wr vs) t () (grown (k + 1) (view t) vs)"
      using Cons.prems t dp_at_grown [of k "view s" "[v]"] by (intro Cons.IH) simp_all
    with grown_grown [of k "view s" "[v]" vs] Cons.prems t(2)
    show "yields_to (append_cells rd wr vs) t () (grown k (view s) (v # vs))" by simp
  qed (use Cons.prems in auto)
qed

text \<open>Appending at a state that has appended \<open>vs\<close> since the pointer was at \<open>k\<close>.\<close>

lemma yields_append_more:
  assumes "good t" and "view t = grown k m vs" and "dp_at k m" and "k + length vs < length m"
  shows "yields_to (append_cell rd wr v) t (int (k + length vs)) (grown k m (vs @ [v]))"
  using yields_append_cell [of t "k + length vs" v] assms
    dp_at_grown [of k m vs] grown_grown [of k m vs "[v]"] by simp

lemma yields_here_more:
  assumes "good t" and "view t = grown k m vs" and "dp_at k m" and "k + length vs \<le> length m"
  shows "yields_to (here rd) t (int (k + length vs)) (grown k m vs)"
  using yields_rd [of t 0 "int (k + length vs)"] assms dp_at_grown [of k m vs] dp_at_pos [of k m]
  by (simp add: here_def get_dp_def in_store_def dp_at_def)

lemma yields_name_more:
  assumes "good t" and "view t = grown k m vs" and "dp_at k m"
    and "k + length vs + 1 + length name \<le> length m"
  shows "yields_to (chain (counted_write wr (int (k + length vs)) name) (set_dp wr)) t ()
    (grown k m (vs @ int (length name) # name))"
proof (rule yields_then [OF yields_counted_write])
  let ?ws = "int (length name) # name"
  fix u assume u: "good u" "view u = put_cells (view t) (k + length vs) ?ws"
  have "grown k m (vs @ ?ws) = (view u)[0 := int (k + length vs + 1 + length name)]"
    using u assms grown_grown [of k m vs ?ws] by (simp add: grown_def [of "k + length vs"])
  with u assms show "yields_to (set_dp wr (int (k + length vs + 1 + length name))) u () (grown k m (vs @ ?ws))"
    unfolding set_dp_def by (intro yields_wr) (auto simp: in_store_def dp_at_def)
qed (use assms in auto)

lemma yields_append_word:
  assumes "good s" and "dp_at k (view s)" and "k + 5 + length name + length thread \<le> length (view s)"
  shows "yields_to (append_word rd wr name code_field thread immediate) s (int (k + 4 + length name))
     ((grown k (view s) (word_cells (view s ! 1) immediate name code_field thread))[1 := int (k + 3)])"
proof -
  define imm :: int where "imm = (if immediate then 1 else 0)"
  let ?m = "view s" and ?nf = "int (k + 3)"
    and ?cfa = "int (k + 4 + length name)"
  let ?h1 = "[] @ [?m ! 1]"
  let ?h2 = "?h1 @ [imm]"
  let ?h3 = "?h2 @ [0]"
  let ?h4 = "?h3 @ int (length name) # name"
  let ?h5 = "?h4 @ [code_field]"
  let ?m6 = "grown k ?m (?h5 @ thread)"
  let ?w = "?m6[1 := ?nf]"
  let ?c9 = "chain (set_latest wr ?nf) (\<lambda>_. pure ?cfa)"
  let ?c8 = "chain (append_cells rd wr thread) (\<lambda>_. ?c9)"
  let ?c7 = "chain (append_cell rd wr code_field) (\<lambda>_. ?c8)"
  note ok = assms(2) and len = assms(3)
  have m: "view s = grown k ?m []" "1 < length ?m" using ok len by (auto simp: grown_Nil dp_at_def)
  have c9: "yields_to ?c9 t ?cfa ?w" if "good t" "view t = ?m6" for t
    unfolding set_latest_def by (rule yields_then [OF yields_wr])
      (use that m(2) len in \<open>auto simp: in_store_def intro: yields_pure\<close>)
  have c8: "yields_to ?c8 t ?cfa ?w" if "good t" "view t = grown k ?m ?h5" for t
  proof (rule yields_then [OF yields_append_cells c9])
    show "view u = ?m6" if "view u = grown (k + length ?h5) (view t) thread" for u
      using that \<open>view t = _\<close> grown_grown [OF ok, of ?h5 thread] len by simp
  qed (use that dp_at_grown [OF ok, of ?h5] len in auto)
  have c7: "yields_to ?c7 t ?cfa ?w" if "good t" "view t = grown k ?m ?h4" for t
    by (rule yields_then [OF yields_append_more [OF that ok] c8]) (use len in auto)
  have rest: "yields_to (chain (here rd) (\<lambda>nf. chain (counted_write wr nf name) (\<lambda>past. chain (set_dp wr past)
      (\<lambda>_. chain (here rd) (\<lambda>cfa. chain (append_cell rd wr code_field) (\<lambda>_.
      chain (append_cells rd wr thread) (\<lambda>_. chain (set_latest wr nf) (\<lambda>_. pure cfa)))))))) t ?cfa ?w"
    if "good t" "view t = grown k ?m ?h3" for t
  proof (rule yields_then [OF yields_here_more [OF that ok]])
    fix u assume u: "good u" "view u = grown k ?m ?h3"
    have "yields_to (chain (chain (counted_write wr (int (k + length ?h3)) name) (set_dp wr))
        (\<lambda>_. chain (here rd) (\<lambda>cfa. chain (append_cell rd wr code_field) (\<lambda>_.
        chain (append_cells rd wr thread) (\<lambda>_. chain (set_latest wr ?nf) (\<lambda>_. pure cfa)))))) u ?cfa ?w"
    proof (rule yields_then [OF yields_name_more [OF u ok]])
      fix t' assume t': "good t'" "view t' = grown k ?m ?h4"
      have cfa: "int (k + length ?h4) = ?cfa" by simp
      show "yields_to (chain (here rd) (\<lambda>cfa. chain (append_cell rd wr code_field) (\<lambda>_.
          chain (append_cells rd wr thread) (\<lambda>_. chain (set_latest wr ?nf) (\<lambda>_. pure cfa))))) t' ?cfa ?w"
      proof (rule yields_then [OF yields_here_more [OF t' ok]])
        fix v assume v: "good v" "view v = grown k ?m ?h4"
        show "yields_to (chain (append_cell rd wr code_field) (\<lambda>_. chain (append_cells rd wr thread)
            (\<lambda>_. chain (set_latest wr ?nf) (\<lambda>_. pure (int (k + length ?h4)))))) v ?cfa ?w"
          using c7 [OF v] by (simp only: cfa)
      qed (use len in auto)
    qed (use len in auto)
    then show "yields_to (chain (counted_write wr (int (k + length ?h3)) name) (\<lambda>past. chain (set_dp wr past)
      (\<lambda>_. chain (here rd) (\<lambda>cfa. chain (append_cell rd wr code_field) (\<lambda>_.
      chain (append_cells rd wr thread) (\<lambda>_. chain (set_latest wr (int (k + length ?h3))) (\<lambda>_. pure cfa)))))))
      u ?cfa ?w"
      by (simp add: chain_assoc add.commute [of _ 3])
  qed (use len in auto)
  have "yields_to (append_word rd wr name code_field thread immediate) s ?cfa ?w"
    unfolding append_word_def imm_def [symmetric]
    apply (rule yields_then [where z = "view s ! 1" and zs = "view s"])
     apply (use yields_rd [of s 1] assms(1) m(2) in \<open>simp add: get_latest_def in_store_def\<close>)
    apply (rule yields_then [OF yields_append_more [of _ k ?m "[]"]])
        apply (use m ok len in auto)[4]
    apply (rule yields_then [OF yields_append_more [of _ k ?m ?h1]])
        apply (use m ok len in auto)[4]
    apply (rule yields_then [OF yields_append_more [of _ k ?m ?h2]])
        apply (use m ok len in auto)[4]
    apply (rule rest)
     apply auto
    done
  then show ?thesis by (simp add: word_cells_def imm_def [symmetric])
qed

lemma yields_dictionary_new:
  assumes "good s" and "1 < length (view s)"
  shows "yields_to (dictionary_new wr) s () ((view s)[0 := 8, 1 := 0])"
  unfolding dictionary_new_def set_dp_def set_latest_def
  by (rule yields_then [OF yields_wr yields_wr]) (use assms in \<open>auto simp: in_store_def\<close>)

lemma read_header_ok:
  assumes "good s" and "chain_in (view s) hi nf (e # es)"
  shows "read_header rd nf s = (Inr (header_of (view s) e), s)"
proof -
  from assms(2) have e: "nf = int (enf e)" "11 \<le> enf e" "ecfa e < length (view s)"
      "counted (view s) (int (enf e)) = Some (ename e)" "list_all is_code_point (ename e)"
      "view s ! (enf e - 2) = eimm e" "view s ! (enf e - 1) = esmudge e"
    by auto
  have cells: "rd (int (enf e) - 3) s = (Inr (view s ! (enf e - 3)), s)"
      "rd (int (enf e) - 2) s = (Inr (eimm e), s)" "rd (int (enf e) - 1) s = (Inr (esmudge e), s)"
    using assms(1) e rd_ok [of s "int (enf e) - 3"] rd_ok [of s "int (enf e) - 2"] rd_ok [of s "int (enf e) - 1"]
    by (auto simp: in_store_def ecfa_def nat_diff_distrib)
  show ?thesis
    using counted_read_ok [OF assms(1) e(4,5)] cells
    by (simp add: read_header_def e(1) chain_def header_of_def ecfa_def)
qed

lemma find_loop_ok:
  assumes "good s" and "chain_in (view s) hi nf es"
  shows "find_loop rd name nf s =
     Some (Inr (map_option (header_of (view s)) (List.find (\<lambda>e. ename e = name) es)), s)"
  using assms(2)
proof (induction es arbitrary: hi nf)
  case Nil
  then show ?case by (subst find_loop.simps) simp
next
  case (Cons e es)
  then have e: "nf = int (enf e)" "11 \<le> enf e" "enf e < length (view s)"
      "chain_in (view s) (enf e - 3) (view s ! (enf e - 3)) es"
    by (auto simp: ecfa_def)
  have link: "rd (nf - 3) s = (Inr (view s ! (enf e - 3)), s)"
    using assms(1) e rd_ok [of s "nf - 3"] by (auto simp: in_store_def nat_diff_distrib)
  show ?case
    using e(1,2) read_header_ok [OF assms(1) Cons.prems] link Cons.IH [OF e(4)]
    by (subst find_loop.simps) simp
qed

lemma dictionary_find_ok:
  assumes "good s" and "dict_ok (view s) k es"
  shows "dictionary_find rd name s =
     Some (Inr (map_option (header_of (view s)) (List.find (\<lambda>e. ename e = name) es)), s)"
proof -
  have "rd 1 s = (Inr (view s ! 1), s)"
    using assms rd_ok [of s 1] by (auto simp: in_store_def dict_ok_def dp_at_def)
  with find_loop_ok [OF assms(1), of k "view s ! 1" es name] assms(2) show ?thesis
    by (simp add: dictionary_find_def get_latest_def dict_ok_def)
qed

lemma headers_loop_ok:
  assumes "good s" and "chain_in (view s) hi nf es"
  shows "headers_loop rd nf s = Some (Inr (map (header_of (view s)) es), s)"
  using assms(2)
proof (induction es arbitrary: hi nf)
  case Nil
  then show ?case by (subst headers_loop.simps) simp
next
  case (Cons e es)
  then have e: "nf = int (enf e)" "11 \<le> enf e" "enf e < length (view s)"
      "chain_in (view s) (enf e - 3) (view s ! (enf e - 3)) es"
    by (auto simp: ecfa_def)
  have link: "rd (nf - 3) s = (Inr (view s ! (enf e - 3)), s)"
    using assms(1) e rd_ok [of s "nf - 3"] by (auto simp: in_store_def nat_diff_distrib)
  show ?case
    using e(1,2) read_header_ok [OF assms(1) Cons.prems] link Cons.IH [OF e(4)]
    by (subst headers_loop.simps) simp
qed

lemma headers_ok:
  assumes "good s" and "dict_ok (view s) k es"
  shows "headers rd s = Some (Inr (map (header_of (view s)) es), s)"
proof -
  have "rd 1 s = (Inr (view s ! 1), s)"
    using assms rd_ok [of s 1] by (auto simp: in_store_def dict_ok_def dp_at_def)
  with headers_loop_ok [OF assms(1), of k "view s ! 1" es] assms(2) show ?thesis
    by (simp add: headers_def get_latest_def dict_ok_def)
qed

text \<open>A counted string comes back as it was written.\<close>

lemma counted_roundtrip:
  assumes "good s" and "a + 1 + length xs \<le> length (view s)" and "list_all is_code_point xs"
  shows "\<exists>s'. counted_write wr (int a) xs s = (Inr (int (a + 1 + length xs)), s') \<and>
     counted_read rd (int a) s' = (Inr xs, s') \<and> same s s'"
proof -
  obtain s' where s': "counted_write wr (int a) xs s = (Inr (int (a + 1 + length xs)), s')" "good s'" "same s s'"
      "view s' = put_cells (view s) a (int (length xs) # xs)"
    using yields_counted_write [OF assms(1,2)] by (auto simp: yields_def)
  have "counted (view s') (int a) = Some xs"
    using counted_put_cells [of a xs "view s"] assms(2) by (simp add: s'(4))
  from counted_read_ok [OF s'(2) this assms(3)] s' show ?thesis by blast
qed

text \<open>A new word is found, and hides an older one of the same name only.\<close>

lemma append_word_found:
  assumes "good s" and "dict_ok (view s) k es" and "k + 5 + length name + length thread \<le> length (view s)"
    and "list_all is_code_point name"
  shows "\<exists>s'. append_word rd wr name code_field thread imm s = (Inr (int (k + 4 + length name)), s') \<and> good s' \<and> same s s' \<and>
     dict_ok (view s') (k + 5 + length name + length thread)
       (\<lparr>ename = name, eimm = (if imm then 1 else 0), esmudge = 0, enf = k + 3\<rparr> # es) \<and>
     (\<forall>x. \<exists>h. dictionary_find rd x s' = Some (Inr h, s') \<and>
        map_option hcfa h = (if x = name then Some (int (k + 4 + length name))
          else map_option (\<lambda>e. int (ecfa e)) (List.find (\<lambda>e. ename e = x) es)))"
proof -
  let ?e = "\<lparr>ename = name, eimm = (if imm then 1 else 0), esmudge = 0, enf = k + 3\<rparr>"
  have dp: "dp_at k (view s)" using assms(2) by (simp add: dict_ok_def)
  from yields_append_word [OF assms(1) dp assms(3), of code_field imm] obtain s' where
    s': "append_word rd wr name code_field thread imm s = (Inr (int (k + 4 + length name)), s')" "good s'" "same s s'"
      "view s' = (grown k (view s) (word_cells (view s ! 1) imm name code_field thread))[1 := int (k + 3)]"
    by (auto simp: yields_def)
  have d: "dict_ok (view s') (k + 5 + length name + length thread) (?e # es)"
    unfolding s'(4) by (rule dict_ok_appended [OF assms(2-4)])
  have "\<exists>h. dictionary_find rd x s' = Some (Inr h, s') \<and>
      map_option hcfa h = (if x = name then Some (int (k + 4 + length name))
        else map_option (\<lambda>e. int (ecfa e)) (List.find (\<lambda>e. ename e = x) es))" for x
    using dictionary_find_ok [OF s'(2) d, of x]
    by (auto simp: header_of_def option.map_comp comp_def ecfa_def)
  with s' d show ?thesis by blast
qed

end

subsection \<open>The cells of the data path\<close>

text \<open>Everything of a machine but the cells below the stacks.\<close>

definition same_but_cells :: "'a datapath_scheme \<Rightarrow> 'a datapath_scheme \<Rightarrow> bool" where
  "same_but_cells s t \<longleftrightarrow> ds t = ds s \<and> rs t = rs s \<and> dstk t = dstk s \<and> rstk t = rstk s \<and>
     length (mem t) = length (mem s) \<and> datapath.more t = datapath.more s"

interpretation shared_memory: store_port load_cell store_cell layout_ok cells same_but_cells
proof unfold_locales
  show "load_cell a s = (Inr (cells s ! nat a), s)" if "layout_ok s" "in_store (cells s) a" for s :: "'a datapath_scheme" and a
    using that by (intro load_cell_low) (auto simp: in_store_def)
  show "\<exists>s'. store_cell a v s = (Inr (), s') \<and> layout_ok s' \<and> cells s' = (cells s)[nat a := v] \<and> same_but_cells s s'"
    if "layout_ok s" "in_store (cells s) a" for s :: "'a datapath_scheme" and a v
    using store_cell_low [of s a v] that by (auto simp: in_store_def same_but_cells_def)
qed (auto simp: same_but_cells_def)

subsection \<open>The memory dictionary\<close>

text \<open>
  C12. Appending a word to a well-formed dictionary, with room for it, keeps it well-formed and gives the code
  field address; \<^verbatim>\<open>find\<close> then finds the new word under its name and every other name as before.
\<close>

theorem memory_dictionary_roundtrip:
  fixes s :: "'a datapath_scheme"
  assumes "layout_ok s" and "dict_ok (cells s) k es" and "k + 5 + length name + length thread \<le> length (cells s)"
    and "list_all is_code_point name"
  shows "\<exists>s'. append_word load_cell store_cell name code_field thread imm s = (Inr (int (k + 4 + length name)), s') \<and>
     layout_ok s' \<and> ds s' = ds s \<and> rs s' = rs s \<and>
     dict_ok (cells s') (k + 5 + length name + length thread)
       (\<lparr>ename = name, eimm = (if imm then 1 else 0), esmudge = 0, enf = k + 3\<rparr> # es) \<and>
     (\<forall>x. \<exists>h. dictionary_find load_cell x s' = Some (Inr h, s') \<and>
        map_option hcfa h = (if x = name then Some (int (k + 4 + length name))
          else map_option (\<lambda>e. int (ecfa e)) (List.find (\<lambda>e. ename e = x) es)))"
  using shared_memory.append_word_found [OF assms, of code_field imm] unfolding same_but_cells_def by blast

lemma fresh_dictionary:
  "layout_ok (snd (dictionary_new store_cell machine_new))"
  "dict_ok (cells (snd (dictionary_new store_cell machine_new))) 8 []"
  "length (cells (snd (dictionary_new store_cell machine_new))) = 2048"
proof -
  have "yields layout_ok cells same_but_cells (dictionary_new store_cell) machine_new () ((cells machine_new)[0 := 8, 1 := 0])"
    by (rule shared_memory.yields_dictionary_new) simp_all
  then obtain s where s: "dictionary_new store_cell machine_new = (Inr (), s)" "layout_ok s"
      "cells s = (replicate 2048 0)[0 := 8, 1 := 0]"
    by (auto simp: yields_def)
  then show "layout_ok (snd (dictionary_new store_cell machine_new))"
    "dict_ok (cells (snd (dictionary_new store_cell machine_new))) 8 []"
    "length (cells (snd (dictionary_new store_cell machine_new))) = 2048"
    by (simp_all add: dict_ok_def dp_at_def)
qed

theorem memory_dictionary_roundtrip_witness:
  "\<exists>s. append_word load_cell store_cell [68, 85, 80] 19 [] False (snd (dictionary_new store_cell machine_new)) = (Inr 15, s) \<and>
     (\<exists>h. dictionary_find load_cell [68, 85, 80] s = Some (Inr (Some h), s) \<and> hcfa h = 15)"
proof -
  let ?s = "snd (dictionary_new store_cell machine_new)"
  have "list_all is_code_point [68, 85, 80]" by (simp add: is_code_point_def)
  from memory_dictionary_roundtrip [OF fresh_dictionary(1,2) _ this, of "[]" 19 False] fresh_dictionary(3)
  obtain s where s: "append_word load_cell store_cell [68, 85, 80] 19 [] False ?s = (Inr 15, s)"
      "\<exists>h. dictionary_find load_cell [68, 85, 80] s = Some (Inr h, s) \<and> map_option hcfa h = Some 15"
    by fastforce
  then show ?thesis by auto
qed

text \<open>
  A counted string written to the cells is read back, character for character, with its length in front;
  the write gives the address past it.
\<close>

theorem memory_counted_roundtrip:
  fixes s :: "'a datapath_scheme"
  assumes "layout_ok s" and "a + 1 + length xs \<le> length (cells s)" and "list_all is_code_point xs"
  shows "\<exists>s'. counted_write store_cell (int a) xs s = (Inr (int (a + 1 + length xs)), s') \<and>
     counted_read load_cell (int a) s' = (Inr xs, s') \<and> ds s' = ds s \<and> rs s' = rs s"
  using shared_memory.counted_roundtrip [OF assms] by (auto simp: same_but_cells_def)

theorem memory_counted_roundtrip_witness:
  "\<exists>s. counted_write store_cell 100 [72, 105] machine_new = (Inr 103, s) \<and> counted_read load_cell 100 s = (Inr [72, 105], s)"
  using memory_counted_roundtrip [of machine_new 100 "[72, 105]"] by (auto simp: is_code_point_def)

text \<open>
  C30. \<^verbatim>\<open>headers\<close> ends on a well-formed dictionary and gives every word's header, newest first, without
  changing the state.
\<close>

theorem memory_headers:
  fixes s :: "'a datapath_scheme"
  assumes "layout_ok s" and "dict_ok (cells s) k es"
  shows "headers load_cell s = Some (Inr (map (header_of (cells s)) es), s)"
  by (rule shared_memory.headers_ok [OF assms])

theorem memory_headers_witness:
  "\<exists>s h. append_word load_cell store_cell [68, 85, 80] 19 [] False (snd (dictionary_new store_cell machine_new)) = (Inr 15, s) \<and>
     headers load_cell s = Some (Inr [h], s) \<and> hcfa h = 15"
proof -
  let ?s = "snd (dictionary_new store_cell machine_new)"
  have "list_all is_code_point [68, 85, 80]" by (simp add: is_code_point_def)
  from shared_memory.append_word_found [OF fresh_dictionary(1,2) _ this, of "[]" 19 False] fresh_dictionary(3)
  obtain s where s: "append_word load_cell store_cell [68, 85, 80] 19 [] False ?s = (Inr 15, s)" "layout_ok s"
      "dict_ok (cells s) 16 [\<lparr>ename = [68, 85, 80], eimm = 0, esmudge = 0, enf = 11\<rparr>]"
    by fastforce
  from memory_headers [OF s(2,3)] s(1) show ?thesis by (simp add: header_of_def ecfa_def)
qed

end
