(* ===== verification/Builder.thy ===== *)
theory Builder
  imports KernelImage Dictionary
begin

section \<open>The kernel builder\<close>

text \<open>
  \<^verbatim>\<open>services/kernel/builder.py\<close>: assemble the kernel, install its words and the caller's colon words,
  write the boot thread. The builder is defined over the two ports it is injected with, the assembler
  and the dictionary; the locale \<open>dictionary_port\<close> is what it relies on, and the memory dictionary over
  the shared cells satisfies it. \<open>layout_plan\<close> says, without any memory, where everything goes; the
  builder's result is that plan, written into the dictionary.
\<close>

subsection \<open>The code\<close>

type_synonym 's append_word_port = "pystr \<Rightarrow> program_index \<Rightarrow> address list \<Rightarrow> bool \<Rightarrow> (error, 's, address) exec"
type_synonym 's append_cell_port = "int \<Rightarrow> (error, 's, address) exec"
type_synonym cfa_table = "string \<rightharpoonup> address"

definition START_LABEL :: string where "START_LABEL = ''START''"
definition EXIT_WORD :: string where "EXIT_WORD = ''EXIT''"

definition cfa_of :: "cfa_table \<Rightarrow> string \<Rightarrow> error + address" where
  "cfa_of cfas name =
     (case cfas name of Some a \<Rightarrow> Inr a | None \<Rightarrow> Inl (KernelError (NotInstalled name)))"

fun install :: "'s append_word_port \<Rightarrow> label_table \<Rightarrow> program_index \<Rightarrow> word_spec \<Rightarrow> cfa_table \<Rightarrow> (error, 's, cfa_table) exec" where
  "install aw tab enter (CodeWord w) cfas =
     (case tab (cw_routine_label w) of
        None \<Rightarrow> raise (KeyError (cw_routine_label w))
      | Some k \<Rightarrow> chain (aw (codes (cw_name w)) k [] (cw_immediate w)) (\<lambda>a. pure (cfas(cw_name w \<mapsto> a))))"
| "install aw tab enter (ColonWord w) cfas =
     chain (lift (gather (cfa_of cfas) (col_words w @ [EXIT_WORD]))) (\<lambda>thread.
     chain (aw (codes (col_name w)) enter thread (col_immediate w)) (\<lambda>a. pure (cfas(col_name w \<mapsto> a))))"

fun install_all :: "'s append_word_port \<Rightarrow> label_table \<Rightarrow> program_index \<Rightarrow> word_spec list \<Rightarrow> cfa_table \<Rightarrow> (error, 's, cfa_table) exec" where
  "install_all aw tab enter [] cfas = pure cfas"
| "install_all aw tab enter (w # ws) cfas =
     chain (install aw tab enter w cfas) (\<lambda>cfas'. install_all aw tab enter ws cfas')"

fun item_cell :: "cfa_table \<Rightarrow> thread_item \<Rightarrow> error + cell" where
  "item_cell cfas (WordReference name) = cfa_of cfas name"
| "item_cell cfas (LiteralCell v) = Inr v"

fun write_thread :: "'s append_cell_port \<Rightarrow> cfa_table \<Rightarrow> thread_item list \<Rightarrow> (error, 's, unit) exec" where
  "write_thread ac cfas [] = pure ()"
| "write_thread ac cfas (it # items) =
     chain (lift (item_cell cfas it)) (\<lambda>v. chain (ac v) (\<lambda>_. write_thread ac cfas items))"

definition build ::
  "assembling_port \<Rightarrow> 's append_word_port \<Rightarrow> 's append_cell_port \<Rightarrow> (error, 's, address) exec \<Rightarrow>
   colon_word list \<Rightarrow> thread_item list \<Rightarrow> (error, 's, kernel_image) exec" where
  "build asm aw ac hr colon_words boot =
     chain (lift (asm KERNEL_SOURCE)) (\<lambda>a.
       if alabels a START_LABEL \<noteq> Some 0 then raise (KernelError StartMisplaced)
       else (case alabels a ENTER_LABEL of
               None \<Rightarrow> raise (KeyError ENTER_LABEL)
             | Some enter \<Rightarrow>
                 chain (install_all aw (alabels a) enter (map CodeWord CODE_WORDS @ map ColonWord colon_words) (\<lambda>_. None)) (\<lambda>cfas.
                 chain hr (\<lambda>boot_ip.
                 chain (write_thread ac cfas boot) (\<lambda>_.
                   pure \<lparr>kprogram = aprogram a, kword_cfas = cfas, kboot_ip = boot_ip\<rparr>)))))"

text \<open>\<^verbatim>\<open>boot_thread\<close>: a mix of names and integers, here the two injections of a sum type.\<close>

definition boot_thread :: "(string + int) list \<Rightarrow> thread_item list" where
  "boot_thread = map (case_sum WordReference LiteralCell)"

subsection \<open>The interface\<close>

text \<open>
  What a dictionary promises its client: a new word's header, code field and thread go to the next free
  cells, its address comes back, and nothing already there changes. \<open>view\<close> gives the cells.
\<close>

locale dictionary_port =
  fixes aw :: "'s append_word_port"
    and ac :: "'s append_cell_port"
    and hr :: "(error, 's, address) exec"
    and good :: "'s \<Rightarrow> bool"
    and view :: "'s \<Rightarrow> int list"
    and same :: "'s \<Rightarrow> 's \<Rightarrow> bool"
  assumes word_appended: "good s \<Longrightarrow> dp_at k (view s) \<Longrightarrow> k + 5 + length name + length thread \<le> length (view s) \<Longrightarrow>
      yields good view same (aw name code thread imm) s (int (k + 4 + length name))
        ((grown k (view s) (word_cells (view s ! 1) imm name code thread))[1 := int (k + 3)])"
    and cell_appended: "good s \<Longrightarrow> dp_at k (view s) \<Longrightarrow> k < length (view s) \<Longrightarrow>
      yields good view same (ac v) s (int k) (grown k (view s) [v])"
    and here_read: "good s \<Longrightarrow> dp_at k (view s) \<Longrightarrow> hr s = (Inr (int k), s)"
    and dict_refl: "same s s"
    and dict_trans: "same s t \<Longrightarrow> same t u \<Longrightarrow> same s u"

text \<open>A word in place: its code field and thread, between the cells 8 and \<open>hi\<close>.\<close>

record placement =
  pcfa :: nat
  pcode :: int
  pthread :: "int list"

definition placed :: "int list \<Rightarrow> nat \<Rightarrow> placement \<Rightarrow> bool" where
  "placed m hi p \<longleftrightarrow> 8 \<le> pcfa p \<and> pcfa p + 1 + length (pthread p) \<le> hi \<and> hi \<le> length m \<and>
     m ! pcfa p = pcode p \<and> slice m (pcfa p + 1) (pcfa p + 1 + length (pthread p)) = pthread p"

definition agree_on :: "nat \<Rightarrow> nat \<Rightarrow> int list \<Rightarrow> int list \<Rightarrow> bool" where
  "agree_on lo hi m m' \<longleftrightarrow> length m' = length m \<and> (\<forall>i. lo \<le> i \<and> i < hi \<longrightarrow> m' ! i = m ! i)"

lemma slice_agree: "agree_on lo hi m m' \<Longrightarrow> lo \<le> i \<Longrightarrow> j \<le> hi \<Longrightarrow> j \<le> length m \<Longrightarrow> slice m' i j = slice m i j"
  by (rule nth_equalityI) (auto simp: agree_on_def)

lemma placed_agree: "placed m hi p \<Longrightarrow> agree_on 8 hi m m' \<Longrightarrow> placed m' hi p"
  using slice_agree [of 8 hi m m' "pcfa p + 1" "pcfa p + 1 + length (pthread p)"]
  by (simp add: placed_def) (simp add: agree_on_def)

lemma placed_mono: "placed m hi p \<Longrightarrow> hi \<le> hi' \<Longrightarrow> hi' \<le> length m \<Longrightarrow> placed m hi' p"
  by (simp add: placed_def)

lemma all_placed_kept:
  assumes "list_all (\<lambda>x. placed m k (snd x)) es" and "agree_on 8 k m m'" and "k \<le> k'" and "k' \<le> length m"
  shows "list_all (\<lambda>x. placed m' k' (snd x)) es"
proof -
  have "placed m' k' p" if "placed m k p" for p
    using placed_mono [OF placed_agree [OF that assms(2)] assms(3)] assms(2,4) by (simp add: agree_on_def)
  with assms(1) show ?thesis by (simp add: list_all_iff)
qed

lemma agree_trans: "agree_on 8 k m m' \<Longrightarrow> agree_on 8 k' m' m'' \<Longrightarrow> k \<le> k' \<Longrightarrow> agree_on 8 k m m''"
  by (auto simp: agree_on_def)

subsection \<open>The plan\<close>

fun spec_name :: "word_spec \<Rightarrow> string" where
  "spec_name (CodeWord w) = cw_name w"
| "spec_name (ColonWord w) = col_name w"

fun spec_immediate :: "word_spec \<Rightarrow> bool" where
  "spec_immediate (CodeWord w) = cw_immediate w"
| "spec_immediate (ColonWord w) = col_immediate w"

fun spec_body :: "label_table \<Rightarrow> cfa_table \<Rightarrow> word_spec \<Rightarrow> error + (int \<times> int list)" where
  "spec_body tab cfas (CodeWord w) =
     (case tab (cw_routine_label w) of None \<Rightarrow> Inl (KeyError (cw_routine_label w)) | Some k \<Rightarrow> Inr (k, []))"
| "spec_body tab cfas (ColonWord w) =
     attempt (gather (cfa_of cfas) (col_words w @ [EXIT_WORD])) (\<lambda>thread. Inr (7, thread))"

text \<open>Next free cell, address table, and what stands where, newest first.\<close>

type_synonym plan = "nat \<times> cfa_table \<times> (entry \<times> placement) list"

definition plan_word :: "label_table \<Rightarrow> word_spec \<Rightarrow> plan \<Rightarrow> error + plan" where
  "plan_word tab w p =
     (let (k, cfas, es) = p; name = codes (spec_name w) in
      attempt (spec_body tab cfas w) (\<lambda>(code, thread).
        Inr (k + 5 + length name + length thread, cfas(spec_name w \<mapsto> int (k + 4 + length name)),
          (\<lparr>ename = name, eimm = (if spec_immediate w then 1 else 0), esmudge = 0, enf = k + 3\<rparr>,
           \<lparr>pcfa = k + 4 + length name, pcode = code, pthread = thread\<rparr>) # es)))"

fun plan_words :: "label_table \<Rightarrow> word_spec list \<Rightarrow> plan \<Rightarrow> error + plan" where
  "plan_words tab [] p = Inr p"
| "plan_words tab (w # ws) p = attempt (plan_word tab w p) (plan_words tab ws)"

lemma codes_code_points [simp]: "list_all is_code_point (codes s)"
proof (induction s)
  case (Cons c s)
  have "(of_char c :: int) < 256" "0 \<le> (of_char c :: int)"
    by (simp_all add: of_char_def)
  with Cons show ?case by (simp add: is_code_point_def)
qed simp

lemma plan_words_grows: "plan_words tab ws (k, cfas, es) = Inr (k', cfas', es') \<Longrightarrow> k \<le> k'"
proof (induction ws arbitrary: k cfas es)
  case (Cons w ws)
  then show ?case by (fastforce simp: plan_word_def attempt_eq_Inr Let_def)
qed simp

text \<open>The cells a word takes.\<close>

fun spec_room :: "word_spec \<Rightarrow> nat" where
  "spec_room (CodeWord w) = 5 + length (cw_name w)"
| "spec_room (ColonWord w) = 5 + length (col_name w) + Suc (length (col_words w))"

lemma plan_word_room: "plan_word tab w (k, cfas, es) = Inr (k', cfas', es') \<Longrightarrow> k' = k + spec_room w"
  by (cases w) (auto simp: plan_word_def attempt_eq_Inr Let_def gather_eq_Inr dest: list_all2_lengthD split: option.splits)

lemma plan_words_room: "plan_words tab ws (k, cfas, es) = Inr (k', cfas', es') \<Longrightarrow> k' = k + sum_list (map spec_room ws)"
proof (induction ws arbitrary: k cfas es)
  case (Cons w ws)
  then show ?case by (fastforce simp: attempt_eq_Inr dest: plan_word_room)
qed simp

text \<open>The state of the dictionary after a plan.\<close>

definition plan_done :: "int list \<Rightarrow> plan \<Rightarrow> bool" where
  "plan_done m p \<longleftrightarrow>
     (let (k, cfas, es) = p in
      dict_ok m k (map fst es) \<and> list_all (\<lambda>x. placed m k (snd x)) es)"

lemma plan_done_word:
  fixes code :: int and imm :: bool
  assumes "plan_done m (k, cfas, es)" and "k + 5 + length name + length thread \<le> length m"
    and "list_all is_code_point name"
  defines "m' \<equiv> (grown k m (word_cells (m ! 1) imm name code thread))[1 := int (k + 3)]"
  shows "plan_done m' (k + 5 + length name + length thread, cfas',
     (\<lparr>ename = name, eimm = (if imm then 1 else 0), esmudge = 0, enf = k + 3\<rparr>,
      \<lparr>pcfa = k + 4 + length name, pcode = code, pthread = thread\<rparr>) # es)"
    and "agree_on 8 k m m'"
proof -
  let ?k' = "k + 5 + length name + length thread" and ?w = "word_cells (m ! 1) imm name code thread"
  have d: "dict_ok m k (map fst es)" and pl: "list_all (\<lambda>x. placed m k (snd x)) es"
    using assms(1) by (auto simp: plan_done_def)
  then have dp: "dp_at k m" "8 \<le> k" by (auto simp: dict_ok_def)
  have len: "length m' = length m" using assms(2) by (simp add: m'_def)
  have nth: "m' ! i = ?w ! (i - k)" if "k \<le> i" "i < ?k'" for i
    using nth_grown [OF dp(1), of ?w i] assms(2) that dp(2) by (auto simp: m'_def nth_list_update)
  have old: "m' ! i = m ! i" if "8 \<le> i" "i < k" for i
    using nth_grown [OF dp(1), of ?w i] assms(2) that dp(2) by (auto simp: m'_def nth_list_update)
  show agree: "agree_on 8 k m m'" using old len by (auto simp: agree_on_def)
  have "slice m' (k + 4 + length name + 1) (k + 4 + length name + 1 + length thread) = thread"
    using nth assms(2) len by (intro nth_equalityI) (auto simp: word_cells_def nth_append)
  moreover have "m' ! (k + 4 + length name) = code"
    using nth [of "k + 4 + length name"] by (simp add: word_cells_def nth_append)
  ultimately have "placed m' ?k' \<lparr>pcfa = k + 4 + length name, pcode = code, pthread = thread\<rparr>"
    using dp(2) assms(2) len by (simp add: placed_def)
  moreover have "list_all (\<lambda>x. placed m' ?k' (snd x)) es"
    by (rule all_placed_kept [OF pl agree]) (use assms(2) in auto)
  moreover have "dict_ok m' ?k' (\<lparr>ename = name, eimm = (if imm then 1 else 0), esmudge = 0, enf = k + 3\<rparr> # map fst es)"
    unfolding m'_def using dict_ok_appended [OF d assms(2,3)] by simp
  ultimately show "plan_done m' (?k', cfas',
     (\<lparr>ename = name, eimm = (if imm then 1 else 0), esmudge = 0, enf = k + 3\<rparr>,
      \<lparr>pcfa = k + 4 + length name, pcode = code, pthread = thread\<rparr>) # es)"
    by (simp add: plan_done_def)
qed

context dictionary_port
begin

lemma install_plan:
  assumes "good s" and "plan_done (view s) (k, cfas, es)"
    and "plan_word tab w (k, cfas, es) = Inr (k', cfas', es')" and "k' \<le> length (view s)"
  shows "\<exists>s'. install aw tab 7 w cfas s = (Inr cfas', s') \<and> good s' \<and> same s s' \<and>
     plan_done (view s') (k', cfas', es') \<and> agree_on 8 k (view s) (view s')"
proof -
  let ?name = "codes (spec_name w)"
  from assms(3) obtain code thread where b: "spec_body tab cfas w = Inr (code, thread)"
    and k': "k' = k + 5 + length ?name + length thread"
    and cfas': "cfas' = cfas(spec_name w \<mapsto> int (k + 4 + length ?name))"
    and es': "es' = (\<lparr>ename = ?name, eimm = (if spec_immediate w then 1 else 0), esmudge = 0, enf = k + 3\<rparr>,
           \<lparr>pcfa = k + 4 + length ?name, pcode = code, pthread = thread\<rparr>) # es"
    by (auto simp: plan_word_def attempt_eq_Inr Let_def)
  have dp: "dp_at k (view s)" using assms(2) by (auto simp: plan_done_def dict_ok_def)
  let ?m' = "(grown k (view s) (word_cells (view s ! 1) (spec_immediate w) ?name code thread))[1 := int (k + 3)]"
  obtain s' where s': "aw ?name code thread (spec_immediate w) s = (Inr (int (k + 4 + length ?name)), s')"
      "good s'" "view s' = ?m'" "same s s'"
    using word_appended [OF assms(1) dp, of ?name thread code "spec_immediate w"] assms(4) k'
    by (auto simp: yields_def)
  have "install aw tab 7 w cfas s = (Inr cfas', s')"
    using b s'(1) cfas'
    by (cases w) (auto simp: attempt_eq_Inr chain_def split: option.splits)
  moreover have "plan_done (view s') (k', cfas', es')" "agree_on 8 k (view s) (view s')"
    unfolding s'(3) k' es' using plan_done_word [OF assms(2), of ?name thread] assms(4) k' by simp_all
  ultimately show ?thesis using s' by blast
qed

lemma install_all_plan:
  assumes "good s" and "plan_done (view s) (k, cfas, es)"
    and "plan_words tab ws (k, cfas, es) = Inr (k', cfas', es')" and "k' \<le> length (view s)"
  shows "\<exists>s'. install_all aw tab 7 ws cfas s = (Inr cfas', s') \<and> good s' \<and> same s s' \<and>
     plan_done (view s') (k', cfas', es') \<and> agree_on 8 k (view s) (view s')"
  using assms
proof (induction ws arbitrary: s k cfas es)
  case Nil
  then show ?case by (auto simp: dict_refl agree_on_def)
next
  case (Cons w ws)
  from Cons.prems(3) obtain k1 cfas1 es1 where
    one: "plan_word tab w (k, cfas, es) = Inr (k1, cfas1, es1)"
    and rest: "plan_words tab ws (k1, cfas1, es1) = Inr (k', cfas', es')"
    by (auto simp: attempt_eq_Inr)
  have k: "k \<le> k1" "k1 \<le> k'"
    using plan_words_grows [OF rest] plan_words_grows [of tab "[w]" k cfas es k1 cfas1 es1] one by auto
  with Cons.prems(4) have "k1 \<le> length (view s)" by simp
  from install_plan [OF Cons.prems(1,2) one this] obtain s1 where
    s1: "install aw tab 7 w cfas s = (Inr cfas1, s1)" "good s1" "same s s1"
      "plan_done (view s1) (k1, cfas1, es1)" "agree_on 8 k (view s) (view s1)"
    by blast
  have "k' \<le> length (view s1)" using Cons.prems(4) s1(5) by (simp add: agree_on_def)
  from Cons.IH [OF s1(2,4) rest this] obtain s2 where
    s2: "install_all aw tab 7 ws cfas1 s1 = (Inr cfas', s2)" "good s2" "same s1 s2"
      "plan_done (view s2) (k', cfas', es')" "agree_on 8 k1 (view s1) (view s2)"
    by blast
  from s1(1) s2(1) have "install_all aw tab 7 (w # ws) cfas s = (Inr cfas', s2)" by simp
  with s1 s2 k(1) show ?case by (blast intro: dict_trans agree_trans)
qed

text \<open>A planned error is the error the builder raises.\<close>

lemma install_error:
  assumes "plan_word tab w (k, cfas, es) = Inl e"
  shows "install aw tab 7 w cfas s = (Inl e, s)"
  using assms
  by (cases w) (auto simp: plan_word_def attempt_eq_Inl chain_def Let_def split: option.splits sum.splits)

lemma install_all_error:
  assumes "good s" and "plan_done (view s) (k, cfas, es)" and "plan_words tab ws (k, cfas, es) = Inl e"
    and "k + sum_list (map spec_room ws) \<le> length (view s)"
  shows "\<exists>s'. install_all aw tab 7 ws cfas s = (Inl e, s') \<and> good s' \<and> same s s'"
  using assms
proof (induction ws arbitrary: s k cfas es)
  case Nil
  then show ?case by simp
next
  case (Cons w ws)
  show ?case
  proof (cases "plan_word tab w (k, cfas, es)")
    case (Inl e')
    with Cons.prems(1,3) install_error [OF Inl] show ?thesis by (auto intro: dict_refl)
  next
    case (Inr p1)
    obtain k1 cfas1 es1 where p1: "p1 = (k1, cfas1, es1)" by (cases p1)
    have k1: "k1 = k + spec_room w" using Inr p1 plan_word_room by simp
    with Cons.prems(4) have "k1 \<le> length (view s)" by simp
    from install_plan [OF Cons.prems(1,2) Inr [unfolded p1] this] obtain s1 where
      s1: "install aw tab 7 w cfas s = (Inr cfas1, s1)" "good s1" "same s s1"
        "plan_done (view s1) (k1, cfas1, es1)" "agree_on 8 k (view s) (view s1)"
      by blast
    have "plan_words tab ws (k1, cfas1, es1) = Inl e" using Cons.prems(3) Inr p1 by simp
    moreover have "k1 + sum_list (map spec_room ws) \<le> length (view s1)"
      using Cons.prems(4) s1(5) k1 by (simp add: agree_on_def)
    ultimately obtain s2 where "install_all aw tab 7 ws cfas1 s1 = (Inl e, s2)" "good s2" "same s1 s2"
      using Cons.IH [OF s1(2,4)] by blast
    with s1 show ?thesis by (auto intro: dict_trans)
  qed
qed

lemma write_thread_ok:
  assumes "good s" and "dp_at k (view s)" and "gather (item_cell cfas) items = Inr vs"
    and "k + length vs \<le> length (view s)"
  shows "\<exists>s'. write_thread ac cfas items s = (Inr (), s') \<and> good s' \<and> same s s' \<and> view s' = grown k (view s) vs"
  using assms
proof (induction items arbitrary: s k vs)
  case Nil
  then show ?case by (auto simp: dict_refl grown_Nil)
next
  case (Cons it items)
  from Cons.prems(3) obtain v ws where v: "item_cell cfas it = Inr v" and ws: "gather (item_cell cfas) items = Inr ws"
    and vs: "vs = v # ws"
    by (auto simp: attempt_eq_Inr)
  from cell_appended [OF Cons.prems(1,2), of v] Cons.prems(4) vs obtain s1 where
    s1: "ac v s = (Inr (int k), s1)" "good s1" "view s1 = grown k (view s) [v]" "same s s1"
    by (auto simp: yields_def)
  have "dp_at (k + 1) (view s1)" using dp_at_grown [OF Cons.prems(2), of "[v]"] s1(3) Cons.prems(4) vs by simp
  moreover have "k + 1 + length ws \<le> length (view s1)" using s1(3) Cons.prems(4) vs by simp
  ultimately obtain s2 where s2: "write_thread ac cfas items s1 = (Inr (), s2)" "good s2" "same s1 s2"
      "view s2 = grown (k + 1) (view s1) ws"
    using Cons.IH [OF s1(2) _ ws] by blast
  have "view s2 = grown k (view s) vs"
    using grown_grown [OF Cons.prems(2), of "[v]" ws] s1(3) s2(4) Cons.prems(4) vs by simp
  with s1 s2 v show ?case by (auto simp: chain_def intro: dict_trans)
qed

lemma write_thread_error:
  assumes "good s" and "dp_at k (view s)" and "gather (item_cell cfas) items = Inl e"
    and "k + length items \<le> length (view s)"
  shows "\<exists>s'. write_thread ac cfas items s = (Inl e, s') \<and> good s' \<and> same s s'"
  using assms
proof (induction items arbitrary: s k)
  case Nil
  then show ?case by simp
next
  case (Cons it items)
  show ?case
  proof (cases "item_cell cfas it")
    case (Inl e')
    with Cons.prems(1,3) show ?thesis by (auto simp: dict_refl)
  next
    case (Inr v)
    from cell_appended [OF Cons.prems(1,2), of v] Cons.prems(4) obtain s1 where
      s1: "ac v s = (Inr (int k), s1)" "good s1" "view s1 = grown k (view s) [v]" "same s s1"
      by (auto simp: yields_def)
    have "dp_at (k + 1) (view s1)" using dp_at_grown [OF Cons.prems(2), of "[v]"] s1(3) Cons.prems(4) by simp
    moreover have "gather (item_cell cfas) items = Inl e" using Cons.prems(3) Inr by (auto simp: attempt_eq_Inl)
    moreover have "k + 1 + length items \<le> length (view s1)" using s1(3) Cons.prems(4) by simp
    ultimately obtain s2 where "write_thread ac cfas items s1 = (Inl e, s2)" "good s2" "same s1 s2"
      using Cons.IH [OF s1(2)] by blast
    with s1 Inr show ?thesis by (auto simp: chain_def intro: dict_trans)
  qed
qed

text \<open>A name that is not installed when it is used: the builder raises, at a word or at a boot item.\<close>

lemma build_error:
  assumes "good s" and "dict_ok (view s) 8 []"
    and "attempt (plan_words kernel_labels (map CodeWord CODE_WORDS @ map ColonWord cs) (8, \<lambda>_. None, []))
      (\<lambda>(k, cfas, es). gather (item_cell cfas) boot) = Inl e"
    and "8 + sum_list (map spec_room (map CodeWord CODE_WORDS @ map ColonWord cs)) + length boot \<le> length (view s)"
  shows "\<exists>s'. build assemble aw ac hr cs boot s = (Inl e, s') \<and> good s' \<and> same s s'"
proof -
  let ?ws = "map CodeWord CODE_WORDS @ map ColonWord cs"
  have start: "plan_done (view s) (8, \<lambda>_. None, [])" using assms(2) by (simp add: plan_done_def)
  have unfold: "build assemble aw ac hr cs boot s =
      chain (install_all aw kernel_labels 7 ?ws (\<lambda>_. None)) (\<lambda>cfas. chain hr (\<lambda>boot_ip. chain (write_thread ac cfas boot)
        (\<lambda>_. pure \<lparr>kprogram = kernel_program, kword_cfas = cfas, kboot_ip = boot_ip\<rparr>))) s"
    by (simp add: build_def assemble_kernel START_LABEL_def ENTER_LABEL_def kernel_label_lookup chain_def)
  show ?thesis
  proof (cases "plan_words kernel_labels ?ws (8, \<lambda>_. None, [])")
    case (Inl e')
    with assms(3) have "e' = e" by simp
    with install_all_error [OF assms(1) start Inl] assms(4) show ?thesis
      unfolding unfold by (auto simp: chain_def)
  next
    case (Inr p)
    obtain k cfas es where p: "p = (k, cfas, es)" by (cases p)
    have k: "k = 8 + sum_list (map spec_room ?ws)" using plan_words_room [OF Inr [unfolded p]] .
    with assms(4) have "k \<le> length (view s)" by simp
    from install_all_plan [OF assms(1) start Inr [unfolded p] this] obtain s1 where
      s1: "install_all aw kernel_labels 7 ?ws (\<lambda>_. None) s = (Inr cfas, s1)" "good s1" "same s s1"
        "plan_done (view s1) (k, cfas, es)" "agree_on 8 8 (view s) (view s1)"
      by blast
    have dp: "dp_at k (view s1)" using s1(4) by (simp add: plan_done_def dict_ok_def)
    have "gather (item_cell cfas) boot = Inl e" using assms(3) Inr p by simp
    moreover have "k + length boot \<le> length (view s1)" using s1(5) assms(4) k by (simp add: agree_on_def)
    ultimately obtain s2 where "write_thread ac cfas boot s1 = (Inl e, s2)" "good s2" "same s1 s2"
      using write_thread_error [OF s1(2) dp] by blast
    with s1 here_read [OF s1(2) dp] show ?thesis
      unfolding unfold by (auto simp: chain_def intro: dict_trans)
  qed
qed

text \<open>The builder on an empty dictionary: the plan, then the boot thread right after it.\<close>

lemma build_ok:
  assumes "good s" and "dict_ok (view s) 8 []"
    and "plan_words kernel_labels (map CodeWord CODE_WORDS @ map ColonWord cs) (8, \<lambda>_. None, []) = Inr (k, cfas, es)"
    and "gather (item_cell cfas) boot = Inr vs" and "k + length vs \<le> length (view s)"
  shows "\<exists>s'. build assemble aw ac hr cs boot s =
      (Inr \<lparr>kprogram = kernel_program, kword_cfas = cfas, kboot_ip = int k\<rparr>, s') \<and> good s' \<and> same s s' \<and>
      plan_done (view s') (k + length vs, cfas, es) \<and> slice (view s') k (k + length vs) = vs"
proof -
  have "plan_done (view s) (8, \<lambda>_. None, [])" using assms(2) by (simp add: plan_done_def)
  from install_all_plan [OF assms(1) this assms(3)] assms(5) obtain s1 where
    s1: "install_all aw kernel_labels 7 (map CodeWord CODE_WORDS @ map ColonWord cs) (\<lambda>_. None) s = (Inr cfas, s1)"
      "good s1" "same s s1" "plan_done (view s1) (k, cfas, es)" "agree_on 8 8 (view s) (view s1)"
    by auto
  have d1: "dict_ok (view s1) k (map fst es)" and len: "length (view s1) = length (view s)"
    using s1(4,5) by (auto simp: plan_done_def agree_on_def)
  then have dp: "dp_at k (view s1)" "8 \<le> k" by (auto simp: dict_ok_def)
  from write_thread_ok [OF s1(2) dp(1) assms(4)] assms(5) len obtain s2 where
    s2: "write_thread ac cfas boot s1 = (Inr (), s2)" "good s2" "same s1 s2" "view s2 = grown k (view s1) vs"
    by auto
  have "build assemble aw ac hr cs boot s =
      (Inr \<lparr>kprogram = kernel_program, kword_cfas = cfas, kboot_ip = int k\<rparr>, s2)"
    using s1(1) s2(1) here_read [OF s1(2) dp(1)]
    by (simp add: build_def assemble_kernel START_LABEL_def ENTER_LABEL_def kernel_label_lookup chain_def)
  moreover have nth: "view s2 ! i = (if k \<le> i \<and> i < k + length vs then vs ! (i - k) else view s1 ! i)"
    if "1 \<le> i" "i < length (view s)" for i
    using nth_grown [OF dp(1), of vs i] that len assms(5) s2(4) by simp
  have lens: "length (view s2) = length (view s)" using s2(4) len assms(5) by simp
  have agree: "agree_on 8 k (view s1) (view s2)" using nth lens len dp by (auto simp: agree_on_def dp_at_def)
  have "chain_in (view s2) (k + length vs) (view s2 ! 1) (map fst es)"
  proof (rule chain_in_mono [of _ k])
    have "view s2 ! 1 = view s1 ! 1" using nth [of 1] dp(2) len dp_at_pos [OF dp(1)] by simp
    moreover have "chain_in (view s2) k (view s1 ! 1) (map fst es)"
    proof (rule chain_in_cong)
      show "chain_in (view s1) k (view s1 ! 1) (map fst es)" using d1 by (simp add: dict_ok_def)
      show "k \<le> length (view s2)" using dp(1) len lens by (simp add: dp_at_def)
    qed (use agree in \<open>simp add: agree_on_def\<close>)
    ultimately show "chain_in (view s2) k (view s2 ! 1) (map fst es)" by simp
  qed (use assms(5) lens in auto)
  moreover have "dp_at (k + length vs) (view s2)"
    using dp_at_grown [OF dp(1), of vs] s2(4) len assms(5) by simp
  moreover have "list_all (\<lambda>x. placed (view s2) (k + length vs) (snd x)) es"
    using s1(4) assms(5) len by (intro all_placed_kept [OF _ agree]) (auto simp: plan_done_def)
  moreover have "slice (view s2) k (k + length vs) = vs"
    using nth dp(2) assms(5) lens by (intro nth_equalityI) auto
  ultimately show ?thesis
    using s2 s1(3) dp(2) by (auto simp: plan_done_def dict_ok_def intro: dict_trans)
qed

end

subsection \<open>The memory dictionary is such a dictionary\<close>

interpretation memory_dictionary: dictionary_port "append_word load_cell store_cell"
  "append_cell load_cell store_cell" "here load_cell" layout_ok cells same_but_cells
proof unfold_locales
  fix s :: "'a datapath_scheme" and k name thread code imm v
  assume g: "layout_ok s" "dp_at k (cells s)"
  show "yields layout_ok cells same_but_cells (append_word load_cell store_cell name code thread imm) s
      (int (k + 4 + length name)) ((grown k (cells s) (word_cells (cells s ! 1) imm name code thread))[1 := int (k + 3)])"
    if "k + 5 + length name + length thread \<le> length (cells s)"
    using g that by (rule shared_memory.yields_append_word)
  show "yields layout_ok cells same_but_cells (append_cell load_cell store_cell v) s (int k) (grown k (cells s) [v])"
    if "k < length (cells s)"
    using g that by (rule shared_memory.yields_append_cell)
  show "here load_cell s = (Inr (int k), s)"
    using g shared_memory.rd_ok [of s 0] dp_at_pos [OF g(2)]
    by (simp add: here_def get_dp_def in_store_def dp_at_def)
qed (auto simp: same_but_cells_def)

text \<open>A machine with the dictionary adapter created over its memory (\<^verbatim>\<open>KernelContainer\<close>).\<close>

definition kernel_machine_new :: emulator where
  "kernel_machine_new = snd (dictionary_new store_cell machine_new)"

text \<open>\<^verbatim>\<open>boot\<close>: load the program and point \<^verbatim>\<open>IP\<close> at the boot thread.\<close>

definition boot :: "kernel_image \<Rightarrow> emulator \<Rightarrow> emulator" where
  "boot img s = (load (kprogram img) s)\<lparr>regs := register_write (regs s) Register_IP (kboot_ip img)\<rparr>"

end
