(* ===== verification/Threads.thy ===== *)
theory Threads
  imports Interpreter Builder "HOL-Library.Sublist"
begin

section \<open>Threads: from word names to executions\<close>

text \<open>
  What a program written as lists of word names means, and that the built image does it. \<open>vm_exec\<close> is
  the step relation of the threaded-code interpreter with its cost in CPU steps; \<open>run_items\<close> gives a list
  of thread items its meaning without looking at any thread in memory: a word by the meaning its name
  had when it was used, a literal by the value after \<^verbatim>\<open>LIT\<close>. \<open>image_runs\<close> connects the two through the
  builder, the boot code and the emulator.
\<close>

subsection \<open>Executions of the interpreter\<close>

inductive vm_exec :: "config \<Rightarrow> vm \<Rightarrow> nat \<Rightarrow> vm \<Rightarrow> bool" for c :: config where
  vm_now: "vm_exec c v 0 v"
| vm_turn: "\<not> vhalted v \<Longrightarrow> vm_step c v = Next w \<Longrightarrow> vm_exec c w n u \<Longrightarrow> vm_exec c v (step_cost v + n) u"

inductive_simps vm_exec_halted: "vm_exec c v n u"

lemma vm_exec_trans: "vm_exec c v m w \<Longrightarrow> vm_exec c w n u \<Longrightarrow> vm_exec c v (m + n) u"
  by (induction rule: vm_exec.induct) (auto simp: add.assoc intro: vm_exec.intros)

lemma vm_exec_one: "\<not> vhalted v \<Longrightarrow> vm_step c v = Next w \<Longrightarrow> vm_exec c v (step_cost v) w"
  using vm_turn [OF _ _ vm_now] by simp

lemma vm_exec_code:
  assumes "ccode c = kernel_program" and "vm_exec c v n w" and "settled c v a"
  shows "within c n a (settled c w)"
  using assms(2,3)
proof (induction arbitrary: a)
  case (vm_now v)
  then show ?case by (rule within_now)
next
  case (vm_turn v w n u)
  have "within c (step_cost v) a (settled c w)"
    using vm_step_code [OF assms(1) vm_turn.prems vm_turn.hyps(1)] vm_turn.hyps(2) by (simp add: delivers_def)
  then show ?case by (rule within_chain) (rule vm_turn.IH)
qed

text \<open>The step relation and the run function agree.\<close>

lemma vm_run_exec: "vm_run c k v = Next w \<Longrightarrow> vm_exec c v (run_cost c k v) w"
  by (induction k arbitrary: v) (auto intro: vm_exec.intros split: if_splits outcome.splits)

lemma vm_exec_run: "vm_exec c v n w \<Longrightarrow> vhalted w \<Longrightarrow> \<exists>k. vm_run c k v = Next w \<and> run_cost c k v = n"
proof (induction rule: vm_exec.induct)
  case (vm_now v)
  then show ?case by (intro exI [of _ 0]) simp
next
  case (vm_turn v w n u)
  then obtain k where "vm_run c k w = Next u" "run_cost c k w = n" by blast
  with vm_turn.hyps show ?case by (intro exI [of _ "Suc k"]) simp
qed

subsection \<open>Timed outcomes\<close>

type_synonym timed = "nat \<times> vm outcome"

definition ticks :: "nat \<Rightarrow> timed \<Rightarrow> timed" where
  "ticks n r = (n + fst r, snd r)"

fun follow :: "timed \<Rightarrow> (vm \<Rightarrow> timed) \<Rightarrow> timed" where
  "follow (n, Next v) f = ticks n (f v)"
| "follow (n, Fail e) f = (n, Fail e)"
| "follow (n, Wild) f = (n, Wild)"

lemma ticks_pair [simp]: "ticks n (m, r) = (n + m, r)"
  by (simp add: ticks_def)

text \<open>The interpreter does what a timed outcome says.\<close>

fun executes :: "config \<Rightarrow> vm \<Rightarrow> timed \<Rightarrow> bool" where
  "executes c v (n, Next w) \<longleftrightarrow> vm_exec c v n w"
| "executes c v (n, Fail e) \<longleftrightarrow>
     (\<exists>m w. vm_exec c v m w \<and> \<not> vhalted w \<and> vm_step c w = Fail e \<and> m + step_cost w \<le> n)"
| "executes c v (n, Wild) \<longleftrightarrow> True"

lemma executes_after: "vm_exec c v n w \<Longrightarrow> executes c w r \<Longrightarrow> executes c v (ticks n r)"
proof (induction c w r rule: executes.induct)
  case (2 c w n' e)
  then obtain m u where "vm_exec c w m u" "\<not> vhalted u" "vm_step c u = Fail e" "m + step_cost u \<le> n'" by auto
  with 2(1) show ?case by (auto intro!: exI [of _ "n + m"] exI [of _ u] vm_exec_trans)
qed (auto intro: vm_exec_trans)

lemma executes_follow:
  assumes "executes c v r" and "\<And>w. snd r = Next w \<Longrightarrow> executes c w (f w)"
  shows "executes c v (follow r f)"
  using assms by (induction r f rule: follow.induct) (auto intro: executes_after)

text \<open>One turn, from what \<^const>\<open>vm_step\<close> computes.\<close>

lemma executes_turn:
  assumes "\<not> vhalted v" and "vm_step c v = r" and "step_cost v = n"
  shows "executes c v (n, r)"
proof (cases r)
  case (Fail e)
  with assms vm_now [of c v] show ?thesis by (auto intro!: exI [of _ 0] exI [of _ v])
qed (use assms vm_exec_one [of v c] in auto)

subsection \<open>Meanings\<close>

text \<open>A word by its name is either the literal marker or something that acts on Forth states.\<close>

datatype meaning = Literal | Acts "config \<Rightarrow> vm \<Rightarrow> timed"

type_synonym environment = "string \<rightharpoonup> meaning"

text \<open>
  The items in order, with \<open>vip\<close> past the item being executed. Claims nothing (\<open>Wild\<close>) when an item
  rewrites the cells between 8 and \<open>hi\<close>, where all threads are, or leaves the thread before its last item.
\<close>

fun run_items :: "nat \<Rightarrow> environment \<Rightarrow> cfa_table \<Rightarrow> config \<Rightarrow> thread_item list \<Rightarrow> vm \<Rightarrow> timed" where
  "run_items hi env cfas c [] v = (0, Next v)"
| "run_items hi env cfas c (LiteralCell n # its) v = (0, Wild)"
| "run_items hi env cfas c (WordReference x # its) v =
     (case env x of
        None \<Rightarrow> (0, Wild)
      | Some Literal \<Rightarrow>
          (case its of
             [] \<Rightarrow> (0, Wild)
           | it # its' \<Rightarrow>
               (case item_cell cfas it of
                  Inl e \<Rightarrow> (0, Wild)
                | Inr n \<Rightarrow> follow (16, pushed n c (v\<lparr>vip := vip v + 2\<rparr>)) (\<lambda>w. run_items hi env cfas c its' w)))
      | Some (Acts f) \<Rightarrow> follow (f c (v\<lparr>vip := vip v + 1\<rparr>)) (\<lambda>w.
          if vhalted w then (0, Next w)
          else if slice (vcells w) 8 hi = slice (vcells v) 8 hi \<and> (its = [] \<or> vip w = vip v + 1)
          then run_items hi env cfas c its w
          else (0, Wild)))"

text \<open>A colon word: enter, do the words, then what \<^verbatim>\<open>EXIT\<close> means.\<close>

definition colon_meaning :: "nat \<Rightarrow> environment \<Rightarrow> cfa_table \<Rightarrow> int \<Rightarrow> string list \<Rightarrow> config \<Rightarrow> vm \<Rightarrow> timed" where
  "colon_meaning hi env cfas a ws c v =
     (if length (vrs v) < rcap c
      then ticks 9 (run_items hi env cfas c (map WordReference (ws @ [EXIT_WORD])) (v\<lparr>vrs := vip v # vrs v, vip := a + 1\<rparr>))
      else (9, Fail overflow))"

definition code_meaning :: "string \<Rightarrow> meaning option" where
  "code_meaning l =
     (if l = ''LIT'' then Some Literal
      else map_option (\<lambda>(n, f). Acts (\<lambda>c v. (4 + n v, f c v))) (map_of code_semantics l))"

fun word_meaning :: "nat \<Rightarrow> environment \<Rightarrow> plan \<Rightarrow> word_spec \<Rightarrow> meaning option" where
  "word_meaning hi env p (CodeWord w) = code_meaning (cw_routine_label w)"
| "word_meaning hi env (k, cfas, es) (ColonWord w) =
     Some (Acts (colon_meaning hi env cfas (int (k + 4 + length (col_name w))) (col_words w)))"

fun denote :: "nat \<Rightarrow> label_table \<Rightarrow> word_spec list \<Rightarrow> plan \<Rightarrow> environment \<Rightarrow> environment" where
  "denote hi tab [] p env = env"
| "denote hi tab (w # ws) p env =
     (case plan_word tab w p of
        Inl e \<Rightarrow> env
      | Inr p' \<Rightarrow> denote hi tab ws p' (env(spec_name w := word_meaning hi env p w)))"

subsection \<open>Meanings are realized\<close>

text \<open>Running, with the cells between 8 and \<open>hi\<close> those of \<open>m\<close>.\<close>

definition intact :: "nat \<Rightarrow> int list \<Rightarrow> vm \<Rightarrow> bool" where
  "intact hi m v \<longleftrightarrow> \<not> vhalted v \<and> hi \<le> length (vcells v) \<and> hi \<le> length m \<and> slice (vcells v) 8 hi = slice m 8 hi"

lemma intact_nth: "intact hi m v \<Longrightarrow> 8 \<le> i \<Longrightarrow> i < hi \<Longrightarrow> vcells v ! i = m ! i"
  using nth_slice [of "i - 8" hi 8 "vcells v"] nth_slice [of "i - 8" hi 8 m] by (simp add: intact_def)

lemma intact_read: "intact hi m v \<Longrightarrow> 8 \<le> i \<Longrightarrow> i < hi \<Longrightarrow> read_store (vcells v) (int i) = Some (m ! i)"
  using intact_nth [of hi m v i] by (simp add: intact_def read_store_Some in_store_def)

lemma intact_kept:
  assumes "intact hi m v" and "\<not> vhalted w" and "slice (vcells w) 8 hi = slice (vcells v) 8 hi" and "8 < hi"
  shows "intact hi m w"
proof -
  have "length (slice (vcells w) 8 hi) = hi - 8" using assms(1,3) by (simp add: intact_def)
  then have "hi \<le> length (vcells w)" using assms(4) by (simp add: slice_def)
  with assms show ?thesis by (simp add: intact_def)
qed

text \<open>The meaning \<open>d\<close> is what the word with code field address \<open>a\<close> does.\<close>

fun realizes :: "nat \<Rightarrow> int list \<Rightarrow> int \<Rightarrow> meaning \<Rightarrow> bool" where
  "realizes hi m a Literal \<longleftrightarrow> (\<exists>i. a = int i \<and> 8 \<le> i \<and> i < hi \<and> m ! i = 12)"
| "realizes hi m a (Acts f) \<longleftrightarrow>
     (\<forall>c v. intact hi m v \<longrightarrow> read_store (vcells v) (vip v) = Some a \<longrightarrow> executes c v (f c (v\<lparr>vip := vip v + 1\<rparr>)))"

definition consistent :: "nat \<Rightarrow> int list \<Rightarrow> cfa_table \<Rightarrow> environment \<Rightarrow> bool" where
  "consistent hi m cfas env \<longleftrightarrow> (\<forall>x a d. cfas x = Some a \<longrightarrow> env x = Some d \<longrightarrow> realizes hi m a d)"

lemma literal_executes:
  assumes "intact hi m v" and "realizes hi m a Literal" and "read_store (vcells v) (vip v) = Some a"
    and "read_store (vcells v) (vip v + 1) = Some n"
  shows "executes c v (16, pushed n c (v\<lparr>vip := vip v + 2\<rparr>))"
proof (rule executes_turn)
  have code: "read_store (vcells v) a = Some 12" using assms(1,2) intact_read [OF assms(1)] by auto
  have at: "word_at 12 = Some (\<lambda>_. 12, lit_word)"
    by (simp add: word_at_def code_semantics_def stack_words_def kernel_label_lookup)
  have "lit_word c (v\<lparr>vip := vip v + 1\<rparr>) = pushed n c (v\<lparr>vip := vip v + 2\<rparr>)"
    using assms(4) by (simp add: lit_word_def read_store_Some add.commute)
  then show "vm_step c v = pushed n c (v\<lparr>vip := vip v + 2\<rparr>)"
    using assms(3) code at by (simp add: vm_step_def)
  show "step_cost v = 16" using assms(3) code at by (simp add: step_cost_def)
qed (use assms(1) in \<open>simp add: intact_def\<close>)

lemma slice_head:
  assumes "slice m k (k + Suc n) = x # xs" and "k + Suc n \<le> length m"
  shows "m ! k = x" and "slice m (Suc k) (Suc k + n) = xs"
  using assms slice_Cons [of k "k + Suc n" m] by simp_all

lemma run_items_ok:
  assumes "consistent hi m cfas env" and "gather (item_cell cfas) its = Inr vs" and "intact hi m v"
    and "vip v = int k" and "8 \<le> k" and "k + length its \<le> hi" and "slice m k (k + length its) = vs"
  shows "executes c v (run_items hi env cfas c its v)"
  using assms
proof (induction hi env cfas c its v arbitrary: vs k rule: run_items.induct)
  case (1 hi env cfas c v)
  then show ?case by (simp add: vm_now)
next
  case (2 hi env cfas c n its v)
  then show ?case by simp
next
  case (3 hi env cfas c x its v)
  note ok = "3.prems"(3) and ip = "3.prems"(4) and k = "3.prems"(5,6)
  from "3.prems"(2) obtain a us where a: "cfas x = Some a" and us: "gather (item_cell cfas) its = Inr us"
    and vs: "vs = a # us"
    by (auto simp: attempt_eq_Inr cfa_of_def split: option.splits)
  have len: "hi \<le> length m" using ok by (simp add: intact_def)
  have m: "m ! k = a" "slice m (Suc k) (Suc k + length its) = us"
    using slice_head [of m k "length its" a us] "3.prems"(7) vs k len by simp_all
  have at: "read_store (vcells v) (vip v) = Some a"
    using intact_read [OF ok, of k] m(1) k ip by simp
  show ?case
  proof (cases "env x")
    case None
    then show ?thesis by simp
  next
    case (Some d)
    have d: "realizes hi m a d" using "3.prems"(1) a Some by (simp add: consistent_def)
    show ?thesis
    proof (cases d)
      case Literal
      show ?thesis
      proof (cases its)
        case Nil
        with Some Literal show ?thesis by simp
      next
        case (Cons it its')
        from us Cons obtain n ns where n: "item_cell cfas it = Inr n" and ns: "gather (item_cell cfas) its' = Inr ns"
          and "us = n # ns"
          by (auto simp: attempt_eq_Inr)
        then have m': "m ! Suc k = n" "slice m (Suc (Suc k)) (Suc (Suc k) + length its') = ns"
          using slice_head [of m "Suc k" "length its'" n ns] m(2) k len Cons by simp_all
        have "read_store (vcells v) (vip v + 1) = Some n"
          using intact_read [OF ok, of "Suc k"] m'(1) k ip Cons by (simp add: add.commute)
        then have lit: "executes c v (16, pushed n c (v\<lparr>vip := vip v + 2\<rparr>))"
          by (rule literal_executes [OF ok d [unfolded Literal] at])
        have "executes c w (run_items hi env cfas c its' w)" if "pushed n c (v\<lparr>vip := vip v + 2\<rparr>) = Next w" for w
        proof (rule "3.IH"(1) [OF Some Literal Cons n "3.prems"(1) ns])
          show "intact hi m w" "vip w = int (Suc (Suc k))"
            using that ok ip by (auto simp: pushed_def intact_def split: if_splits)
        qed (use m'(2) k Cons in auto)
        then have "executes c v (follow (16, pushed n c (v\<lparr>vip := vip v + 2\<rparr>)) (run_items hi env cfas c its'))"
          by (intro executes_follow [OF lit]) simp
        with Some Literal Cons n show ?thesis by simp
      qed
    next
      case (Acts f)
      have "executes c v (f c (v\<lparr>vip := vip v + 1\<rparr>))" using d ok at Acts by simp
      moreover have "executes c w (if vhalted w then (0, Next w)
          else if slice (vcells w) 8 hi = slice (vcells v) 8 hi \<and> (its = [] \<or> vip w = vip v + 1)
          then run_items hi env cfas c its w else (0, Wild))" for w
      proof (cases "\<not> vhalted w \<and> slice (vcells w) 8 hi = slice (vcells v) 8 hi \<and> (its = [] \<or> vip w = vip v + 1)")
        case True
        have w: "intact hi m w" using intact_kept [OF ok] True k by simp
        have "executes c w (run_items hi env cfas c its w)"
        proof (cases "its = []")
          case True
          then show ?thesis by (simp add: vm_now)
        next
          case False
          with True ip k m(2) show ?thesis
            by (intro "3.IH"(2) [OF Some Acts _ _ "3.prems"(1) us w, of "Suc k"]) auto
        qed
        with True show ?thesis by simp
      qed (auto simp: vm_now)
      ultimately show ?thesis using Some Acts by (auto intro: executes_follow)
    qed
  qed
qed

text \<open>A colon word in place realizes its meaning.\<close>

lemma gather_references: "gather (item_cell cfas) (map WordReference xs) = gather (cfa_of cfas) xs"
  by (induction xs) simp_all

lemma colon_realized:
  assumes "consistent hi m cfas env" and "gather (cfa_of cfas) (ws @ [EXIT_WORD]) = Inr thread"
    and "placed m hi \<lparr>pcfa = i, pcode = 7, pthread = thread\<rparr>"
  shows "realizes hi m (int i) (Acts (colon_meaning hi env cfas (int i) ws))"
proof -
  let ?its = "map WordReference (ws @ [EXIT_WORD])"
  have p: "8 \<le> i" "i + 1 + length thread \<le> hi" "m ! i = 7" "slice m (i + 1) (i + 1 + length thread) = thread"
    using assms(3) by (auto simp: placed_def)
  have len: "length ?its = length thread" using assms(2) by (auto simp: gather_eq_Inr dest: list_all2_lengthD)
  have "executes c v (colon_meaning hi env cfas (int i) ws c (v\<lparr>vip := vip v + 1\<rparr>))"
    if v: "intact hi m v" "read_store (vcells v) (vip v) = Some (int i)" for c v
  proof -
    let ?e = "v\<lparr>vrs := (vip v + 1) # vrs v, vip := int i + 1\<rparr>"
    have turn: "vm_step c v = (if length (vrs v) < rcap c then Next ?e else Fail overflow)" "step_cost v = 9"
      using v(2) intact_read [OF v(1), of i] p(1-3) by (simp_all add: vm_step_def step_cost_def enter_word_def)
    have nh: "\<not> vhalted v" using v(1) by (simp add: intact_def)
    show ?thesis
    proof (cases "length (vrs v) < rcap c")
      case True
      then have "vm_exec c v 9 ?e" using vm_exec_one [OF nh] turn by metis
      moreover have "executes c ?e (run_items hi env cfas c ?its ?e)"
        using v(1) p len
        by (intro run_items_ok [OF assms(1), where vs = thread and k = "i + 1"])
          (use assms(2) in \<open>simp_all add: gather_references intact_def del: map_append\<close>)
      ultimately show ?thesis using True by (simp add: colon_meaning_def executes_after)
    next
      case False
      have "executes c v (9, Fail overflow)" using False turn by (intro executes_turn [OF nh]) simp_all
      with False show ?thesis by (simp add: colon_meaning_def)
    qed
  qed
  then show ?thesis by simp
qed

text \<open>A code word in place realizes its meaning.\<close>

lemma code_word_at:
  assumes "map_of code_semantics l = Some (n, f)" and "kernel_labels l = Some k"
  shows "word_at k = Some (n, f)" and "k \<noteq> 7"
proof -
  let ?t = "map (\<lambda>(l, w). (the (kernel_labels l), w)) code_semantics"
  have "distinct (map fst ?t)" "list_all (\<lambda>x. fst x \<noteq> 7) ?t"
    by (simp_all add: code_semantics_def stack_words_def kernel_label_lookup)
  moreover have "(k, (n, f)) \<in> set ?t" using assms map_of_SomeD [OF assms(1)] by force
  ultimately show "word_at k = Some (n, f)" "k \<noteq> 7"
    by (auto simp: word_at_def list_all_iff simp del: map_map)
qed

lemma code_realized:
  assumes "kernel_labels l = Some k" and "placed m hi \<lparr>pcfa = i, pcode = k, pthread = []\<rparr>"
    and "code_meaning l = Some d"
  shows "realizes hi m (int i) d"
proof (cases "l = ''LIT''")
  case True
  with assms show ?thesis by (auto simp: code_meaning_def placed_def kernel_label_lookup)
next
  case False
  with assms(3) obtain n f where l: "map_of code_semantics l = Some (n, f)" and d: "d = Acts (\<lambda>c v. (4 + n v, f c v))"
    by (auto simp: code_meaning_def)
  note at = code_word_at [OF l assms(1)]
  have p: "8 \<le> i" "i < hi" "m ! i = k" using assms(2) by (auto simp: placed_def)
  have "executes c v (4 + n (v\<lparr>vip := vip v + 1\<rparr>), f c (v\<lparr>vip := vip v + 1\<rparr>))"
    if v: "intact hi m v" "read_store (vcells v) (vip v) = Some (int i)" for c v
    using v intact_read [OF v(1) p(1,2)] p(3) at
    by (intro executes_turn) (simp_all add: vm_step_def step_cost_def intact_def)
  with d show ?thesis by simp
qed

text \<open>The words of a plan, in place, realize what their names mean.\<close>

lemma plan_words_extends: "plan_words tab ws (k, cfas, es) = Inr (k', cfas', es') \<Longrightarrow> \<exists>xs. es' = xs @ es"
proof (induction ws arbitrary: k cfas es)
  case (Cons w ws)
  then show ?case by (fastforce simp: plan_word_def attempt_eq_Inr Let_def)
qed simp

lemma word_realized:
  assumes "plan_word kernel_labels w (k, cfas, es) = Inr (k', cfas', (e, p) # es)" and "placed m hi p"
    and "consistent hi m cfas env" and "word_meaning hi env (k, cfas, es) w = Some d"
  shows "cfas' = cfas(spec_name w \<mapsto> int (pcfa p))" and "realizes hi m (int (pcfa p)) d"
proof -
  show "cfas' = cfas(spec_name w \<mapsto> int (pcfa p))"
    using assms(1) by (auto simp: plan_word_def attempt_eq_Inr Let_def)
  show "realizes hi m (int (pcfa p)) d"
  proof (cases w)
    case (CodeWord cw)
    with assms(1) obtain i where "kernel_labels (cw_routine_label cw) = Some i" "p = \<lparr>pcfa = pcfa p, pcode = i, pthread = []\<rparr>"
      by (auto simp: plan_word_def attempt_eq_Inr Let_def split: option.splits)
    with code_realized [of "cw_routine_label cw" i m hi "pcfa p" d] assms(2,4) CodeWord show ?thesis by simp
  next
    case (ColonWord cw)
    with assms(1) obtain thread where "gather (cfa_of cfas) (col_words cw @ [EXIT_WORD]) = Inr thread"
      and "p = \<lparr>pcfa = k + 4 + length (col_name cw), pcode = 7, pthread = thread\<rparr>"
      by (auto simp: plan_word_def attempt_eq_Inr Let_def)
    with colon_realized [OF assms(3), of "col_words cw" thread "pcfa p"] assms(2,4) ColonWord show ?thesis
      by (auto simp del: realizes.simps)
  qed
qed

lemma denote_consistent:
  assumes "plan_words kernel_labels ws (k, cfas, es) = Inr (k', cfas', es')"
    and "list_all (\<lambda>x. placed m hi (snd x)) es'" and "consistent hi m cfas env"
  shows "consistent hi m cfas' (denote hi kernel_labels ws (k, cfas, es) env)"
  using assms
proof (induction ws arbitrary: k cfas es env)
  case (Cons w ws)
  from Cons.prems(1) obtain k1 cfas1 es1 where
    one: "plan_word kernel_labels w (k, cfas, es) = Inr (k1, cfas1, es1)"
    and rest: "plan_words kernel_labels ws (k1, cfas1, es1) = Inr (k', cfas', es')"
    by (auto simp: attempt_eq_Inr)
  from one obtain e p where es1: "es1 = (e, p) # es"
    by (auto simp: plan_word_def attempt_eq_Inr Let_def)
  obtain xs where "es' = xs @ (e, p) # es" using plan_words_extends [OF rest] es1 by auto
  with Cons.prems(2) have p: "placed m hi p" by simp
  let ?d = "word_meaning hi env (k, cfas, es) w"
  have "cfas1 = cfas(spec_name w \<mapsto> int (pcfa p))"
    using one es1 by (auto simp: plan_word_def attempt_eq_Inr Let_def)
  then have "consistent hi m cfas1 (env(spec_name w := ?d))"
    using Cons.prems(3) word_realized(2) [OF one [unfolded es1] p Cons.prems(3)]
    by (simp add: consistent_def)
  from Cons.IH [OF rest Cons.prems(2) this] one show ?case by (simp del: fun_upd_apply)
qed simp

subsection \<open>Images\<close>

definition kernel_words :: "colon_word list \<Rightarrow> word_spec list" where
  "kernel_words cs = map CodeWord CODE_WORDS @ map ColonWord cs"

definition empty_plan :: plan where "empty_plan = (8, \<lambda>_. None, [])"

text \<open>What the boot thread of a build means.\<close>

definition boot_meaning :: "colon_word list \<Rightarrow> nat \<Rightarrow> cfa_table \<Rightarrow> config \<Rightarrow> thread_item list \<Rightarrow> vm \<Rightarrow> timed" where
  "boot_meaning cs hi cfas = run_items hi (denote hi kernel_labels (kernel_words cs) empty_plan (\<lambda>_. None)) cfas"

abbreviation build_image :: "colon_word list \<Rightarrow> thread_item list \<Rightarrow> emulator \<Rightarrow> (error + kernel_image) \<times> emulator" where
  "build_image \<equiv> build assemble (append_word load_cell store_cell) (append_cell load_cell store_cell) (here load_cell)"

lemma boot_sel [simp]:
  "prog (boot img s) = kprogram img" "pc (boot img s) = 0" "\<not> halted (boot img s)"
  "abstract_of (boot img s) = (abstract_of s)\<lparr>aregs := register_write (regs s) ''IP'' (kboot_ip img), apc := 0, ahalted := False\<rparr>"
  "config_of (boot img s) = (config_of s)\<lparr>ccode := kprogram img\<rparr>"
  "layout_ok (boot img s) = layout_ok s"
  by (simp_all add: boot_def load_def abstract_of_def config_of_def layout_ok_def ds_def rs_def cells_def Register_IP_def)

text \<open>The Forth state a booted image starts in.\<close>

definition boot_state :: "kernel_image \<Rightarrow> emulator \<Rightarrow> vm" where
  "boot_state img s = \<lparr>vip = kboot_ip img, vds = ds s, vrs = rs s, vcells = cells s, vin = inq s, vout = outb s,
     vhalted = False\<rparr>"

lemma view_boot: "view (abstract_of (boot img s)) = boot_state img s"
  by (simp add: view_def boot_state_def aread_def register_read_write)

text \<open>From the start of the kernel: three steps, then what the interpreter executes.\<close>

definition ends_as :: "vm outcome \<Rightarrow> (error + unit) \<times> emulator \<Rightarrow> bool" where
  "ends_as r x \<longleftrightarrow>
     (case r of
        Next v \<Rightarrow> vhalted v \<longrightarrow> fst x = Inr () \<and> halted (snd x) \<and> view (abstract_of (snd x)) = v
      | Fail e \<Rightarrow> fst x = Inl e
      | Wild \<Rightarrow> True)"

lemma kernel_ends_as:
  assumes "layout_ok s" and "prog s = kernel_program" and "pc s = 0" and "\<not> halted s"
    and "executes (config_of s) (view (abstract_of s)) (n, r)" and "int (3 + n) < m"
  shows "ends_as r (run m s)"
proof -
  let ?c = "config_of s" and ?v = "view (abstract_of s)"
  have c: "ccode ?c = kernel_program" using assms(2) by simp
  note lens = stacks_in_region [OF assms(1)]
  have reach: "within ?c (3 + k) (abstract_of s) (settled ?c w)" if "vm_exec ?c ?v k w" for k w
  proof (rule within_chain)
    show "within ?c 3 (abstract_of s) (settled ?c ?v)" using assms(2-4) lens by (intro START_code) simp_all
  qed (rule vm_exec_code [OF c that])
  show ?thesis
  proof (cases r)
    case (Next v)
    show ?thesis
    proof (cases "vhalted v")
      case True
      from assms(5) Next have "within ?c (3 + n) (abstract_of s) (\<lambda>b. ahalted b \<and> view b = v)"
        by (intro within_mono [OF reach [of n v]]) (use True in \<open>auto simp: settled_def view_def\<close>)
      from run_halts [OF assms(1) this, of m] assms(6) Next show ?thesis by (auto simp: ends_as_def)
    qed (simp add: ends_as_def Next)
  next
    case (Fail e)
    with assms(5) obtain k w where w: "vm_exec ?c ?v k w" "\<not> vhalted w" "vm_step ?c w = Fail e" "k + step_cost w \<le> n"
      by auto
    have "within ?c (3 + k + step_cost w) (abstract_of s) (\<lambda>b. \<not> ahalted b \<and> astep ?c b = Fail e)"
      by (rule within_chain [OF reach [OF w(1)]])
        (use vm_step_code [OF c _ w(2)] w(3) in \<open>auto simp: delivers_def\<close>)
    from run_raises [OF assms(1) _ this, of m] w(4) assms(6) Fail show ?thesis by (auto simp: ends_as_def)
  qed (simp add: ends_as_def)
qed

text \<open>An execution that reaches a point from where the machine never stops.\<close>

lemma boot_diverges:
  assumes "layout_ok s" and "kprogram img = kernel_program"
    and "vm_exec (config_of (boot img s)) (boot_state img s) n w"
    and "\<And>a. settled (config_of (boot img s)) w a \<Longrightarrow> diverges (config_of (boot img s)) a" and "0 \<le> m"
  shows "\<exists>t. run m (boot img s) = (Inl (EmulatorError (ExceededSteps m)), t)"
proof -
  let ?c = "config_of (boot img s)" and ?v = "boot_state img s"
  note lens = stacks_in_region [OF assms(1)]
  have "within ?c 3 (abstract_of (boot img s)) (settled ?c ?v)"
    using assms(2) lens by (simp only: view_boot [symmetric]) (intro START_code, simp_all)
  then have "within ?c (3 + n) (abstract_of (boot img s)) (settled ?c w)"
    by (rule within_chain) (use vm_exec_code [OF _ assms(3)] assms(2) in simp)
  then have "diverges ?c (abstract_of (boot img s))"
    using assms(4) by (intro diverges_within [of ?c "3 + n"]) (auto intro: within_mono)
  with run_diverges [of "boot img s" m] assms(1,5) show ?thesis by (auto simp del: boot_sel(4,5))
qed

lemma consistent_empty: "consistent hi m (\<lambda>_. None) env"
  by (simp add: consistent_def)

text \<open>What the builder leaves: the boot thread in place, and every prefix of it executed by the interpreter.\<close>

lemma image_executes:
  assumes "layout_ok s" and "dict_ok (cells s) 8 []"
    and "plan_words kernel_labels (kernel_words cs) empty_plan = Inr (k, cfas, es)"
    and "gather (item_cell cfas) items = Inr vs" and "k + length items \<le> length (cells s)"
  shows "\<exists>img s'. build_image cs items s = (Inr img, s') \<and> kprogram img = kernel_program \<and> kword_cfas img = cfas \<and>
    kboot_ip img = int k \<and> layout_ok s' \<and> same_but_cells s s' \<and>
    plan_done (cells s') (k + length items, cfas, es) \<and> slice (cells s') k (k + length items) = vs \<and>
    (\<forall>c its. prefix its items \<longrightarrow> executes c (boot_state img s')
       (boot_meaning cs (k + length items) cfas c its (boot_state img s')))"
proof -
  let ?hi = "k + length items" and ?img = "\<lparr>kprogram = kernel_program, kword_cfas = cfas, kboot_ip = int k\<rparr>"
  have len: "length vs = length items" using assms(4) by (auto simp: gather_eq_Inr dest: list_all2_lengthD)
  from memory_dictionary.build_ok [OF assms(1,2) assms(3) [unfolded kernel_words_def empty_plan_def] assms(4)]
    assms(5) len obtain s' where s': "build_image cs items s = (Inr ?img, s')" "layout_ok s'" "same_but_cells s s'"
      "plan_done (cells s') (?hi, cfas, es)" "slice (cells s') k ?hi = vs"
    by auto
  have k: "8 \<le> k" using plan_words_grows [OF assms(3) [unfolded empty_plan_def]] .
  have hi: "?hi \<le> length (cells s')" using s'(4) by (simp add: plan_done_def dict_ok_def dp_at_def)
  have con: "consistent ?hi (cells s') cfas (denote ?hi kernel_labels (kernel_words cs) empty_plan (\<lambda>_. None))"
    using s'(4) unfolding empty_plan_def
    by (intro denote_consistent [OF assms(3) [unfolded empty_plan_def]] consistent_empty) (auto simp: plan_done_def)
  have "executes c (boot_state ?img s') (boot_meaning cs ?hi cfas c its (boot_state ?img s'))"
    if "prefix its items" for c its
  proof -
    from that obtain rest where rest: "items = its @ rest" by (auto simp: prefix_def)
    with assms(4) obtain us ws where us: "gather (item_cell cfas) its = Inr us" and "vs = us @ ws"
      by (auto simp: gather_append attempt_eq_Inr)
    moreover have "length us = length its" using us by (auto simp: gather_eq_Inr dest: list_all2_lengthD)
    ultimately have "slice (cells s') k (k + length its) = us"
      using s'(5) slice_append_split [of k "k + length its" ?hi "cells s'"] hi rest by simp
    with us k hi rest con show ?thesis
      unfolding boot_meaning_def by (intro run_items_ok [where k = k]) (simp_all add: intact_def boot_state_def)
  qed
  with s' show ?thesis by (intro exI [of _ ?img] exI [of _ s']) simp
qed

end
