(* ===== verification/Programs.thy ===== *)
theory Programs
  imports Threads
begin

section \<open>The kernel's vocabulary, and a program end to end\<close>

text \<open>
  Where the builder puts the kernel's own words, what their names mean, which builds are refused, and that an image runs as its boot
  thread means; \<^verbatim>\<open>SQUARE\<close>, the example of the test suite, from its colon definition to the data stack after \<^verbatim>\<open>run\<close>: for a natural
  number it leaves the square; for a negative one no step budget is enough. Words built later do not change what an image runs.
\<close>

subsection \<open>The kernel's words\<close>

definition kernel_cfas :: cfa_table where
  "kernel_cfas = map_of [
     (''LIT'', 15), (''EXIT'', 24), (''BYE'', 32), (''DUP'', 40), (''DROP'', 49), (''SWAP'', 58),
     (''OVER'', 67), (''ROT'', 75), (''-ROT'', 84), (''NIP'', 92), (''TUCK'', 101), (''+'', 107),
     (''-'', 113), (''*'', 119), (''NEGATE'', 130), (''ABS'', 138), (''1+'', 145), (''1-'', 152),
     (''@'', 158), (''!'', 164), (''C@'', 171), (''C!'', 178), (''>R'', 185), (''R>'', 192),
     (''R@'', 199), (''='', 205), (''<>'', 212), (''<'', 218), (''>'', 224), (''0='', 231),
     (''0<'', 238), (''AND'', 246), (''OR'', 253), (''INVERT'', 264), (''KEY'', 272), (''EMIT'', 281),
     (''NUMBER'', 292), (''WORD'', 301), (''FIND'', 310)]"

definition kernel_env :: environment where
  "kernel_env x =
     (case map_of (map (\<lambda>w. (cw_name w, cw_routine_label w)) CODE_WORDS) x of None \<Rightarrow> None | Some l \<Rightarrow> code_meaning l)"

lemma plan_words_append:
  "plan_words tab (ws @ ws') p = attempt (plan_words tab ws p) (plan_words tab ws')"
  by (induction ws arbitrary: p) (auto simp: attempt_def split: sum.splits)

lemma denote_append:
  "plan_words tab ws p = Inr p' \<Longrightarrow> denote hi tab (ws @ ws') p env = denote hi tab ws' p' (denote hi tab ws p env)"
  by (induction ws arbitrary: p env) (auto simp: attempt_eq_Inr)

text \<open>Code words: the plan and the meanings without the bookkeeping of entries.\<close>

fun code_plan :: "label_table \<Rightarrow> code_word list \<Rightarrow> nat \<Rightarrow> cfa_table \<Rightarrow> (nat \<times> cfa_table) option" where
  "code_plan tab [] k cfas = Some (k, cfas)"
| "code_plan tab (w # ws) k cfas =
     (case tab (cw_routine_label w) of
        None \<Rightarrow> None
      | Some i \<Rightarrow> code_plan tab ws (k + 5 + length (cw_name w)) (cfas(cw_name w \<mapsto> int (k + 4 + length (cw_name w)))))"

lemma plan_code_words:
  "code_plan tab ws k cfas = Some (k', cfas') \<Longrightarrow> \<exists>es'. plan_words tab (map CodeWord ws) (k, cfas, es) = Inr (k', cfas', es')"
proof (induction ws arbitrary: k cfas es)
  case (Cons w ws)
  then obtain i where i: "tab (cw_routine_label w) = Some i"
    "code_plan tab ws (k + 5 + length (cw_name w)) (cfas(cw_name w \<mapsto> int (k + 4 + length (cw_name w)))) = Some (k', cfas')"
    by (auto split: option.splits)
  from Cons.IH [OF i(2)] i(1) show ?case
    by (simp add: plan_word_def Let_def del: fun_upd_apply)
qed simp

lemma denote_code_words:
  "plan_words tab (map CodeWord ws) p = Inr p' \<Longrightarrow>
     denote hi tab (map CodeWord ws) p env = fold (\<lambda>w e. e(cw_name w := code_meaning (cw_routine_label w))) ws env"
  by (induction ws arbitrary: p env) (auto simp: attempt_eq_Inr simp del: fun_upd_apply)

lemma kernel_plan: "\<exists>es. plan_words kernel_labels (map CodeWord CODE_WORDS) empty_plan = Inr (311, kernel_cfas, es)"
proof -
  have "code_plan kernel_labels CODE_WORDS 8 (\<lambda>_. None) = Some (311, kernel_cfas)"
    by (simp add: CODE_WORDS_def PRIMITIVES_def primitive_def kernel_label_lookup kernel_cfas_def fun_upd_twist del: fun_upd_apply)
  then show ?thesis unfolding empty_plan_def by (rule plan_code_words)
qed

lemma fold_code_env:
  "distinct (map cw_name ws) \<Longrightarrow> fold (\<lambda>w e. e(cw_name w := code_meaning (cw_routine_label w))) ws env x =
     (case map_of (map (\<lambda>w. (cw_name w, cw_routine_label w)) ws) x of None \<Rightarrow> env x | Some l \<Rightarrow> code_meaning l)"
proof (induction ws arbitrary: env)
  case (Cons w ws)
  have "map_of (map (\<lambda>w. (cw_name w, cw_routine_label w)) ws) (cw_name w) = None"
    using Cons.prems by (auto simp: map_of_eq_None_iff)
  with Cons show ?case by auto
qed simp

text \<open>Every code word of a plan has its entry.\<close>

lemma plan_words_other: "plan_words tab ws (k, cfas, es) = Inr (k', cfas', es') \<Longrightarrow> x \<notin> spec_name ` set ws \<Longrightarrow> cfas' x = cfas x"
proof (induction ws arbitrary: k cfas es)
  case (Cons w ws)
  then show ?case by (fastforce simp: plan_word_def attempt_eq_Inr Let_def)
qed simp

lemma code_entry:
  assumes "plan_words tab (map CodeWord ws) (k, cfas, es) = Inr (k', cfas', es')" and "distinct (map cw_name ws)"
    and "w \<in> set ws"
  shows "\<exists>x \<in> set es'. cfas' (cw_name w) = Some (int (pcfa (snd x))) \<and> tab (cw_routine_label w) = Some (pcode (snd x))"
  using assms
proof (induction ws arbitrary: k cfas es)
  case (Cons u ws)
  from Cons.prems(1) obtain k1 cfas1 es1 where one: "plan_word tab (CodeWord u) (k, cfas, es) = Inr (k1, cfas1, es1)"
    and rest: "plan_words tab (map CodeWord ws) (k1, cfas1, es1) = Inr (k', cfas', es')"
    by (auto simp: attempt_eq_Inr)
  show ?case
  proof (cases "w = u")
    case True
    from one have "\<exists>x. es1 = x # es \<and> cfas1 (cw_name u) = Some (int (pcfa (snd x))) \<and>
        tab (cw_routine_label u) = Some (pcode (snd x))"
      by (auto simp: plan_word_def attempt_eq_Inr Let_def split: option.splits)
    then obtain x where x: "es1 = x # es" "cfas1 (cw_name u) = Some (int (pcfa (snd x)))"
        "tab (cw_routine_label u) = Some (pcode (snd x))"
      by blast
    moreover have "x \<in> set es'" using plan_words_extends [OF rest] x(1) by auto
    moreover have "cfas' (cw_name u) = cfas1 (cw_name u)"
      using plan_words_other [OF rest, of "cw_name u"] Cons.prems(2) by (auto simp: image_image)
    ultimately show ?thesis using True by auto
  next
    case False
    with Cons.IH [OF rest] Cons.prems(2,3) show ?thesis by auto
  qed
qed simp

lemma code_words_distinct: "distinct (map cw_name CODE_WORDS)"
  by (simp add: CODE_WORDS_def PRIMITIVES_def primitive_def)

lemma denote_kernel:
  "denote hi kernel_labels (map CodeWord CODE_WORDS @ ws) empty_plan (\<lambda>_. None) =
     (case plan_words kernel_labels (map CodeWord CODE_WORDS) empty_plan of Inl e \<Rightarrow> \<lambda>_. None
      | Inr p \<Rightarrow> denote hi kernel_labels ws p kernel_env)"
proof -
  obtain es where es: "plan_words kernel_labels (map CodeWord CODE_WORDS) empty_plan = Inr (311, kernel_cfas, es)"
    using kernel_plan by blast
  have "denote hi kernel_labels (map CodeWord CODE_WORDS) empty_plan (\<lambda>_. None) = kernel_env"
    using denote_code_words [OF es] fold_code_env [OF code_words_distinct, of "\<lambda>_. None"]
    by (simp add: fun_eq_iff kernel_env_def)
  with denote_append [OF es] es show ?thesis by simp
qed

lemma kernel_env_lookup:
  "kernel_env ''LIT'' = Some Literal"
  "kernel_env ''EXIT'' = Some (Acts (\<lambda>c v. (16, exit_word c v)))"
  "kernel_env ''BYE'' = Some (Acts (\<lambda>c v. (16, bye_word c v)))"
  "kernel_env ''DUP'' = Some (Acts (\<lambda>c v. (16, effect 1 (\<lambda>s. [s ! 0, s ! 0]) c v)))"
  "kernel_env ''DROP'' = Some (Acts (\<lambda>c v. (16, effect 1 (\<lambda>s. []) c v)))"
  "kernel_env ''*'' = Some (Acts (\<lambda>c v. (4 + (6 * nat (hd (vds v)) + 6), times_word c v)))"
  by (simp_all add: kernel_env_def CODE_WORDS_def PRIMITIVES_def primitive_def code_meaning_def
      code_semantics_def stack_words_def)

lemma kernel_cfas_lookup:
  "kernel_cfas ''LIT'' = Some 15" "kernel_cfas ''EXIT'' = Some 24" "kernel_cfas ''BYE'' = Some 32"
  "kernel_cfas ''DUP'' = Some 40" "kernel_cfas ''DROP'' = Some 49" "kernel_cfas ''*'' = Some 119"
  by (simp_all add: kernel_cfas_def)

subsection \<open>A fresh kernel machine\<close>

lemma kernel_machine_new_ok:
  "layout_ok kernel_machine_new" "dict_ok (cells kernel_machine_new) 8 []" "length (cells kernel_machine_new) = 2048"
  "ds kernel_machine_new = []" "rs kernel_machine_new = []" "region (dstk kernel_machine_new) = 1024"
  "region (rstk kernel_machine_new) = 1024" "inq kernel_machine_new = []" "outb kernel_machine_new = []"
proof -
  have "yields layout_ok cells same_but_cells (dictionary_new store_cell) machine_new () ((cells machine_new)[0 := 8, 1 := 0])"
    by (rule shared_memory.yields_dictionary_new) simp_all
  then obtain s where s: "dictionary_new store_cell machine_new = (Inr (), s)" "layout_ok s"
      "cells s = (replicate 2048 0)[0 := 8, 1 := 0]" "same_but_cells machine_new s"
    by (auto simp: yields_def)
  then have k: "kernel_machine_new = s" by (simp add: kernel_machine_new_def)
  show "layout_ok kernel_machine_new" "dict_ok (cells kernel_machine_new) 8 []" "length (cells kernel_machine_new) = 2048"
    using s by (simp_all add: k dict_ok_def dp_at_def)
  show "ds kernel_machine_new = []" "rs kernel_machine_new = []" "region (dstk kernel_machine_new) = 1024"
      "region (rstk kernel_machine_new) = 1024"
    using s(4) by (simp_all add: k same_but_cells_def)
  show "inq kernel_machine_new = []" "outb kernel_machine_new = []"
    using s(4) by (auto simp: k same_but_cells_def datapath_more_eq)
qed

lemma same_but_cells_fields:
  fixes s t :: emulator
  assumes "same_but_cells s t"
  shows "ds t = ds s" "rs t = rs s" "region (dstk t) = region (dstk s)" "region (rstk t) = region (rstk s)"
    "inq t = inq s" "outb t = outb s"
  using assms datapath_more_eq [of t s] by (simp_all add: same_but_cells_def)

subsection \<open>Which builds fail\<close>

text \<open>The names a boot thread refers to.\<close>

fun item_names :: "thread_item list \<Rightarrow> string list" where
  "item_names [] = []"
| "item_names (WordReference x # its) = x # item_names its"
| "item_names (LiteralCell v # its) = item_names its"

text \<open>The first name, in the order of the definitions and then of the boot thread, that has not been installed before its use.\<close>

fun unknown_name :: "string list \<Rightarrow> colon_word list \<Rightarrow> thread_item list \<Rightarrow> string option" where
  "unknown_name known [] items = List.find (\<lambda>x. x \<notin> set known) (item_names items)"
| "unknown_name known (w # ws) items =
     (case List.find (\<lambda>x. x \<notin> set known) (col_words w) of
        Some x \<Rightarrow> Some x
      | None \<Rightarrow> unknown_name (col_name w # known) ws items)"

lemma gather_cfa_of:
  assumes "dom cfas = set known"
  shows "case List.find (\<lambda>x. x \<notin> set known) xs of
     Some x \<Rightarrow> gather (cfa_of cfas) xs = Inl (KernelError (NotInstalled x)) | None \<Rightarrow> \<exists>vs. gather (cfa_of cfas) xs = Inr vs"
proof (induction xs)
  case (Cons x xs)
  show ?case
  proof (cases "cfas x")
    case None
    then have "x \<notin> set known" using assms by auto
    with None show ?thesis by (simp add: cfa_of_def)
  next
    case (Some a)
    then have "x \<in> set known" using assms by auto
    with Some Cons show ?thesis by (auto simp: cfa_of_def split: option.splits)
  qed
qed simp

lemma gather_item_cell:
  assumes "dom cfas = set known"
  shows "case List.find (\<lambda>x. x \<notin> set known) (item_names items) of
     Some x \<Rightarrow> gather (item_cell cfas) items = Inl (KernelError (NotInstalled x)) | None \<Rightarrow> \<exists>vs. gather (item_cell cfas) items = Inr vs"
proof (induction items rule: item_names.induct)
  case (2 x its)
  show ?case
  proof (cases "cfas x")
    case None
    then have "x \<notin> set known" using assms by auto
    with None show ?thesis by (simp add: cfa_of_def)
  next
    case (Some a)
    then have "x \<in> set known" using assms by auto
    with Some 2 show ?thesis by (auto simp: cfa_of_def split: option.splits)
  qed
qed (auto split: option.splits)

lemma plan_unknown:
  assumes "dom cfas = set known" and "EXIT_WORD \<in> set known"
  shows "case unknown_name known cs items of
      Some x \<Rightarrow> attempt (plan_words tab (map ColonWord cs) (k, cfas, es)) (\<lambda>(k, cfas, es). gather (item_cell cfas) items) =
        Inl (KernelError (NotInstalled x))
    | None \<Rightarrow> \<exists>k' cfas' es' vs. plan_words tab (map ColonWord cs) (k, cfas, es) = Inr (k', cfas', es') \<and>
        gather (item_cell cfas') items = Inr vs \<and> dom cfas' = set known \<union> col_name ` set cs"
  using assms
proof (induction cs arbitrary: known k cfas es)
  case Nil
  with gather_item_cell [of cfas known items] show ?case by (auto split: option.splits)
next
  case (Cons w cs)
  obtain a where exit: "cfas EXIT_WORD = Some a" using Cons.prems by blast
  show ?case
  proof (cases "List.find (\<lambda>x. x \<notin> set known) (col_words w)")
    case (Some x)
    with gather_cfa_of [OF Cons.prems(1), of "col_words w"] show ?thesis
      by (simp add: plan_word_def Let_def gather_append)
  next
    case None
    with gather_cfa_of [OF Cons.prems(1), of "col_words w"] exit obtain thread where
      "gather (cfa_of cfas) (col_words w @ [EXIT_WORD]) = Inr thread"
      by (auto simp: gather_append cfa_of_def)
    then obtain k1 a es1 where one: "plan_word tab (ColonWord w) (k, cfas, es) = Inr (k1, cfas(col_name w \<mapsto> a), es1)"
      by (simp add: plan_word_def Let_def)
    have "dom (cfas(col_name w \<mapsto> a)) = set (col_name w # known)" "EXIT_WORD \<in> set (col_name w # known)"
      using Cons.prems by auto
    from Cons.IH [OF this, of k1 es1] one None show ?thesis by (auto split: option.splits simp del: fun_upd_apply)
  qed
qed

lemma kernel_cfas_dom: "dom kernel_cfas = set (map cw_name CODE_WORDS)"
  unfolding kernel_cfas_def dom_map_of_conv_image_fst by (simp add: CODE_WORDS_def PRIMITIVES_def primitive_def)

text \<open>
  C15. A build with room in the dictionary fails exactly when a name is used before it is installed, and then with the error for the
  first such name in the order of the definitions and the boot thread, and with stacks and layout as they were; a definition's own
  name counts as installed only after it. Otherwise the image's table has the kernel's words and the caller's and nothing else.
\<close>

theorem build_rejects:
  fixes s :: emulator
  assumes "layout_ok s" and "dict_ok (cells s) 8 []"
    and "311 + sum_list (map (\<lambda>w. 6 + length (col_name w) + length (col_words w)) cs) + length items \<le> length (cells s)"
  shows "case unknown_name (map cw_name CODE_WORDS) cs items of
      Some x \<Rightarrow> \<exists>s'. build_image cs items s = (Inl (KernelError (NotInstalled x)), s') \<and> layout_ok s' \<and> ds s' = ds s \<and> rs s' = rs s
    | None \<Rightarrow> \<exists>img s'. build_image cs items s = (Inr img, s') \<and>
        dom (kword_cfas img) = set (map cw_name CODE_WORDS) \<union> col_name ` set cs"
proof -
  obtain es0 where es0: "plan_words kernel_labels (map CodeWord CODE_WORDS) empty_plan = Inr (311, kernel_cfas, es0)"
    using kernel_plan by blast
  note plan = es0 [unfolded empty_plan_def]
  have words: "plan_words kernel_labels (map CodeWord CODE_WORDS @ map ColonWord cs) (8, \<lambda>_. None, []) =
      plan_words kernel_labels (map ColonWord cs) (311, kernel_cfas, es0)"
    using plan by (simp add: plan_words_append)
  have "sum_list (map spec_room (map ColonWord cs)) = sum_list (map (\<lambda>w. 6 + length (col_name w) + length (col_words w)) cs)"
    by (induction cs) simp_all
  moreover have "sum_list (map spec_room (map CodeWord CODE_WORDS)) = 303" using plan_words_room [OF plan] by simp
  ultimately have room: "8 + sum_list (map spec_room (map CodeWord CODE_WORDS @ map ColonWord cs)) + length items \<le> length (cells s)"
    using assms(3) unfolding map_append sum_list_append by linarith
  have exit: "EXIT_WORD \<in> set (map cw_name CODE_WORDS)" by (simp add: EXIT_WORD_def CODE_WORDS_def PRIMITIVES_def primitive_def)
  note outcome = plan_unknown [OF kernel_cfas_dom exit, where cs = cs and items = items and tab = kernel_labels and k = 311 and es = es0]
  show ?thesis
  proof (cases "unknown_name (map cw_name CODE_WORDS) cs items")
    case (Some x)
    with outcome have "attempt (plan_words kernel_labels (map CodeWord CODE_WORDS @ map ColonWord cs) (8, \<lambda>_. None, []))
        (\<lambda>(k, cfas, es). gather (item_cell cfas) items) = Inl (KernelError (NotInstalled x))"
      unfolding words by simp
    from memory_dictionary.build_error [OF assms(1,2) this room] Some show ?thesis
      unfolding same_but_cells_def by fastforce
  next
    case None
    with outcome obtain k cfas es vs where plan': "plan_words kernel_labels (map ColonWord cs) (311, kernel_cfas, es0) = Inr (k, cfas, es)"
        "gather (item_cell cfas) items = Inr vs" "dom cfas = set (map cw_name CODE_WORDS) \<union> col_name ` set cs"
      by auto
    then have all: "plan_words kernel_labels (kernel_words cs) empty_plan = Inr (k, cfas, es)"
      unfolding kernel_words_def empty_plan_def words by simp
    have "k = 8 + sum_list (map spec_room (map CodeWord CODE_WORDS @ map ColonWord cs))"
      using plan_words_room [OF all [unfolded kernel_words_def empty_plan_def]] .
    with room have "k + length items \<le> length (cells s)" by simp
    from image_executes [OF assms(1,2) all plan'(2) this] plan'(3) None show ?thesis by auto
  qed
qed

text \<open>\<^verbatim>\<open>: BAD NOPE ;\<close> fails on its word, a boot thread \<^verbatim>\<open>GONE\<close> on its item.\<close>

theorem build_rejects_witness:
  "(\<exists>s. build_image [\<lparr>col_name = ''BAD'', col_words = [''DUP'', ''NOPE''], col_immediate = False\<rparr>] [] kernel_machine_new =
     (Inl (KernelError (NotInstalled ''NOPE'')), s)) \<and>
   (\<exists>s. build_image [] [WordReference ''GONE''] kernel_machine_new = (Inl (KernelError (NotInstalled ''GONE'')), s))"
  using build_rejects [OF kernel_machine_new_ok(1,2), of "[\<lparr>col_name = ''BAD'', col_words = [''DUP'', ''NOPE''], col_immediate = False\<rparr>]" "[]"]
    build_rejects [OF kernel_machine_new_ok(1,2), of "[]" "[WordReference ''GONE'']"]
  by (auto simp: kernel_machine_new_ok CODE_WORDS_def PRIMITIVES_def primitive_def)

subsection \<open>Images run as their boot thread means\<close>

text \<open>
  C1. The end-to-end statement: assemble the kernel, install its words and the caller's colon words, write
  the boot thread, boot and run. The run ends as the boot thread means, by name: with the state the words
  lead to when they halt the machine, with the error of the word that fails otherwise, within the steps
  the meaning counts.
\<close>

theorem image_runs:
  assumes "layout_ok s" and "dict_ok (cells s) 8 []"
    and "plan_words kernel_labels (kernel_words cs) empty_plan = Inr (k, cfas, es)"
    and "gather (item_cell cfas) items = Inr vs" and "k + length items \<le> length (cells s)"
  shows "\<exists>img s'. build_image cs items s = (Inr img, s') \<and> kword_cfas img = cfas \<and> kboot_ip img = int k \<and> same_but_cells s s' \<and>
    (\<forall>n r m. boot_meaning cs (k + length items) cfas (config_of (boot img s')) items (boot_state img s') = (n, r) \<longrightarrow>
       int (3 + n) < m \<longrightarrow> ends_as r (run m (boot img s')))"
proof -
  from image_executes [OF assms] obtain img s' where s': "build_image cs items s = (Inr img, s')"
      "kprogram img = kernel_program" "kword_cfas img = cfas" "kboot_ip img = int k" "layout_ok s'" "same_but_cells s s'"
      "\<And>c. executes c (boot_state img s') (boot_meaning cs (k + length items) cfas c items (boot_state img s'))"
    by blast
  have "ends_as r (run m (boot img s'))"
    if "boot_meaning cs (k + length items) cfas (config_of (boot img s')) items (boot_state img s') = (n, r)"
      "int (3 + n) < m" for n r m
    using that s'(2,5) s'(7) [of "config_of (boot img s')"]
    by (intro kernel_ends_as [where n = n]) (simp_all add: view_boot del: boot_sel(4,5))
  with s' show ?thesis by (intro exI [of _ img] exI [of _ s']) simp
qed

lemma drop_meaning: "vds v = [] \<Longrightarrow> boot_meaning [] hi cfas c [WordReference ''DROP''] v = (16, Fail underflow)"
proof -
  have env: "denote hi kernel_labels (kernel_words []) empty_plan (\<lambda>_. None) = kernel_env"
    using kernel_plan by (auto simp: kernel_words_def denote_kernel [of _ "[]", simplified])
  show "vds v = [] \<Longrightarrow> boot_meaning [] hi cfas c [WordReference ''DROP''] v = (16, Fail underflow)"
    unfolding boot_meaning_def env by (simp add: kernel_env_lookup effect_def)
qed

theorem image_runs_witness:
  "\<exists>img s t. build_image [] (boot_thread [Inl ''DROP'']) kernel_machine_new = (Inr img, s) \<and>
     run 100 (boot img s) = (Inl underflow, t)"
proof -
  obtain es where plan: "plan_words kernel_labels (kernel_words []) empty_plan = Inr (311, kernel_cfas, es)"
    using kernel_plan by (auto simp: kernel_words_def)
  have items: "boot_thread [Inl ''DROP''] = [WordReference ''DROP'']" by (simp add: boot_thread_def)
  have cells: "gather (item_cell kernel_cfas) (boot_thread [Inl ''DROP'']) = Inr [49]"
    by (simp add: items cfa_of_def kernel_cfas_lookup)
  have "311 + length (boot_thread [Inl ''DROP'']) \<le> length (cells kernel_machine_new)"
    by (simp add: items kernel_machine_new_ok)
  from image_runs [OF kernel_machine_new_ok(1,2) plan cells this]
  obtain img s where s: "build_image [] (boot_thread [Inl ''DROP'']) kernel_machine_new = (Inr img, s)"
      "same_but_cells kernel_machine_new s"
      "\<And>n r m. boot_meaning [] (311 + length (boot_thread [Inl ''DROP''])) kernel_cfas (config_of (boot img s))
         (boot_thread [Inl ''DROP'']) (boot_state img s) = (n, r) \<Longrightarrow> int (3 + n) < m \<Longrightarrow> ends_as r (run m (boot img s))"
    by blast
  have "vds (boot_state img s) = []" using same_but_cells_fields [OF s(2)] kernel_machine_new_ok by (simp add: boot_state_def)
  from s(3) [unfolded items, OF drop_meaning [OF this], of 100] have "fst (run 100 (boot img s)) = Inl underflow"
    by (simp add: ends_as_def)
  with s(1) show ?thesis by (metis prod.collapse)
qed

subsection \<open>SQUARE\<close>

definition SQUARE :: colon_word where
  "SQUARE = \<lparr>col_name = ''SQUARE'', col_words = [''DUP'', ''*''], col_immediate = False\<rparr>"

definition square_boot :: "int \<Rightarrow> thread_item list" where
  "square_boot n = boot_thread [Inl ''LIT'', Inr n, Inl ''SQUARE'', Inl ''BYE'']"

lemma square_plan:
  "\<exists>es. plan_words kernel_labels (kernel_words [SQUARE]) empty_plan = Inr (325, kernel_cfas(''SQUARE'' \<mapsto> 321), es)"
proof -
  obtain es where es: "plan_words kernel_labels (map CodeWord CODE_WORDS) empty_plan = Inr (311, kernel_cfas, es)"
    using kernel_plan by blast
  have "\<exists>es'. plan_word kernel_labels (ColonWord SQUARE) (311, kernel_cfas, es) = Inr (325, kernel_cfas(''SQUARE'' \<mapsto> 321), es')"
    by (simp add: plan_word_def SQUARE_def Let_def cfa_of_def kernel_cfas_lookup EXIT_WORD_def del: fun_upd_apply)
  then show ?thesis using es by (auto simp: kernel_words_def plan_words_append simp del: fun_upd_apply)
qed

text \<open>The meanings of names that are not defined again stay, and so do their addresses.\<close>

lemma denote_other: "x \<notin> spec_name ` set ws \<Longrightarrow> denote hi tab ws p env x = env x"
  by (induction ws arbitrary: p env) (auto split: sum.splits)

lemma spec_name_colon: "spec_name ` set (map ColonWord cs) = col_name ` set cs"
  by (simp add: image_image)

definition square_body :: "nat \<Rightarrow> config \<Rightarrow> vm \<Rightarrow> timed" where
  "square_body hi = colon_meaning hi kernel_env kernel_cfas 321 [''DUP'', ''*'']"

lemma square_denotes:
  assumes "list_all (\<lambda>w. col_name w \<notin> {''LIT'', ''SQUARE'', ''BYE''}) cs"
    and "env = denote hi kernel_labels (kernel_words (SQUARE # cs)) empty_plan (\<lambda>_. None)"
  shows "env ''SQUARE'' = Some (Acts (square_body hi))" "env ''LIT'' = kernel_env ''LIT''" "env ''BYE'' = kernel_env ''BYE''"
proof -
  obtain es where es: "plan_words kernel_labels (map CodeWord CODE_WORDS) empty_plan = Inr (311, kernel_cfas, es)"
    using kernel_plan by blast
  have "plan_word kernel_labels (ColonWord SQUARE) (311, kernel_cfas, es) \<noteq> Inl e" for e
    by (simp add: plan_word_def SQUARE_def Let_def cfa_of_def kernel_cfas_lookup EXIT_WORD_def del: fun_upd_apply)
  then obtain p where p: "plan_word kernel_labels (ColonWord SQUARE) (311, kernel_cfas, es) = Inr p"
    by (cases "plan_word kernel_labels (ColonWord SQUARE) (311, kernel_cfas, es)") auto
  have "env = denote hi kernel_labels (map ColonWord cs) p (kernel_env(''SQUARE'' \<mapsto> Acts (square_body hi)))"
    using es p unfolding assms(2) kernel_words_def denote_kernel
    by (simp add: SQUARE_def square_body_def del: fun_upd_apply)
  moreover have "x \<notin> spec_name ` set (map ColonWord cs)" if "x \<in> {''LIT'', ''SQUARE'', ''BYE''}" for x
    using that assms(1) unfolding spec_name_colon by (auto simp: list_all_iff)
  ultimately show "env ''SQUARE'' = Some (Acts (square_body hi))" "env ''LIT'' = kernel_env ''LIT''" "env ''BYE'' = kernel_env ''BYE''"
    by (simp_all add: denote_other)
qed

lemma square_meaning:
  assumes "0 \<le> n" and "length (vds v) + 2 \<le> dcap c" and "length (vrs v) < rcap c" and "\<not> vhalted v"
    and "list_all (\<lambda>w. col_name w \<notin> {''LIT'', ''SQUARE'', ''BYE''}) cs"
  shows "boot_meaning (SQUARE # cs) hi cfas c (square_boot n) v =
     (83 + 6 * nat n, Next (v\<lparr>vip := vip v + 4, vds := n * n # vds v, vhalted := True\<rparr>))"
proof -
  define env where "env = denote hi kernel_labels (kernel_words (SQUARE # cs)) empty_plan (\<lambda>_. None)"
  note names = square_denotes [OF assms(5) env_def]
  show ?thesis
    unfolding boot_meaning_def env_def [symmetric] square_boot_def
    using assms(1-4)
    by (simp add: names boot_thread_def kernel_env_lookup pushed_def square_body_def colon_meaning_def EXIT_WORD_def effect_def
        times_word_def exit_word_def bye_word_def)
qed

lemma square_image_runs:
  assumes "0 \<le> n" and "86 + 6 * n < m" and "list_all (\<lambda>w. col_name w \<notin> {''LIT'', ''SQUARE'', ''BYE''}) cs"
    and "plan_words kernel_labels (kernel_words (SQUARE # cs)) empty_plan = Inr (k, cfas, es)" and "k + 4 \<le> 2048"
  shows "\<exists>img s t. build_image (SQUARE # cs) (square_boot n) kernel_machine_new = (Inr img, s) \<and>
     run m (boot img s) = (Inr (), t) \<and> halted t \<and> ds t = [n * n] \<and> rs t = []"
proof -
  obtain es' where plan: "plan_words kernel_labels (kernel_words [SQUARE]) empty_plan =
      Inr (325, kernel_cfas(''SQUARE'' \<mapsto> 321), es')"
    using square_plan by blast
  have "kernel_words (SQUARE # cs) = kernel_words [SQUARE] @ map ColonWord cs" by (simp add: kernel_words_def)
  then have "plan_words kernel_labels (map ColonWord cs) (325, kernel_cfas(''SQUARE'' \<mapsto> 321), es') = Inr (k, cfas, es)"
    using assms(4) plan by (simp add: plan_words_append)
  note other = plan_words_other [OF this, unfolded spec_name_colon]
  have "x \<notin> col_name ` set cs" if "x \<in> {''LIT'', ''SQUARE'', ''BYE''}" for x
    using that assms(3) by (auto simp: list_all_iff)
  then have "cfas ''LIT'' = Some 15" "cfas ''SQUARE'' = Some 321" "cfas ''BYE'' = Some 32"
    using other [of "''LIT''"] other [of "''SQUARE''"] other [of "''BYE''"] by (simp_all add: kernel_cfas_lookup)
  then have cells: "gather (item_cell cfas) (square_boot n) = Inr [15, n, 321, 32]"
    by (simp add: square_boot_def boot_thread_def cfa_of_def)
  have "length (square_boot n) = 4" by (simp add: square_boot_def boot_thread_def)
  with assms(5) have "k + length (square_boot n) \<le> length (cells kernel_machine_new)"
    by (simp add: kernel_machine_new_ok)
  from image_executes [OF kernel_machine_new_ok(1,2) assms(4) cells this]
  obtain img s where s: "build_image (SQUARE # cs) (square_boot n) kernel_machine_new = (Inr img, s)"
      "kprogram img = kernel_program" "layout_ok s" "same_but_cells kernel_machine_new s"
    and exec: "\<And>c. executes c (boot_state img s)
        (boot_meaning (SQUARE # cs) (k + length (square_boot n)) cfas c (square_boot n) (boot_state img s))"
    by blast
  let ?v = "boot_state img s"
  let ?w = "?v\<lparr>vip := vip ?v + 4, vds := n * n # vds ?v, vhalted := True\<rparr>"
  note fresh = same_but_cells_fields [OF s(4)] kernel_machine_new_ok
  have "boot_meaning (SQUARE # cs) (k + length (square_boot n)) cfas (config_of (boot img s)) (square_boot n) ?v =
      (83 + 6 * nat n, Next ?w)"
    using assms(1,3) fresh by (intro square_meaning) (simp_all add: boot_state_def)
  then have "executes (config_of (boot img s)) ?v (83 + 6 * nat n, Next ?w)"
    using exec [of "config_of (boot img s)"] by (simp only:)
  moreover have "int (3 + (83 + 6 * nat n)) < m" using assms(1,2) by simp
  ultimately have "ends_as (Next ?w) (run m (boot img s))"
    using s(2,3) by (intro kernel_ends_as [where n = "83 + 6 * nat n"]) (simp_all only: view_boot boot_sel(1-3,6) simp_thms not_False_eq_True)
  then show ?thesis
    using s(1) fresh by (auto simp: ends_as_def view_def boot_state_def prod_eq_iff)
qed

text \<open>
  \<^verbatim>\<open>: SQUARE DUP * ;\<close> with the boot thread \<^verbatim>\<open>LIT n SQUARE BYE\<close>: for a natural \<open>n\<close> the machine halts
  within \<open>86 + 6 * n\<close> steps with the square alone on the data stack and the return stack empty.
\<close>

theorem square_runs:
  assumes "0 \<le> n" and "86 + 6 * n < m"
  shows "\<exists>img s t. build_image [SQUARE] (square_boot n) kernel_machine_new = (Inr img, s) \<and>
     run m (boot img s) = (Inr (), t) \<and> halted t \<and> ds t = [n * n] \<and> rs t = []"
  using square_image_runs [OF assms, of "[]"] square_plan by auto

theorem square_runs_witness:
  "\<exists>img s t. build_image [SQUARE] (square_boot 3) kernel_machine_new = (Inr img, s) \<and>
     run DEFAULT_MAX_STEPS (boot img s) = (Inr (), t) \<and> halted t \<and> ds t = [9] \<and> rs t = []"
  using square_runs [of 3 DEFAULT_MAX_STEPS] by simp

subsection \<open>Redefinition\<close>

lemma gather_cong: "(\<And>x. x \<in> set xs \<Longrightarrow> f x = g x) \<Longrightarrow> gather f xs = gather g xs"
  by (induction xs) simp_all

lemma run_items_cong:
  assumes "\<And>x. x \<in> set (item_names its) \<Longrightarrow> env x = env' x \<and> cfas x = cfas' x"
  shows "run_items hi env cfas c its v = run_items hi env' cfas' c its v"
  using assms
proof (induction hi env cfas c its v rule: run_items.induct)
  case (3 hi env cfas c x its v)
  show ?case
  proof (cases "env x")
    case None
    with "3.prems" show ?thesis by auto
  next
    case (Some d)
    then have x: "env' x = Some d" using "3.prems" [of x] by simp
    show ?thesis
    proof (cases d)
      case Literal
      show ?thesis
      proof (cases its)
        case (Cons it its')
        have cell: "item_cell cfas it = item_cell cfas' it"
          using "3.prems" Cons by (cases it) (auto simp: cfa_of_def)
        have names: "set (item_names its') \<subseteq> set (item_names its)" using Cons by (cases it) auto
        show ?thesis
        proof (cases "item_cell cfas it")
          case (Inr n)
          have "run_items hi env cfas c its' = run_items hi env' cfas' c its'"
            using "3.IH"(1) [OF Some Literal Cons Inr] "3.prems" names by (intro ext) auto
          then show ?thesis using Some x Literal Cons Inr cell by simp
        qed (use Some x Literal Cons cell in simp)
      qed (use Some x Literal in simp)
    next
      case (Acts f)
      have "(if vhalted w then (0, Next w)
          else if slice (vcells w) 8 hi = slice (vcells v) 8 hi \<and> (its = [] \<or> vip w = vip v + 1)
          then run_items hi env cfas c its w else (0, Wild)) =
        (if vhalted w then (0, Next w)
          else if slice (vcells w) 8 hi = slice (vcells v) 8 hi \<and> (its = [] \<or> vip w = vip v + 1)
          then run_items hi env' cfas' c its w else (0, Wild))" for w
        by (intro if_cong refl "3.IH"(2) [OF Some Acts]) (use "3.prems" in auto)
      then show ?thesis using Some x Acts by simp
    qed
  qed
qed simp_all

text \<open>
  C7. The builder binds names early: whatever colon words are built after the words \<open>cs\<close>, new definitions of words that \<open>cs\<close> use
  among them, the image runs a boot thread as it means with \<open>cs\<close> alone. The later words may have any names but those the boot thread
  itself refers to. (In the service, \<open>late_binding\<close>, a new definition changes what the older words do.)
\<close>

theorem early_binding:
  assumes "layout_ok s" and "dict_ok (cells s) 8 []"
    and "plan_words kernel_labels (kernel_words cs) empty_plan = Inr (k0, cfas0, es0)"
    and "plan_words kernel_labels (kernel_words (cs @ later)) empty_plan = Inr (k, cfas, es)"
    and "list_all (\<lambda>w. col_name w \<notin> set (item_names items)) later"
    and "gather (item_cell cfas0) items = Inr vs" and "k + length items \<le> length (cells s)"
  shows "\<exists>img s'. build_image (cs @ later) items s = (Inr img, s') \<and> same_but_cells s s' \<and>
    (\<forall>n r m. boot_meaning cs (k + length items) cfas0 (config_of (boot img s')) items (boot_state img s') = (n, r) \<longrightarrow>
       int (3 + n) < m \<longrightarrow> ends_as r (run m (boot img s')))"
proof -
  let ?hi = "k + length items"
  have words: "kernel_words (cs @ later) = kernel_words cs @ map ColonWord later" by (simp add: kernel_words_def)
  have rest: "plan_words kernel_labels (map ColonWord later) (k0, cfas0, es0) = Inr (k, cfas, es)"
    using assms(3,4) by (simp add: words plan_words_append)
  have new: "x \<notin> spec_name ` set (map ColonWord later)" if "x \<in> set (item_names items)" for x
    using that assms(5) unfolding spec_name_colon by (auto simp: list_all_iff)
  have table: "cfas x = cfas0 x" if "x \<in> set (item_names items)" for x
    using plan_words_other [OF rest new [OF that]] .
  have env: "denote ?hi kernel_labels (kernel_words (cs @ later)) empty_plan (\<lambda>_. None) x =
      denote ?hi kernel_labels (kernel_words cs) empty_plan (\<lambda>_. None) x" if "x \<in> set (item_names items)" for x
    unfolding words denote_append [OF assms(3)] by (rule denote_other [OF new [OF that]])
  have meaning: "boot_meaning (cs @ later) ?hi cfas c items v = boot_meaning cs ?hi cfas0 c items v" for c v
    unfolding boot_meaning_def by (rule run_items_cong) (simp add: table env)
  have "item_cell cfas it = item_cell cfas0 it" if "it \<in> set items" for it
  proof (cases it)
    case (WordReference x)
    with that have "x \<in> set (item_names items)" by (induction items rule: item_names.induct) auto
    with WordReference table show ?thesis by (simp add: cfa_of_def)
  qed simp
  then have "gather (item_cell cfas) items = Inr vs"
    using assms(6) gather_cong [of items "item_cell cfas" "item_cell cfas0"] by simp
  from image_executes [OF assms(1,2,4) this assms(7)] obtain img s' where s': "build_image (cs @ later) items s = (Inr img, s')"
      "kprogram img = kernel_program" "layout_ok s'" "same_but_cells s s'"
      "\<And>c. executes c (boot_state img s') (boot_meaning (cs @ later) ?hi cfas c items (boot_state img s'))"
    by blast
  have "ends_as r (run m (boot img s'))"
    if "boot_meaning cs ?hi cfas0 (config_of (boot img s')) items (boot_state img s') = (n, r)" "int (3 + n) < m" for n r m
    using that s'(2,3) s'(5) [of "config_of (boot img s')", unfolded meaning]
    by (intro kernel_ends_as [where n = n]) (simp_all add: view_boot del: boot_sel(4,5))
  with s'(1,4) show ?thesis by blast
qed

text \<open>\<^verbatim>\<open>*\<close> defined again as \<^verbatim>\<open>: * DROP ;\<close> after \<^verbatim>\<open>SQUARE\<close>.\<close>

definition DROPPING_TIMES :: colon_word where
  "DROPPING_TIMES = \<lparr>col_name = ''*'', col_words = [''DROP''], col_immediate = False\<rparr>"

theorem early_binding_witness:
  "\<exists>img s t. build_image [SQUARE, DROPPING_TIMES] (square_boot 3) kernel_machine_new = (Inr img, s) \<and>
     run 200 (boot img s) = (Inr (), t) \<and> ds t = [9]"
proof -
  obtain es where plan: "plan_words kernel_labels (kernel_words [SQUARE]) empty_plan =
      Inr (325, kernel_cfas(''SQUARE'' \<mapsto> 321), es)"
    using square_plan by blast
  have words: "kernel_words ([SQUARE] @ [DROPPING_TIMES]) = kernel_words [SQUARE] @ [ColonWord DROPPING_TIMES]"
    by (simp add: kernel_words_def)
  have "\<exists>k cfas es'. plan_words kernel_labels (kernel_words ([SQUARE] @ [DROPPING_TIMES])) empty_plan = Inr (k, cfas, es') \<and> k + 4 \<le> 2048"
    unfolding words plan_words_append plan
    by (simp add: plan_word_def DROPPING_TIMES_def Let_def cfa_of_def kernel_cfas_lookup EXIT_WORD_def del: fun_upd_apply)
      (simp add: kernel_cfas_lookup)
  then obtain k cfas es' where all: "plan_words kernel_labels (kernel_words ([SQUARE] @ [DROPPING_TIMES])) empty_plan = Inr (k, cfas, es')"
      "k + 4 \<le> 2048"
    by blast
  have cells: "gather (item_cell (kernel_cfas(''SQUARE'' \<mapsto> 321))) (square_boot 3) = Inr [15, 3, 321, 32]"
    by (simp add: square_boot_def boot_thread_def cfa_of_def kernel_cfas_lookup)
  have size: "length (square_boot 3) = 4" by (simp add: square_boot_def boot_thread_def)
  have names: "list_all (\<lambda>w. col_name w \<notin> set (item_names (square_boot 3))) [DROPPING_TIMES]"
    by (simp add: square_boot_def boot_thread_def DROPPING_TIMES_def)
  have "k + length (square_boot 3) \<le> length (cells kernel_machine_new)" using all(2) size by (simp add: kernel_machine_new_ok)
  from early_binding [OF kernel_machine_new_ok(1,2) plan all(1) names cells this]
  obtain img s where s: "build_image [SQUARE, DROPPING_TIMES] (square_boot 3) kernel_machine_new = (Inr img, s)"
      "same_but_cells kernel_machine_new s"
      "\<And>n r m. boot_meaning [SQUARE] (k + length (square_boot 3)) (kernel_cfas(''SQUARE'' \<mapsto> 321)) (config_of (boot img s))
        (square_boot 3) (boot_state img s) = (n, r) \<Longrightarrow> int (3 + n) < m \<Longrightarrow> ends_as r (run m (boot img s))"
    by auto
  let ?v = "boot_state img s"
  note fresh = same_but_cells_fields [OF s(2)] kernel_machine_new_ok
  have "boot_meaning [SQUARE] (k + length (square_boot 3)) (kernel_cfas(''SQUARE'' \<mapsto> 321)) (config_of (boot img s)) (square_boot 3) ?v =
      (83 + 6 * nat 3, Next (?v\<lparr>vip := vip ?v + 4, vds := 3 * 3 # vds ?v, vhalted := True\<rparr>))"
    using fresh by (intro square_meaning) (simp_all add: boot_state_def)
  from s(3) [OF this, of 200] show ?thesis
    using s(1) fresh by (auto simp: ends_as_def view_def boot_state_def prod_eq_iff)
qed

subsection \<open>Multiplication by a negative number\<close>

definition TIMES :: code_word where
  "TIMES = \<lparr>cw_name = ''*'', cw_routine_label = ''MUL'', cw_immediate = False\<rparr>"

lemma times_code: "TIMES \<in> set CODE_WORDS"
  by (simp add: TIMES_def CODE_WORDS_def PRIMITIVES_def primitive_def)

lemma times_word_lookup:
  "kernel_cfas (cw_name TIMES) = Some 119" "kernel_labels (cw_routine_label TIMES) = Some 70"
  by (simp_all add: TIMES_def kernel_cfas_lookup kernel_label_lookup)

definition times_boot :: "int \<Rightarrow> int \<Rightarrow> thread_item list" where
  "times_boot x y = boot_thread [Inl ''LIT'', Inr x, Inl ''LIT'', Inr y, Inl ''*'', Inl ''BYE'']"

lemma times_plan: "\<exists>es. plan_words kernel_labels (kernel_words []) empty_plan = Inr (311, kernel_cfas, es)"
  using kernel_plan by (simp add: kernel_words_def)

lemma times_prefix:
  assumes "length (vds v) + 2 \<le> dcap c"
  shows "boot_meaning [] 317 kernel_cfas c (take 4 (times_boot x y)) v =
     (32, Next (v\<lparr>vip := vip v + 4, vds := y # x # vds v\<rparr>))"
proof -
  have env: "denote 317 kernel_labels (kernel_words []) empty_plan (\<lambda>_. None) = kernel_env"
    using kernel_plan by (auto simp: kernel_words_def denote_kernel [of _ "[]", simplified])
  show ?thesis
    using assms unfolding boot_meaning_def env times_boot_def
    by (simp add: boot_thread_def kernel_env_lookup pushed_def)
qed

text \<open>
  C11. The kernel's \<^verbatim>\<open>*\<close> with a negative number on top never ends: whatever the step budget, the run of
  \<^verbatim>\<open>LIT x LIT y * BYE\<close> raises the runaway error.
\<close>

theorem negative_times_exceeds:
  assumes "y < 0" and "0 \<le> m"
  shows "\<exists>img s t. build_image [] (times_boot x y) kernel_machine_new = (Inr img, s) \<and>
     run m (boot img s) = (Inl (EmulatorError (ExceededSteps m)), t)"
proof -
  obtain es where plan: "plan_words kernel_labels (kernel_words []) empty_plan = Inr (311, kernel_cfas, es)"
    using times_plan by blast
  have cells: "gather (item_cell kernel_cfas) (times_boot x y) = Inr [15, x, 15, y, 119, 32]"
    by (simp add: times_boot_def boot_thread_def cfa_of_def kernel_cfas_lookup)
  have hi: "311 + length (times_boot x y) = 317" by (simp add: times_boot_def boot_thread_def)
  have "311 + length (times_boot x y) \<le> length (cells kernel_machine_new)"
    by (simp add: hi kernel_machine_new_ok)
  from image_executes [OF kernel_machine_new_ok(1,2) plan cells this, unfolded hi]
  obtain img s where s: "build_image [] (times_boot x y) kernel_machine_new = (Inr img, s)"
      "kprogram img = kernel_program" "kboot_ip img = 311" "layout_ok s" "same_but_cells kernel_machine_new s"
      "plan_done (cells s) (317, kernel_cfas, es)" "slice (cells s) 311 317 = [15, x, 15, y, 119, 32]"
    and exec: "\<And>c its. prefix its (times_boot x y) \<Longrightarrow>
         executes c (boot_state img s) (boot_meaning [] 317 kernel_cfas c its (boot_state img s))"
    by (auto simp del: boot_sel)
  let ?c = "config_of (boot img s)" and ?v = "boot_state img s"
  define w where "w = ?v\<lparr>vip := vip ?v + 4, vds := y # x # vds ?v\<rparr>"
  note fresh = same_but_cells_fields [OF s(5)] kernel_machine_new_ok
  have "prefix (take 4 (times_boot x y)) (times_boot x y)" by (rule take_is_prefix)
  moreover have "boot_meaning [] 317 kernel_cfas ?c (take 4 (times_boot x y)) ?v = (32, Next w)"
    unfolding w_def using fresh by (intro times_prefix) (simp add: boot_state_def)
  ultimately have reach: "vm_exec ?c ?v 32 w" using exec [of "take 4 (times_boot x y)" ?c] by simp
  obtain p where p: "placed (cells s) 317 p" "pcfa p = 119" "pcode p = 70"
    using code_entry [OF plan [unfolded empty_plan_def kernel_words_def list.map(1) append_Nil2] code_words_distinct times_code]
      s(6) by (auto simp: times_word_lookup plan_done_def list_all_iff)
  have len: "317 \<le> length (cells s)" using p(1) by (simp add: placed_def)
  have "cells s ! 315 = 119" using s(7) nth_slice [of 4 317 311 "cells s"] len by simp
  moreover have "cells s ! 119 = 70" using p by (simp add: placed_def)
  ultimately have "read_store (vcells w) (vip w) = Some 119" "read_store (vcells w) 119 = Some 70"
    using len s(3) by (simp_all add: w_def boot_state_def read_store_Some in_store_def)
  then have "diverges ?c a" if "settled ?c w a" for a
    using that s(2) assms(1) by (intro times_diverges [of ?c w a 119 y x "vds ?v"]) (simp_all add: w_def boot_state_def)
  from boot_diverges [OF s(4,2) reach this assms(2)] s(1) show ?thesis by blast
qed

theorem negative_times_exceeds_witness:
  "\<exists>img s t. build_image [] (times_boot 3 (- 2)) kernel_machine_new = (Inr img, s) \<and>
     run DEFAULT_MAX_STEPS (boot img s) = (Inl (EmulatorError (ExceededSteps DEFAULT_MAX_STEPS)), t)"
  using negative_times_exceeds [of "- 2" DEFAULT_MAX_STEPS 3] by simp

end
