(* ===== verification/Lookup.thy ===== *)
theory Lookup
  imports Programs
begin

section \<open>Finding words\<close>

text \<open>
  Three ways to a word's code field address: the builder's table, the host's \<^verbatim>\<open>find\<close> over the dictionary
  in memory, and the kernel's \<^verbatim>\<open>FIND\<close> over the same cells. They agree on everything the builder installs;
  \<^verbatim>\<open>FIND\<close> differs from the host's \<^verbatim>\<open>find\<close> on smudged words only.
\<close>

subsection \<open>FIND and the link chain\<close>

lemma read_store_nat: "i < length m \<Longrightarrow> read_store m (int i) = Some (m ! i)"
  by (simp add: read_store_Some in_store_def)

lemma search_chain:
  assumes "chain_in m hi nf es" and "length es < n"
  shows "search n m name nf =
    (case List.find (\<lambda>e. esmudge e = 0 \<and> ename e = name) es of
       None \<Rightarrow> Some (0, 0)
     | Some e \<Rightarrow> Some (if eimm e = 0 then -1 else 1, int (ecfa e)))"
  using assms
proof (induction es arbitrary: n hi nf)
  case Nil
  then show ?case by (cases n) auto
next
  case (Cons e es)
  obtain k where k: "n = Suc k" "length es < k" using Cons.prems(2) by (cases n) auto
  have e: "nf = int (enf e)" "11 \<le> enf e" "ecfa e < length m" "counted m nf = Some (ename e)"
      "m ! (enf e - 2) = eimm e" "m ! (enf e - 1) = esmudge e" "chain_in m (enf e - 3) (m ! (enf e - 3)) es"
    using Cons.prems(1) by auto
  have lt: "enf e < length m" using e(3) by (simp add: ecfa_def)
  have at: "read_store m (nf - int j) = Some (m ! (enf e - j))" if "j \<le> 3" for j
    using that e(1,2) lt read_store_nat [of "enf e - j" m] by (simp add: of_nat_diff)
  have "read_store m (nf - 1) = Some (esmudge e)" "read_store m (nf - 2) = Some (eimm e)"
      "read_store m (nf - 3) = Some (m ! (enf e - 3))"
    using at [of 1] at [of 2] at [of 3] e(5,6) by simp_all
  with e k Cons.IH [OF e(7) k(2)] show ?case
    by (simp add: ecfa_def SMUDGE_FROM_NAME_FIELD_def IMMEDIATE_FROM_NAME_FIELD_def LINK_FROM_NAME_FIELD_def)
qed

lemma visited_chain: "chain_in m hi nf es \<Longrightarrow> visited n m name nf \<le> length es"
proof (induction es arbitrary: n hi nf)
  case Nil
  then show ?case by (cases n) auto
next
  case (Cons e es)
  then have "visited k m name (m ! (enf e - 3)) \<le> length es" for k by auto
  moreover have "read_store m (nf - LINK_FROM_NAME_FIELD) = Some (m ! (enf e - 3))"
  proof -
    have "enf e - 3 < length m" "11 \<le> enf e" "nf = int (enf e)" using Cons.prems by (auto simp: ecfa_def)
    with read_store_nat [of "enf e - 3" m] show ?thesis by (simp add: LINK_FROM_NAME_FIELD_def of_nat_diff)
  qed
  ultimately show ?case by (cases n) (auto split: option.splits)
qed

lemma chain_in_less: "chain_in m hi nf es \<Longrightarrow> es \<noteq> [] \<Longrightarrow> length es < hi"
  using chain_in_length by (cases es) (fastforce simp: ecfa_def)+

text \<open>What \<^verbatim>\<open>FIND\<close> puts on the stack for a header, or for none.\<close>

fun find_answer :: "dictionary_header option \<Rightarrow> int list" where
  "find_answer None = [0, 0]"
| "find_answer (Some h) = [if himmediate h then 1 else -1, hcfa h]"

lemma find_word_search:
  assumes "chain_in (vcells v) hi (vcells v ! 1) es" and "length es < length (vcells v)"
    and "1 < length (vcells v)" and "vds v = p # d" and "counted (vcells v) p = Some name" and "length d + 2 \<le> dcap c"
  shows "find_word c v =
      Next (v\<lparr>vds := find_answer (map_option (header_of m) (List.find (\<lambda>e. esmudge e = 0 \<and> ename e = name) es)) @ d\<rparr>)"
    and "find_cost v \<le> length es * (13 * length name + 45) + 21"
proof -
  have latest: "read_store (vcells v) LATEST_ADDR = Some (vcells v ! 1)"
    using read_store_nat [of 1 "vcells v"] assms(3) by simp
  with search_chain [OF assms(1,2), of name] show "find_word c v =
      Next (v\<lparr>vds := find_answer (map_option (header_of m) (List.find (\<lambda>e. esmudge e = 0 \<and> ename e = name) es)) @ d\<rparr>)"
    using assms(4-6)
    by (cases "List.find (\<lambda>e. esmudge e = 0 \<and> ename e = name) es") (simp_all add: find_word_def header_of_def)
  show "find_cost v \<le> length es * (13 * length name + 45) + 21"
    using visited_chain [OF assms(1)] assms(4,5) latest by (simp add: find_cost_def)
qed

lemma find_unsmudged:
  "list_all (\<lambda>e. esmudge e = 0) es \<Longrightarrow>
     List.find (\<lambda>e. esmudge e = 0 \<and> ename e = name) es = List.find (\<lambda>e. ename e = name) es"
  by (induction es) auto

lemma find_word_chain:
  assumes "chain_in (vcells v) hi (vcells v ! 1) es" and "list_all (\<lambda>e. esmudge e = 0) es" and "length es < length (vcells v)"
    and "1 < length (vcells v)" and "vds v = p # d" and "counted (vcells v) p = Some name" and "length d + 2 \<le> dcap c"
  shows "find_word c v =
      Next (v\<lparr>vds := find_answer (map_option (header_of m) (List.find (\<lambda>e. ename e = name) es)) @ d\<rparr>)"
    and "find_cost v \<le> length es * (13 * length name + 45) + 21"
  using find_word_search [OF assms(1,3-7)] by (simp_all add: find_unsmudged [OF assms(2)])

subsection \<open>Running a routine of the kernel on the emulator\<close>

text \<open>
  The emulator is about to execute the routine at label \<open>l\<close> of the assembled kernel, with \<^verbatim>\<open>NEXT\<close> in the register
  the routines return through.
\<close>

definition enters :: "assembly \<Rightarrow> string \<Rightarrow> emulator \<Rightarrow> bool" where
  "enters a l s \<longleftrightarrow> layout_ok s \<and> prog s = aprogram a \<and> alabels a l = Some (pc s) \<and> \<not> halted s \<and>
     alabels a ''NEXT'' = Some (register_read (regs s) ''NEXTREG'')"

text \<open>It has come back to \<^verbatim>\<open>NEXT\<close>.\<close>

definition returns :: "assembly \<Rightarrow> emulator \<Rightarrow> bool" where
  "returns a t \<longleftrightarrow> \<not> halted t \<and> alabels a ''NEXT'' = Some (pc t)"

lemma routine_runs:
  assumes "assemble KERNEL_SOURCE = Inr a" and "enters a l s" and "implements (config_of s) (the (kernel_labels l)) n f"
  shows "case f (config_of s) (view (abstract_of s)) of
      Next v \<Rightarrow> \<exists>j t. j \<le> n (view (abstract_of s)) \<and> goes j s t \<and> kept s t \<and> settled (config_of s) v (abstract_of t)
    | Fail e \<Rightarrow> \<exists>j t u. j \<le> n (view (abstract_of s)) \<and> goes j s t \<and> \<not> halted t \<and> step t = (Inl e, u)
    | Wild \<Rightarrow> True"
proof -
  have a: "aprogram a = kernel_program" "alabels a = kernel_labels" using assms(1) by (auto simp: assemble_kernel)
  have s: "layout_ok s" "prog s = kernel_program" "pc s = the (kernel_labels l)" "\<not> halted s"
      "register_read (regs s) ''NEXTREG'' = 3"
    using assms(2) by (simp_all add: enters_def a kernel_label_lookup)
  have "poised (config_of s) (the (kernel_labels l)) (abstract_of s)"
    using s stacks_in_region [OF s(1)] by (simp add: poised_def aread_def)
  with assms(3) have del: "delivers (config_of s) (n (view (abstract_of s))) (abstract_of s) (f (config_of s) (view (abstract_of s)))"
    by (simp add: implements_def)
  show ?thesis
  proof (cases "f (config_of s) (view (abstract_of s))")
    case (Next v)
    with del obtain j where "j \<le> n (view (abstract_of s))" "after (config_of s) j (abstract_of s) (settled (config_of s) v)"
      by (auto simp: delivers_def within_def)
    with after_goes [OF s(1) this(2)] Next show ?thesis by auto
  next
    case (Fail e)
    with del obtain j where j: "j \<le> n (view (abstract_of s))"
        "after (config_of s) j (abstract_of s) (\<lambda>b. \<not> ahalted b \<and> astep (config_of s) b = Fail e)"
      by (auto simp: delivers_def within_def)
    from after_goes [OF s(1) j(2)] obtain t where
      t: "goes j s t" "kept s t" "\<not> halted t" "astep (config_of t) (abstract_of t) = Fail e" by (auto simp: kept_def)
    then have "layout_ok t" by (simp add: kept_def)
    from step_meets [OF this] t(4) obtain u where "step t = (Inl e, u)" by (auto simp: meets_def)
    with j(1) t Fail show ?thesis by auto
  qed simp
qed

lemma settled_returns:
  assumes "assemble KERNEL_SOURCE = Inr a" and "settled c v (abstract_of t)" and "\<not> vhalted v"
  shows "returns a t" "ds t = vds v" "rs t = vrs v" "cells t = vcells v" "inq t = vin v" "outb t = vout v"
    "register_read (regs t) ''IP'' = vip v"
proof -
  have "alabels a = kernel_labels" using assms(1) by (auto simp: assemble_kernel)
  with assms(2,3) show "returns a t" by (auto simp: returns_def settled_def view_def kernel_label_lookup)
  show "ds t = vds v" "rs t = vrs v" "cells t = vcells v" "inq t = vin v" "outb t = vout v" "register_read (regs t) ''IP'' = vip v"
    using assms(2) by (auto simp: settled_def view_def aread_def)
qed

text \<open>A machine about to run a routine on the data of another machine.\<close>

definition entering :: "string \<Rightarrow> emulator \<Rightarrow> emulator" where
  "entering l e = e\<lparr>prog := kernel_program, pc := the (kernel_labels l), halted := False, regs := (\<lambda>_. None)(''NEXTREG'' \<mapsto> 3)\<rparr>"

lemma entering_sel:
  assumes "layout_ok e" and "kernel_labels l = Some k"
  shows "enters \<lparr>aprogram = kernel_program, alabels = kernel_labels\<rparr> l (entering l e)"
    "cells (entering l e) = cells e" "ds (entering l e) = ds e" "rs (entering l e) = rs e"
    "region (dstk (entering l e)) = region (dstk e)"
  using assms by (simp_all add: enters_def entering_def kernel_label_lookup register_read_def layout_ok_def cells_def ds_def rs_def)

text \<open>
  C5. The kernel's routine \<^verbatim>\<open>FIND\<close> against the dictionary adapter's \<^verbatim>\<open>find\<close>. The emulator, entering the assembled
  routine with the address of a counted string on the data stack, comes back to \<^verbatim>\<open>NEXT\<close> within the stated number of steps with the
  code field address and the flag of the newest word of that name that is not smudged, or two zeros, and changes neither memory nor the
  return stack nor the thread pointer. On the same cells \<^verbatim>\<open>find\<close> gives the newest word of that name, smudged or not; so the two
  agree when no word is smudged.
\<close>

theorem find_word_agrees:
  assumes "assemble KERNEL_SOURCE = Inr a" and "enters a ''FIND'' s" and "dict_ok (cells s) k es"
    and "ds s = p # d" and "counted (cells s) p = Some name" and "length d + 2 \<le> region (dstk s)"
  shows "\<exists>n t h g. n \<le> length es * (13 * length name + 45) + 21 \<and> goes n s t \<and> returns a t \<and> ds t = find_answer h @ d \<and>
    cells t = cells s \<and> rs t = rs s \<and> register_read (regs t) ''IP'' = register_read (regs s) ''IP'' \<and>
    dictionary_find load_cell name s = Some (Inr g, s) \<and>
    h = map_option (header_of (cells s)) (List.find (\<lambda>e. esmudge e = 0 \<and> ename e = name) es) \<and>
    g = map_option (header_of (cells s)) (List.find (\<lambda>e. ename e = name) es) \<and>
    (list_all (\<lambda>e. esmudge e = 0) es \<longrightarrow> g = h)"
proof -
  let ?v = "view (abstract_of s)"
  let ?h = "map_option (header_of (cells s)) (List.find (\<lambda>e. esmudge e = 0 \<and> ename e = name) es)"
  have s: "layout_ok s" "\<not> halted s" using assms(2) by (auto simp: enters_def)
  have ch: "chain_in (cells s) k (cells s ! 1) es" and dp: "dp_at k (cells s)" using assms(3) by (auto simp: dict_ok_def)
  have v: "vcells ?v = cells s" "vds ?v = p # d" "dcap (config_of s) = region (dstk s)" "\<not> vhalted ?v" "vrs ?v = rs s"
      "vip ?v = register_read (regs s) ''IP''"
    using assms(4) s(2) by (simp_all add: view_def config_of_def aread_def)
  have room: "length es < length (cells s)" "1 < length (cells s)"
    using chain_in_less [OF ch] dp dp_at_pos [OF dp] by (cases "es = []", auto simp: dp_at_def)
  have found: "find_word (config_of s) ?v = Next (?v\<lparr>vds := find_answer ?h @ d\<rparr>)"
      "find_cost ?v \<le> length es * (13 * length name + 45) + 21"
    using ch room assms(5,6) by (intro find_word_search [where p = p and hi = k and c = "config_of s"], simp_all only: v)+
  have "implements (config_of s) (the (kernel_labels ''FIND'')) find_cost find_word" by (simp add: kernel_label_lookup FIND_word)
  from routine_runs [OF assms(1,2) this] found obtain n t where
    t: "n \<le> find_cost ?v" "goes n s t" "settled (config_of s) (?v\<lparr>vds := find_answer ?h @ d\<rparr>) (abstract_of t)"
    by auto
  note ret = settled_returns [OF assms(1) t(3)]
  have "returns a t \<and> ds t = find_answer ?h @ d \<and> cells t = cells s \<and> rs t = rs s \<and>
      register_read (regs t) ''IP'' = register_read (regs s) ''IP''"
    using ret v by simp
  moreover have "n \<le> length es * (13 * length name + 45) + 21" using t(1) found(2) by simp
  ultimately show ?thesis
    using t(2) shared_memory.dictionary_find_ok [OF s(1) assms(3), of name] find_unsmudged [of es name] by fastforce
qed

subsection \<open>The builder's table\<close>

definition finds :: "cfa_table \<Rightarrow> entry list \<Rightarrow> bool" where
  "finds cfas es \<longleftrightarrow> (\<forall>x. cfas x = map_option (\<lambda>e. int (ecfa e)) (List.find (\<lambda>e. ename e = codes x) es))"

lemma plan_words_finds:
  "plan_words tab ws (k, cfas, es) = Inr (k', cfas', es') \<Longrightarrow> finds cfas (map fst es) \<Longrightarrow> finds cfas' (map fst es')"
proof (induction ws arbitrary: k cfas es)
  case (Cons w ws)
  from Cons.prems(1) obtain k1 cfas1 es1 where one: "plan_word tab w (k, cfas, es) = Inr (k1, cfas1, es1)"
    and rest: "plan_words tab ws (k1, cfas1, es1) = Inr (k', cfas', es')"
    by (auto simp: attempt_eq_Inr)
  have "finds cfas1 (map fst es1)"
    using one Cons.prems(2) by (auto simp: plan_word_def attempt_eq_Inr Let_def finds_def ecfa_def)
  with Cons.IH rest show ?case by blast
qed simp

lemma plan_words_unsmudged:
  "plan_words tab ws (k, cfas, es) = Inr (k', cfas', es') \<Longrightarrow> list_all (\<lambda>x. esmudge (fst x) = 0) es \<Longrightarrow>
     list_all (\<lambda>x. esmudge (fst x) = 0) es'"
proof (induction ws arbitrary: k cfas es)
  case (Cons w ws)
  then show ?case by (fastforce simp: plan_word_def attempt_eq_Inr Let_def)
qed simp

lemma plan_words_plain:
  "plan_words tab ws (k, cfas, es) = Inr (k', cfas', es') \<Longrightarrow> list_all (\<lambda>w. \<not> spec_immediate w) ws \<Longrightarrow>
     list_all (\<lambda>x. eimm (fst x) = 0) es \<Longrightarrow> list_all (\<lambda>x. eimm (fst x) = 0) es'"
proof (induction ws arbitrary: k cfas es)
  case (Cons w ws)
  then show ?case by (fastforce simp: plan_word_def attempt_eq_Inr Let_def)
qed simp

text \<open>
  C6. Every word the builder installs can be looked up: \<^verbatim>\<open>find\<close> in the built dictionary gives, for each name, the
  code field address of the image's table, and nothing for a name that was not installed.
\<close>

theorem image_words_found:
  assumes "layout_ok s" and "dict_ok (cells s) 8 []"
    and "plan_words kernel_labels (kernel_words cs) empty_plan = Inr (k, cfas, es)"
    and "gather (item_cell cfas) items = Inr vs" and "k + length items \<le> length (cells s)"
  shows "\<exists>img s'. build_image cs items s = (Inr img, s') \<and> kword_cfas img = cfas \<and>
    (\<forall>x. \<exists>h. dictionary_find load_cell (codes x) s' = Some (Inr h, s') \<and> map_option hcfa h = cfas x)"
proof -
  from image_executes [OF assms] obtain img s' where s': "build_image cs items s = (Inr img, s')" "kword_cfas img = cfas"
      "layout_ok s'" "plan_done (cells s') (k + length items, cfas, es)"
    by blast
  have d: "dict_ok (cells s') (k + length items) (map fst es)" using s'(4) by (simp add: plan_done_def)
  have f: "finds cfas (map fst es)"
    by (rule plan_words_finds [OF assms(3) [unfolded empty_plan_def]]) (simp add: finds_def)
  have "\<exists>h. dictionary_find load_cell (codes x) s' = Some (Inr h, s') \<and> map_option hcfa h = cfas x" for x
    using shared_memory.dictionary_find_ok [OF s'(3) d, of "codes x"] f
    by (auto simp: finds_def header_of_def option.map_comp comp_def)
  with s'(1,2) show ?thesis by blast
qed

theorem image_words_found_witness:
  "\<exists>img s h. build_image [SQUARE] (square_boot 3) kernel_machine_new = (Inr img, s) \<and>
     dictionary_find load_cell (codes ''SQUARE'') s = Some (Inr (Some h), s) \<and> hcfa h = 321"
proof -
  obtain es where plan: "plan_words kernel_labels (kernel_words [SQUARE]) empty_plan =
      Inr (325, kernel_cfas(''SQUARE'' \<mapsto> 321), es)"
    using square_plan by blast
  have cells: "gather (item_cell (kernel_cfas(''SQUARE'' \<mapsto> 321))) (square_boot 3) = Inr [15, 3, 321, 32]"
    by (simp add: square_boot_def boot_thread_def cfa_of_def kernel_cfas_lookup)
  have "325 + length (square_boot 3) \<le> length (cells kernel_machine_new)"
    by (simp add: square_boot_def boot_thread_def kernel_machine_new_ok)
  from image_words_found [OF kernel_machine_new_ok(1,2) plan cells this]
  obtain img s h where s: "build_image [SQUARE] (square_boot 3) kernel_machine_new = (Inr img, s)"
      "dictionary_find load_cell (codes ''SQUARE'') s = Some (Inr h, s)" "map_option hcfa h = Some 321"
    by (metis fun_upd_same)
  then show ?thesis by auto
qed

lemma chain_in_counted: "chain_in m hi nf es \<Longrightarrow> e \<in> set es \<Longrightarrow> counted m (int (enf e)) = Some (ename e)"
  by (induction m hi nf es rule: chain_in.induct) auto

theorem find_word_agrees_witness:
  "\<exists>(s :: emulator) a p n t. assemble KERNEL_SOURCE = Inr a \<and> enters a ''FIND'' s \<and> ds s = [p] \<and>
     counted (cells s) p = Some (codes ''DUP'') \<and> goes n s t \<and> returns a t \<and> ds t = [-1, 40]"
proof -
  obtain es where plan: "plan_words kernel_labels (kernel_words []) empty_plan = Inr (311, kernel_cfas, es)"
    using kernel_plan by (auto simp: kernel_words_def)
  have cells: "gather (item_cell kernel_cfas) (boot_thread []) = Inr []" by (simp add: boot_thread_def)
  have "311 + length (boot_thread []) \<le> length (cells kernel_machine_new)"
    by (simp add: boot_thread_def kernel_machine_new_ok)
  from image_executes [OF kernel_machine_new_ok(1,2) plan cells this]
  obtain s :: emulator where s: "layout_ok s" "plan_done (cells s) (311, kernel_cfas, es)" "same_but_cells kernel_machine_new s"
    by (auto simp: boot_thread_def)
  let ?es = "map fst es" and ?a = "\<lparr>aprogram = kernel_program, alabels = kernel_labels\<rparr>"
  have "finds kernel_cfas ?es"
    by (rule plan_words_finds [OF plan [unfolded empty_plan_def]]) (simp add: finds_def)
  then obtain e where e: "List.find (\<lambda>e. ename e = codes ''DUP'') ?es = Some e" "ecfa e = 40"
    using kernel_cfas_lookup(4) by (auto simp: finds_def simp del: codes_simps dest!: spec [of _ "''DUP''"])
  have "list_all (\<lambda>w. \<not> spec_immediate w) (kernel_words [])"
    by (simp add: kernel_words_def CODE_WORDS_def PRIMITIVES_def primitive_def)
  then have flat: "list_all (\<lambda>e. esmudge e = 0) ?es" "list_all (\<lambda>e. eimm e = 0) ?es"
    using plan_words_plain [OF plan [unfolded empty_plan_def]] plan_words_unsmudged [OF plan [unfolded empty_plan_def]]
    by (simp_all add: list_all_iff)
  from e have "e \<in> set ?es" "ename e = codes ''DUP''" by (auto simp: find_Some_iff)
  then have name: "counted (cells s) (int (enf e)) = Some (codes ''DUP'')" "eimm e = 0"
    using s(2) chain_in_counted [of "cells s" 311 "cells s ! 1" ?es e] flat(2) by (auto simp: dict_ok_def plan_done_def list_all_iff)
  obtain u where u: "push_d (int (enf e)) s = (Inr (), u)" "layout_ok u" "ds u = [int (enf e)]" "same_but_d s u"
    using data_stack.push_ok [of s "int (enf e)"] s(1,3) same_but_cells_fields [OF s(3)] kernel_machine_new_ok by auto
  let ?u = "entering ''FIND'' u"
  have "kernel_labels ''FIND'' = Some 304" by (simp add: kernel_label_lookup)
  note entering = entering_sel [OF u(2) this]
  then have same: "cells ?u = cells s" "ds ?u = [int (enf e)]" "region (dstk ?u) = 1024"
    using u(3,4) same_but_cells_fields [OF s(3)] kernel_machine_new_ok by (auto simp: same_but_d_def same_region_def region_def)
  note enters = entering(1)
  have "dict_ok (cells ?u) 311 ?es" using s(2) same by (simp add: plan_done_def)
  from find_word_agrees [OF assemble_kernel enters this same(2), of "codes ''DUP''"] same name(1) obtain n t where
    t: "goes n ?u t" "returns ?a t"
      "ds t = find_answer (map_option (header_of (cells ?u)) (List.find (\<lambda>e. esmudge e = 0 \<and> ename e = codes ''DUP'') ?es))"
    by auto
  moreover have "List.find (\<lambda>e. esmudge e = 0 \<and> ename e = codes ''DUP'') ?es = Some e"
    using e(1) find_unsmudged [OF flat(1)] by simp
  ultimately have "ds t = [-1, 40]" using e(2) name(2) by (simp add: header_of_def)
  with t(1,2) assemble_kernel enters same name(1) show ?thesis by metis
qed

end
