(* ===== verification/Forth.thy ===== *)
theory Forth
  imports Threaded
begin

section \<open>The Forth service\<close>

text \<open>
  \<^verbatim>\<open>services/forth.py\<close>: Forth words as callables over the injected data path, and colon definitions as
  lists of names looked up when they run. The words on the data stack are defined over any stack port
  (its \<open>push\<close>, \<open>pop\<close> and \<open>peek\<close>); a plain list with a capacity is one, the abstract specification, and
  \<open>word_refines\<close> says that over every stack with the contract of \<open>stack_port\<close> a word does what it does
  to the list. Then: a word leaves the memory layout intact, and nothing it runs changes a definition.
\<close>

subsection \<open>Words on the data stack\<close>

text \<open>
  The built-in words by what they do: \<open>Binary\<close> and \<open>Unary\<close> are the lambdas over \<^verbatim>\<open>_binop\<close> and over one
  popped value.
\<close>

datatype builtin =
  Dup | Drop | Swap | Over | Rot | NegRot | Nip | Tuck
| Binary "int \<Rightarrow> int \<Rightarrow> error + int"
| Unary "int \<Rightarrow> int"
| FetchCell | StoreCell | ToR | FromR | RFetch
| Lit | Docol | Exit | Bye | NoOp

type_synonym 's push_port = "int \<Rightarrow> (error, 's, unit) exec"
type_synonym 's pop_port = "(error, 's, int) exec"

definition binop :: "'s push_port \<Rightarrow> 's pop_port \<Rightarrow> (int \<Rightarrow> int \<Rightarrow> error + int) \<Rightarrow> (error, 's, unit) exec" where
  "binop push pop f = chain pop (\<lambda>b. chain pop (\<lambda>a. chain (lift (f a b)) push))"

definition unop :: "'s push_port \<Rightarrow> 's pop_port \<Rightarrow> (int \<Rightarrow> int) \<Rightarrow> (error, 's, unit) exec" where
  "unop push pop f = chain pop (\<lambda>a. push (f a))"

definition swap :: "'s push_port \<Rightarrow> 's pop_port \<Rightarrow> (error, 's, unit) exec" where
  "swap push pop = chain pop (\<lambda>a. chain pop (\<lambda>b. chain (push a) (\<lambda>_. push b)))"

definition drop_word :: "'s pop_port \<Rightarrow> (error, 's, unit) exec" where
  "drop_word pop = chain pop (\<lambda>_. pure ())"

definition over :: "'s push_port \<Rightarrow> 's pop_port \<Rightarrow> 's pop_port \<Rightarrow> (error, 's, unit) exec" where
  "over push pop peek = chain pop (\<lambda>b. chain peek (\<lambda>a. chain (push b) (\<lambda>_. push a)))"

definition rot :: "'s push_port \<Rightarrow> 's pop_port \<Rightarrow> (error, 's, unit) exec" where
  "rot push pop = chain pop (\<lambda>c. chain pop (\<lambda>b. chain pop (\<lambda>a.
     chain (push b) (\<lambda>_. chain (push c) (\<lambda>_. push a)))))"

definition neg_rot :: "'s push_port \<Rightarrow> 's pop_port \<Rightarrow> (error, 's, unit) exec" where
  "neg_rot push pop = chain pop (\<lambda>c. chain pop (\<lambda>b. chain pop (\<lambda>a.
     chain (push c) (\<lambda>_. chain (push a) (\<lambda>_. push b)))))"

definition nip :: "'s push_port \<Rightarrow> 's pop_port \<Rightarrow> (error, 's, unit) exec" where
  "nip push pop = chain pop (\<lambda>a. chain pop (\<lambda>_. push a))"

definition tuck :: "'s push_port \<Rightarrow> 's pop_port \<Rightarrow> (error, 's, unit) exec" where
  "tuck push pop = chain pop (\<lambda>a. chain pop (\<lambda>b. chain (push a) (\<lambda>_. chain (push b) (\<lambda>_. push a))))"

lemmas data_word_defs = binop_def unop_def swap_def drop_word_def over_def rot_def neg_rot_def nip_def tuck_def

text \<open>The words that touch nothing but the data stack.\<close>

fun data_word :: "'s push_port \<Rightarrow> 's pop_port \<Rightarrow> 's pop_port \<Rightarrow> builtin \<Rightarrow> (error, 's, unit) exec option" where
  "data_word push pop peek Dup = Some (chain peek push)"
| "data_word push pop peek Drop = Some (drop_word pop)"
| "data_word push pop peek Swap = Some (swap push pop)"
| "data_word push pop peek Over = Some (over push pop peek)"
| "data_word push pop peek Rot = Some (rot push pop)"
| "data_word push pop peek NegRot = Some (neg_rot push pop)"
| "data_word push pop peek Nip = Some (nip push pop)"
| "data_word push pop peek Tuck = Some (tuck push pop)"
| "data_word push pop peek (Binary f) = Some (binop push pop f)"
| "data_word push pop peek (Unary f) = Some (unop push pop f)"
| "data_word push pop peek _ = None"

subsection \<open>The service\<close>

datatype word = Builtin builtin | Colon string

record forth = datapath +
  fregs :: registers
  fhalted :: bool
  dictionary :: "string \<rightharpoonup> word"
  colon_defs :: "string \<rightharpoonup> string list"

type_synonym 'a service = "(error, forth, 'a) exec"

definition store :: "unit service" where
  "store = chain pop_d (\<lambda>addr. chain pop_d (\<lambda>v. store_cell addr v))"

definition docol :: "int \<Rightarrow> unit service" where
  "docol addr =
     chain (gets (\<lambda>s. register_read (fregs s) Register_IP)) (\<lambda>ip.
     chain (push_r ip) (\<lambda>_.
       modify (\<lambda>s. s\<lparr>fregs := register_write (fregs s) Register_IP addr\<rparr>)))"

definition exit :: "unit service" where
  "exit = chain pop_r (\<lambda>ip. modify (\<lambda>s. s\<lparr>fregs := register_write (fregs s) Register_IP ip\<rparr>))"

definition bye :: "unit service" where
  "bye = modify (\<lambda>s. s\<lparr>fhalted := True\<rparr>)"

text \<open>
  Calling a built-in word with these arguments. \<^verbatim>\<open>LIT\<close> and \<^verbatim>\<open>DOCOL\<close> take one, all others none; any other
  number is Python's \<^verbatim>\<open>TypeError\<close>.
\<close>

fun call_builtin :: "builtin \<Rightarrow> int list \<Rightarrow> unit service" where
  "call_builtin Lit [v] = push_d v"
| "call_builtin Docol [addr] = docol addr"
| "call_builtin FetchCell [] = chain pop_d (\<lambda>a. chain (load_cell a) push_d)"
| "call_builtin StoreCell [] = store"
| "call_builtin ToR [] = chain pop_d push_r"
| "call_builtin FromR [] = chain pop_r push_d"
| "call_builtin RFetch [] = chain peek_r push_d"
| "call_builtin Exit [] = exit"
| "call_builtin Bye [] = bye"
| "call_builtin NoOp [] = pure ()"
| "call_builtin b args =
     (case data_word push_d pop_d peek_d b of
        Some m \<Rightarrow> if args = [] then m else raise TypeError
      | None \<Rightarrow> raise TypeError)"

text \<open>
  \<^verbatim>\<open>_execute_colon\<close>: each word is looked up when its turn comes. The first argument bounds the depth of
  nested calls, as Python's recursion limit does.
\<close>

fun run_words :: "(word \<Rightarrow> unit service) \<Rightarrow> string list \<Rightarrow> unit service" where
  "run_words call [] = pure ()"
| "run_words call (x # xs) =
     chain (\<lambda>s. case dictionary s x of None \<Rightarrow> (Inl (UnknownWordError x), s) | Some w \<Rightarrow> call w s)
       (\<lambda>_. run_words call xs)"

fun execute :: "nat \<Rightarrow> word \<Rightarrow> unit service" where
  "execute 0 w = raise RecursionError"
| "execute (Suc n) (Builtin b) = call_builtin b []"
| "execute (Suc n) (Colon name) =
     (\<lambda>s. case colon_defs s name of None \<Rightarrow> (Inl (KeyError name), s) | Some ws \<Rightarrow> run_words (execute n) ws s)"

definition add_colon_def :: "string \<Rightarrow> string list \<Rightarrow> forth \<Rightarrow> forth" where
  "add_colon_def name code s =
     s\<lparr>colon_defs := (colon_defs s)(name \<mapsto> code), dictionary := (dictionary s)(name \<mapsto> Colon name)\<rparr>"

definition always :: "(int \<Rightarrow> int \<Rightarrow> int) \<Rightarrow> int \<Rightarrow> int \<Rightarrow> error + int" where
  "always f a b = Inr (f a b)"

definition nonzero :: "(int \<Rightarrow> int \<Rightarrow> int) \<Rightarrow> int \<Rightarrow> int \<Rightarrow> error + int" where
  "nonzero f a b = (if b = 0 then Inl ZeroDivisionError else Inr (f a b))"

text \<open>Python's \<^verbatim>\<open>int\<close> of a truth value.\<close>

definition truth :: "bool \<Rightarrow> int" where "truth b = (if b then 1 else 0)"

definition STRUCTURE_WORDS :: "string list" where
  "STRUCTURE_WORDS = [''IF'', ''ELSE'', ''THEN'', ''BEGIN'', ''UNTIL'', ''WHILE'', ''REPEAT'', ''DO'', ''LOOP'', ''+LOOP'']"

definition minimal_dictionary :: "(string \<times> builtin) list" where
  "minimal_dictionary = [
     (''DUP'', Dup), (''DROP'', Drop), (''SWAP'', Swap), (''OVER'', Over), (''ROT'', Rot), (''-ROT'', NegRot),
     (''NIP'', Nip), (''TUCK'', Tuck),
     (''+'', Binary (always (+))), (''-'', Binary (always (-))), (''*'', Binary (always (*))),
     (''/'', Binary (nonzero (div))), (''MOD'', Binary (nonzero (mod))),
     (''NEGATE'', Unary uminus), (''ABS'', Unary abs), (''1+'', Unary (\<lambda>x. x + 1)), (''1-'', Unary (\<lambda>x. x - 1)),
     (''@'', FetchCell), (''!'', StoreCell), (''>R'', ToR), (''R>'', FromR), (''R@'', RFetch),
     (''='', Binary (always (\<lambda>a b. truth (a = b)))), (''<>'', Binary (always (\<lambda>a b. truth (a \<noteq> b)))),
     (''<'', Binary (always (\<lambda>a b. truth (a < b)))), (''>'', Binary (always (\<lambda>a b. truth (a > b)))),
     (''0='', Unary (\<lambda>x. truth (x = 0))), (''0<'', Unary (\<lambda>x. truth (x < 0))),
     (''AND'', Binary (always (AND))), (''OR'', Binary (always (OR))), (''INVERT'', Unary NOT),
     (''LIT'', Lit), (''DOCOL'', Docol), (''EXIT'', Exit), (''BYE'', Bye)]
     @ map (\<lambda>x. (x, NoOp)) STRUCTURE_WORDS"

definition build_minimal_dictionary :: "forth \<Rightarrow> forth" where
  "build_minimal_dictionary s =
     s\<lparr>dictionary := dictionary s ++ map_of (map (\<lambda>(x, b). (x, Builtin b)) minimal_dictionary)\<rparr>"

text \<open>\<^verbatim>\<open>ForthService.__init__\<close> on a data path.\<close>

definition forth_new :: "emulator \<Rightarrow> forth" where
  "forth_new e = build_minimal_dictionary
     \<lparr>mem = mem e, dstk = dstk e, rstk = rstk e, fregs = (\<lambda>_. None), fhalted = False,
      dictionary = (\<lambda>_. None), colon_defs = (\<lambda>_. None)\<rparr>"

definition STANDARD_COLON_DEFS :: "(string \<times> string list) list" where
  "STANDARD_COLON_DEFS = [
     (''IF_THEN'', [''0BRANCH'']), (''IF_ELSE_THEN'', [''0BRANCH'', ''BRANCH'']), (''BEGIN_UNTIL'', [''BEGIN'', ''UNTIL'']),
     (''WHILE_REPEAT'', [''WHILE'', ''REPEAT'']), (''DO_LOOP'', [''DO'', ''LOOP'']), (''DO_PLUS_LOOP'', [''DO'', ''+LOOP'']),
     ('';'', [''EXIT''])]"

definition build_standard_colon_defs :: "forth \<Rightarrow> forth" where
  "build_standard_colon_defs = fold (\<lambda>(name, code). add_colon_def name code) STANDARD_COLON_DEFS"

subsection \<open>The stack of a list\<close>

definition list_push :: "nat \<Rightarrow> int \<Rightarrow> (error, int list, unit) exec" where
  "list_push c v xs = (if length xs < c then (Inr (), v # xs) else (Inl overflow, xs))"

definition list_pop :: "(error, int list, int) exec" where
  "list_pop xs = (case xs of [] \<Rightarrow> (Inl underflow, []) | x # ys \<Rightarrow> (Inr x, ys))"

definition list_peek :: "(error, int list, int) exec" where
  "list_peek xs = (case xs of [] \<Rightarrow> (Inl underflow, []) | x # ys \<Rightarrow> (Inr x, xs))"

text \<open>\<open>m\<close> does to the stack \<open>view\<close> shows what \<open>lm\<close> does to a list, and changes nothing else.\<close>

definition refines ::
  "('s \<Rightarrow> bool) \<Rightarrow> ('s \<Rightarrow> int list) \<Rightarrow> ('s \<Rightarrow> nat) \<Rightarrow> ('s \<Rightarrow> 's \<Rightarrow> bool) \<Rightarrow>
   (error, 's, 'a) exec \<Rightarrow> (nat \<Rightarrow> (error, int list, 'a) exec) \<Rightarrow> bool"
where
  "refines good look cap same m lm \<longleftrightarrow>
     (\<forall>s. good s \<longrightarrow> (\<exists>s'. m s = (fst (lm (cap s) (look s)), s') \<and> good s' \<and> look s' = snd (lm (cap s) (look s)) \<and> same s s'))"

context stack_port
begin

lemma refines_pure: "refines good view cap same (pure x) (\<lambda>_. pure x)"
  by (simp add: refines_def same_refl)

lemma refines_lift: "refines good view cap same (lift r) (\<lambda>_. lift r)"
  by (simp add: refines_def same_refl)

lemma refines_push: "refines good view cap same (push v) (\<lambda>c. list_push c v)"
  unfolding refines_def
proof (intro allI impI)
  fix s assume "good s"
  then show "\<exists>s'. push v s = (fst (list_push (cap s) v (view s)), s') \<and> good s' \<and>
      view s' = snd (list_push (cap s) v (view s)) \<and> same s s'"
    using push_ok [of s v] push_full [of s v]
    by (cases "length (view s) < cap s") (auto simp: list_push_def same_refl)
qed

lemma refines_pop: "refines good view cap same pop (\<lambda>_. list_pop)"
  unfolding refines_def
proof (intro allI impI)
  fix s assume "good s"
  then show "\<exists>s'. pop s = (fst (list_pop (view s)), s') \<and> good s' \<and> view s' = snd (list_pop (view s)) \<and> same s s'"
    using pop_ok [of s] pop_empty [of s]
    by (cases "view s") (auto simp: list_pop_def same_refl)
qed

lemma refines_peek: "refines good view cap same peek (\<lambda>_. list_peek)"
  unfolding refines_def
proof (intro allI impI)
  fix s assume "good s"
  then show "\<exists>s'. peek s = (fst (list_peek (view s)), s') \<and> good s' \<and> view s' = snd (list_peek (view s)) \<and> same s s'"
    using peek_ok [of s] peek_empty [of s]
    by (cases "view s") (auto simp: list_peek_def same_refl)
qed

lemma refines_chain:
  assumes "refines good view cap same m lm" and "\<And>x. refines good view cap same (f x) (\<lambda>c. lf x c)"
  shows "refines good view cap same (chain m f) (\<lambda>c. chain (lm c) (\<lambda>x. lf x c))"
  unfolding refines_def
proof (intro allI impI)
  fix s assume s: "good s"
  obtain t where t: "m s = (fst (lm (cap s) (view s)), t)" "good t" "view t = snd (lm (cap s) (view s))" "same s t"
    using assms(1) s by (auto simp: refines_def)
  show "\<exists>s'. chain m f s = (fst (chain (lm (cap s)) (\<lambda>x. lf x (cap s)) (view s)), s') \<and> good s' \<and>
      view s' = snd (chain (lm (cap s)) (\<lambda>x. lf x (cap s)) (view s)) \<and> same s s'"
  proof (cases "fst (lm (cap s) (view s))")
    case (Inl e)
    have "lm (cap s) (view s) = (Inl e, view t)" by (metis Inl t(3) prod.collapse)
    moreover have "m s = (Inl e, t)" using t(1) Inl by simp
    ultimately show ?thesis using t(2,4) by simp
  next
    case (Inr x)
    have l: "lm (cap s) (view s) = (Inr x, view t)" by (metis Inr t(3) prod.collapse)
    obtain u where u: "f x t = (fst (lf x (cap t) (view t)), u)" "good u" "view u = snd (lf x (cap t) (view t))" "same t u"
      using assms(2) [of x] t(2) by (auto simp: refines_def)
    have "chain m f s = f x t" using t(1) Inr by simp
    with l u same_cap [OF t(4)] same_trans [OF t(4)] show ?thesis by simp
  qed
qed

text \<open>Every word on the data stack, over any stack with the contract.\<close>

lemma word_refines:
  assumes "data_word push pop peek b = Some m"
  shows "refines good view cap same m (\<lambda>c. the (data_word (list_push c) list_pop list_peek b))"
proof -
  note ports = refines_chain refines_push refines_pop refines_peek refines_pure refines_lift
  show ?thesis
    using assms by (cases b) (auto simp: data_word_defs intro!: ports)
qed

end

text \<open>On a list, a word takes its arguments and puts its results, or reports the stack error.\<close>

definition list_effect :: "nat \<Rightarrow> (int list \<Rightarrow> int list) \<Rightarrow> nat \<Rightarrow> int list \<Rightarrow> error + int list" where
  "list_effect n f c xs =
     (if length xs < n then Inl underflow
      else let ys = f (take n xs) @ drop n xs in if length ys \<le> c then Inr ys else Inl overflow)"

fun outcome_of :: "(error + unit) \<times> int list \<Rightarrow> error + int list" where
  "outcome_of (Inl e, xs) = Inl e"
| "outcome_of (Inr u, xs) = Inr xs"

lemmas list_ops = list_push_def list_pop_def list_peek_def list_effect_def chain_def

lemma list_words_effect:
  assumes "length xs \<le> c"
  shows "outcome_of (the (data_word (list_push c) list_pop list_peek Dup) xs) = list_effect 1 (\<lambda>s. [s ! 0, s ! 0]) c xs"
    "outcome_of (the (data_word (list_push c) list_pop list_peek Drop) xs) = list_effect 1 (\<lambda>s. []) c xs"
    "outcome_of (the (data_word (list_push c) list_pop list_peek Swap) xs) = list_effect 2 (\<lambda>s. [s ! 1, s ! 0]) c xs"
    "outcome_of (the (data_word (list_push c) list_pop list_peek Over) xs) = list_effect 2 (\<lambda>s. [s ! 1, s ! 0, s ! 1]) c xs"
    "outcome_of (the (data_word (list_push c) list_pop list_peek Rot) xs) = list_effect 3 (\<lambda>s. [s ! 2, s ! 0, s ! 1]) c xs"
    "outcome_of (the (data_word (list_push c) list_pop list_peek NegRot) xs) = list_effect 3 (\<lambda>s. [s ! 1, s ! 2, s ! 0]) c xs"
    "outcome_of (the (data_word (list_push c) list_pop list_peek Nip) xs) = list_effect 2 (\<lambda>s. [s ! 0]) c xs"
    "outcome_of (the (data_word (list_push c) list_pop list_peek Tuck) xs) = list_effect 2 (\<lambda>s. [s ! 0, s ! 1, s ! 0]) c xs"
    "outcome_of (the (data_word (list_push c) list_pop list_peek (Binary (always f))) xs) = list_effect 2 (\<lambda>s. [f (s ! 1) (s ! 0)]) c xs"
    "outcome_of (the (data_word (list_push c) list_pop list_peek (Unary g)) xs) = list_effect 1 (\<lambda>s. [g (s ! 0)]) c xs"
  using assms
  by (induct xs rule: stack_cases; simp add: data_word_defs list_ops always_def)+

subsection \<open>The service over the data path\<close>

lemma forth_new_ok:
  assumes "layout_ok e"
  shows "layout_ok (forth_new e)" "ds (forth_new e) = ds e" "rs (forth_new e) = rs e"
    "region (dstk (forth_new e)) = region (dstk e)"
    "dictionary (forth_new e) = map_of (map (\<lambda>(x, b). (x, Builtin b)) minimal_dictionary)"
  using assms
  by (simp_all add: forth_new_def build_minimal_dictionary_def layout_ok_def ds_def rs_def)

text \<open>The stack effects of the service's words; its comparisons answer 1 and 0.\<close>

definition service_effects :: "(string \<times> nat \<times> (int list \<Rightarrow> int list)) list" where
  "service_effects = [
     (''DUP'', 1, \<lambda>s. [s ! 0, s ! 0]), (''DROP'', 1, \<lambda>s. []), (''SWAP'', 2, \<lambda>s. [s ! 1, s ! 0]),
     (''OVER'', 2, \<lambda>s. [s ! 1, s ! 0, s ! 1]), (''ROT'', 3, \<lambda>s. [s ! 2, s ! 0, s ! 1]),
     (''-ROT'', 3, \<lambda>s. [s ! 1, s ! 2, s ! 0]), (''NIP'', 2, \<lambda>s. [s ! 0]), (''TUCK'', 2, \<lambda>s. [s ! 0, s ! 1, s ! 0]),
     (''+'', 2, \<lambda>s. [s ! 1 + s ! 0]), (''-'', 2, \<lambda>s. [s ! 1 - s ! 0]), (''*'', 2, \<lambda>s. [s ! 1 * s ! 0]),
     (''NEGATE'', 1, \<lambda>s. [- s ! 0]), (''ABS'', 1, \<lambda>s. [\<bar>s ! 0\<bar>]),
     (''1+'', 1, \<lambda>s. [s ! 0 + 1]), (''1-'', 1, \<lambda>s. [s ! 0 - 1]),
     (''='', 2, \<lambda>s. [truth (s ! 1 = s ! 0)]), (''<>'', 2, \<lambda>s. [truth (s ! 1 \<noteq> s ! 0)]),
     (''<'', 2, \<lambda>s. [truth (s ! 1 < s ! 0)]), (''>'', 2, \<lambda>s. [truth (s ! 1 > s ! 0)]),
     (''0='', 1, \<lambda>s. [truth (s ! 0 = 0)]), (''0<'', 1, \<lambda>s. [truth (s ! 0 < 0)]),
     (''AND'', 2, \<lambda>s. [s ! 1 AND s ! 0]), (''OR'', 2, \<lambda>s. [s ! 1 OR s ! 0]), (''INVERT'', 1, \<lambda>s. [NOT (s ! 0)])]"

definition does_effect :: "nat \<Rightarrow> (int list \<Rightarrow> int list) \<Rightarrow> forth \<Rightarrow> (error + unit) \<times> forth \<Rightarrow> bool" where
  "does_effect n f s x \<longleftrightarrow>
     layout_ok (snd x) \<and> same_but_d s (snd x) \<and>
     (case list_effect n f (region (dstk s)) (ds s) of
        Inl e \<Rightarrow> fst x = Inl e
      | Inr d \<Rightarrow> fst x = Inr () \<and> ds (snd x) = d)"

lemma outcome_of_cases: "outcome_of x = (case fst x of Inl e \<Rightarrow> Inl e | Inr u \<Rightarrow> Inr (snd x))"
  by (cases x rule: outcome_of.cases) simp_all

lemma service_word:
  assumes "layout_ok s" and "data_word push_d pop_d peek_d b = Some m"
    and "\<And>xs. length xs \<le> region (dstk s) \<Longrightarrow>
      outcome_of (the (data_word (list_push (region (dstk s))) list_pop list_peek b) xs) = list_effect n f (region (dstk s)) xs"
  shows "does_effect n f s (m s)"
proof -
  let ?l = "the (data_word (list_push (region (dstk s))) list_pop list_peek b) (ds s)"
  obtain t where t: "m s = (fst ?l, t)" "layout_ok t" "ds t = snd ?l" "same_but_d s t"
    using data_stack.word_refines [OF assms(2)] assms(1) by (auto simp: refines_def)
  from assms(3) [OF stacks_in_region(1) [OF assms(1)]] t show ?thesis
    by (auto simp: does_effect_def outcome_of_cases split: sum.splits)
qed

lemma data_word_call: "data_word push_d pop_d peek_d b = Some m \<Longrightarrow> data_word push_d pop_d peek_d b = Some (call_builtin b [])"
  by (cases b) simp_all

lemma service_words:
  assumes "layout_ok s"
  shows "does_effect 1 (\<lambda>s. [s ! 0, s ! 0]) s (call_builtin Dup [] s)"
    "does_effect 1 (\<lambda>s. []) s (call_builtin Drop [] s)"
    "does_effect 2 (\<lambda>s. [s ! 1, s ! 0]) s (call_builtin Swap [] s)"
    "does_effect 2 (\<lambda>s. [s ! 1, s ! 0, s ! 1]) s (call_builtin Over [] s)"
    "does_effect 3 (\<lambda>s. [s ! 2, s ! 0, s ! 1]) s (call_builtin Rot [] s)"
    "does_effect 3 (\<lambda>s. [s ! 1, s ! 2, s ! 0]) s (call_builtin NegRot [] s)"
    "does_effect 2 (\<lambda>s. [s ! 0]) s (call_builtin Nip [] s)"
    "does_effect 2 (\<lambda>s. [s ! 0, s ! 1, s ! 0]) s (call_builtin Tuck [] s)"
    "does_effect 2 (\<lambda>s. [f (s ! 1) (s ! 0)]) s (call_builtin (Binary (always f)) [] s)"
    "does_effect 1 (\<lambda>s. [g (s ! 0)]) s (call_builtin (Unary g) [] s)"
  by (rule service_word [OF assms], rule data_word_call, simp, erule list_words_effect)+

lemma service_binary:
  "layout_ok s \<Longrightarrow> (\<And>xs. h xs = [f (xs ! 1) (xs ! 0)]) \<Longrightarrow> does_effect 2 h s (call_builtin (Binary (always f)) [] s)"
  using service_words(9) [of s f] by presburger

lemma service_unary:
  "layout_ok s \<Longrightarrow> (\<And>xs. h xs = [g (xs ! 0)]) \<Longrightarrow> does_effect 1 h s (call_builtin (Unary g) [] s)"
  using service_words(10) [of s g] by presburger

lemma service_effects_all:
  assumes "layout_ok s"
  shows "list_all (\<lambda>(x, n, f). \<exists>b. map_of minimal_dictionary x = Some b \<and> does_effect n f s (call_builtin b [] s)) service_effects"
  unfolding service_effects_def minimal_dictionary_def
  by (simp add: assms service_words(1-8) service_binary service_unary del: call_builtin.simps One_nat_def)

text \<open>The two divisions, rounded down as Python's; a zero on top raises after both values are popped.\<close>

definition service_divisions :: "(string \<times> (int \<Rightarrow> int \<Rightarrow> int)) list" where
  "service_divisions = [(''/'', \<lambda>a b. a div b), (''MOD'', \<lambda>a b. a mod b)]"

definition does_division :: "(int \<Rightarrow> int \<Rightarrow> int) \<Rightarrow> forth \<Rightarrow> (error + unit) \<times> forth \<Rightarrow> bool" where
  "does_division f s x \<longleftrightarrow>
     layout_ok (snd x) \<and> same_but_d s (snd x) \<and>
     (case ds s of
        b # a # d \<Rightarrow>
          if b = 0 then fst x = Inl ZeroDivisionError \<and> ds (snd x) = d
          else fst x = Inr () \<and> ds (snd x) = f a b # d
      | _ \<Rightarrow> fst x = Inl underflow)"

lemma service_division:
  assumes "layout_ok s"
  shows "does_division f s (call_builtin (Binary (nonzero f)) [] s)"
proof -
  let ?l = "binop (list_push (region (dstk s))) list_pop (nonzero f) (ds s)"
  obtain t where t: "call_builtin (Binary (nonzero f)) [] s = (fst ?l, t)" "layout_ok t" "ds t = snd ?l" "same_but_d s t"
    using data_stack.word_refines [of "Binary (nonzero f)"] assms by (fastforce simp: refines_def)
  have "length d \<le> c \<Longrightarrow> binop (list_push c) list_pop (nonzero f) d =
      (case d of b # a # d' \<Rightarrow> if b = 0 then (Inl ZeroDivisionError, d') else (Inr (), f a b # d') | _ \<Rightarrow> (Inl underflow, []))" for c d
    by (induct d rule: stack_cases) (simp_all add: binop_def list_ops nonzero_def)
  from this [OF stacks_in_region(1) [OF assms]] t(2-4) show ?thesis
    unfolding t(1) by (auto simp: does_division_def split: list.splits)
qed

text \<open>The words of the minimal dictionary that work on the data stack alone, all of them.\<close>

lemma data_words_listed:
  "list_all (\<lambda>(x, b). data_word (list_push 0) list_pop list_peek b \<noteq> None \<longleftrightarrow>
     x \<in> set (map fst service_effects @ map fst service_divisions)) minimal_dictionary"
  by (simp add: minimal_dictionary_def STRUCTURE_WORDS_def service_effects_def service_divisions_def)

text \<open>
  C19. Every word of the minimal dictionary that works on the data stack alone, looked up by its name, does on the data path what its
  stack effect says, nothing else changed: arguments taken, results put, underflow and overflow reported; \<^verbatim>\<open>/\<close> and \<^verbatim>\<open>MOD\<close> are the floor
  division and its remainder, and raise \<^verbatim>\<open>ZeroDivisionError\<close> with both values gone.
\<close>

theorem service_effects_hold:
  assumes "layout_ok s"
  shows "list_all (\<lambda>(x, n, f). \<exists>b. map_of minimal_dictionary x = Some b \<and> does_effect n f s (call_builtin b [] s)) service_effects \<and>
    list_all (\<lambda>(x, f). \<exists>b. map_of minimal_dictionary x = Some b \<and> does_division f s (call_builtin b [] s)) service_divisions \<and>
    list_all (\<lambda>(x, b). data_word (list_push 0) list_pop list_peek b \<noteq> None \<longleftrightarrow>
      x \<in> set (map fst service_effects @ map fst service_divisions)) minimal_dictionary"
proof (intro conjI)
  show "list_all (\<lambda>(x, f). \<exists>b. map_of minimal_dictionary x = Some b \<and> does_division f s (call_builtin b [] s)) service_divisions"
    by (simp add: service_divisions_def minimal_dictionary_def service_division [OF assms] del: call_builtin.simps)
qed (rule service_effects_all [OF assms] data_words_listed)+

theorem service_effects_hold_witness:
  "\<exists>b. map_of minimal_dictionary ''MOD'' = Some b \<and>
     does_division (mod) (forth_new machine_new) (call_builtin b [] (forth_new machine_new))"
  using service_effects_hold [of "forth_new machine_new"]
  by (simp add: service_divisions_def forth_new_ok del: call_builtin.simps)

text \<open>The comparisons: the kernel's true is -1, the service's 1.\<close>

definition flag_words :: "string list" where
  "flag_words = [''='', ''<>'', ''<'', ''>'', ''0='', ''0<'']"

lemma flag_truth: "flag b = - truth b"
  by (simp add: flag_def truth_def)

subsection \<open>What every execution keeps\<close>

definition service_kept :: "forth \<Rightarrow> forth \<Rightarrow> bool" where
  "service_kept s t \<longleftrightarrow> layout_ok t \<and> dictionary t = dictionary s \<and> colon_defs t = colon_defs s \<and>
     region (dstk t) = region (dstk s) \<and> region (rstk t) = region (rstk s) \<and> length (mem t) = length (mem s)"

definition service_keeps :: "'a service \<Rightarrow> bool" where
  "service_keeps m \<longleftrightarrow> (\<forall>s. layout_ok s \<longrightarrow> service_kept s (snd (m s)))"

lemma service_kept_refl: "layout_ok s \<Longrightarrow> service_kept s s"
  by (simp add: service_kept_def)

lemma service_kept_trans: "service_kept s t \<Longrightarrow> service_kept t u \<Longrightarrow> service_kept s u"
  by (auto simp: service_kept_def)

lemma forth_more_eq:
  fixes s t :: forth
  assumes "datapath.more t = datapath.more s"
  shows "fregs t = fregs s" "fhalted t = fhalted s" "dictionary t = dictionary s" "colon_defs t = colon_defs s"
  using assms by (cases s; cases t; simp)+

lemma same_but_d_service: "layout_ok t \<Longrightarrow> same_but_d s t \<Longrightarrow> service_kept s t"
  using forth_more_eq [of t s] by (auto simp: service_kept_def same_but_d_def same_region_def region_def)

lemma same_but_r_service: "layout_ok t \<Longrightarrow> same_but_r s t \<Longrightarrow> service_kept s t"
  using forth_more_eq [of t s] by (auto simp: service_kept_def same_but_r_def same_region_def region_def)

lemma refines_d_keeps: "refines layout_ok ds (\<lambda>s. region (dstk s)) same_but_d m lm \<Longrightarrow> service_keeps m"
  unfolding refines_def service_keeps_def by (metis same_but_d_service snd_conv)

lemma refines_r_keeps: "refines layout_ok rs (\<lambda>s. region (rstk s)) same_but_r m lm \<Longrightarrow> service_keeps m"
  unfolding refines_def service_keeps_def by (metis same_but_r_service snd_conv)

lemma service_keeps_chain: "service_keeps m \<Longrightarrow> (\<And>x. service_keeps (f x)) \<Longrightarrow> service_keeps (chain m f)"
  unfolding service_keeps_def
proof (intro allI impI)
  fix s :: forth
  assume m: "\<forall>s. layout_ok s \<longrightarrow> service_kept s (snd (m s))" and f: "\<And>x. \<forall>s. layout_ok s \<longrightarrow> service_kept s (snd (f x s))"
    and s: "layout_ok s"
  obtain r t where t: "m s = (r, t)" by (cases "m s")
  with m s have k: "service_kept s t" by (metis snd_conv)
  show "service_kept s (snd (chain m f s))"
  proof (cases r)
    case (Inl e)
    with t k show ?thesis by simp
  next
    case (Inr x)
    with t k f [of x] show ?thesis by (auto simp: service_kept_def)
  qed
qed

lemma service_keeps_ports:
  "service_keeps (push_d v)" "service_keeps pop_d" "service_keeps peek_d" "service_keeps (push_r v)" "service_keeps pop_r" "service_keeps peek_r"
  "service_keeps (pure x)" "service_keeps (raise e)" "service_keeps (gets g)"
  by (rule refines_d_keeps [OF data_stack.refines_push] refines_d_keeps [OF data_stack.refines_pop]
      refines_d_keeps [OF data_stack.refines_peek] refines_r_keeps [OF return_stack.refines_push]
      refines_r_keeps [OF return_stack.refines_pop] refines_r_keeps [OF return_stack.refines_peek])+
    (simp_all add: service_keeps_def service_kept_refl)

lemma layout_ok_registers [simp]: "layout_ok (s\<lparr>fregs := r\<rparr>) = layout_ok s" "layout_ok (s\<lparr>fhalted := h\<rparr>) = layout_ok (s :: forth)"
  by (simp_all add: layout_ok_def)

lemma service_keeps_fields: "service_keeps (modify (\<lambda>s. s\<lparr>fregs := g s\<rparr>))" "service_keeps (modify (\<lambda>s. s\<lparr>fhalted := h\<rparr>))"
  by (simp_all add: service_keeps_def service_kept_def)

lemma service_keeps_memory: "service_keeps (load_cell a)" "service_keeps (store_cell a v)"
proof -
  show "service_keeps (load_cell a)" by (simp add: service_keeps_def load_cell_def service_kept_refl)
  show "service_keeps (store_cell a v)"
    unfolding service_keeps_def
  proof (intro allI impI)
    fix s :: forth
    assume ok: "layout_ok s"
    show "service_kept s (snd (store_cell a v s))"
    proof (cases "memory_write (mem s) a v")
      case (Inl e)
      with ok show ?thesis by (simp add: store_cell_def service_kept_refl)
    next
      case (Inr m)
      then have "length m = length (mem s)" by (rule memory_write_size)
      with ok Inr show ?thesis by (simp add: store_cell_def service_kept_def layout_ok_def stack_ok_def)
    qed
  qed
qed

lemmas service_keeps_rules = service_keeps_chain service_keeps_ports service_keeps_fields service_keeps_memory

lemma service_keeps_call: "service_keeps (call_builtin b [])"
proof (cases "data_word push_d pop_d peek_d b :: unit service option")
  case (Some m)
  then have m: "call_builtin b [] = m" using data_word_call [OF Some] by simp
  show ?thesis unfolding m by (rule refines_d_keeps [OF data_stack.word_refines [OF Some]])
next
  case None
  then have "b \<in> {FetchCell, StoreCell, ToR, FromR, RFetch, Lit, Docol, Exit, Bye, NoOp}" by (cases b) simp_all
  moreover have "service_keeps (call_builtin FetchCell [])" "service_keeps (call_builtin StoreCell [])"
    "service_keeps (call_builtin ToR [])" "service_keeps (call_builtin FromR [])" "service_keeps (call_builtin RFetch [])"
    "service_keeps (call_builtin Exit [])" "service_keeps (call_builtin Bye [])" "service_keeps (call_builtin NoOp [])"
    unfolding call_builtin.simps store_def exit_def bye_def by (intro service_keeps_rules)+
  moreover have "service_keeps (call_builtin Lit [])" "service_keeps (call_builtin Docol [])"
    by (simp_all add: service_keeps_def service_kept_refl)
  ultimately show ?thesis by blast
qed

lemma service_keeps_words: "(\<And>w. service_keeps (call w)) \<Longrightarrow> service_keeps (run_words call ws)"
proof (induction ws)
  case Nil
  show ?case unfolding run_words.simps by (rule service_keeps_ports)
next
  case (Cons x ws)
  have "service_keeps (\<lambda>s. case dictionary s x of None \<Rightarrow> (Inl (UnknownWordError x), s) | Some w \<Rightarrow> call w s)"
    using Cons.prems by (auto simp: service_keeps_def service_kept_refl split: option.splits)
  then show ?case
    unfolding run_words.simps using Cons.IH [OF Cons.prems] by (rule service_keeps_chain)
qed

lemma service_keeps_execute: "service_keeps (execute n w)"
proof (induction n arbitrary: w)
  case 0
  show ?case unfolding execute.simps by (rule service_keeps_ports)
next
  case (Suc n)
  show ?case
  proof (cases w)
    case (Builtin b)
    then show ?thesis by (simp add: service_keeps_call)
  next
    case (Colon x)
    have "service_keeps (run_words (execute n) ws)" for ws using Suc.IH by (rule service_keeps_words)
    with Colon show ?thesis by (auto simp: service_keeps_def service_kept_refl split: option.splits)
  qed
qed

text \<open>
  C26. Whatever a word of the service does, it keeps the memory layout, the size of the memory and of both stack
  regions, and every definition.
\<close>

theorem execute_keeps: "layout_ok s \<Longrightarrow> service_kept s (snd (execute n w s))"
  using service_keeps_execute [of n w] by (simp add: service_keeps_def)

theorem execute_keeps_witness:
  "\<exists>s :: forth. colon_defs s ''SQUARE'' = Some [''DUP'', ''*''] \<and> service_kept s (snd (execute 3 (Colon ''SQUARE'') s)) \<and>
     colon_defs (snd (execute 3 (Colon ''SQUARE'') s)) ''SQUARE'' = Some [''DUP'', ''*'']"
proof -
  let ?s = "add_colon_def ''SQUARE'' [''DUP'', ''*''] (forth_new machine_new)"
  have "layout_ok (forth_new machine_new)" by (simp add: forth_new_ok)
  then have "layout_ok ?s" by (simp add: add_colon_def_def layout_ok_def)
  from execute_keeps [OF this, of 3 "Colon ''SQUARE''"] show ?thesis
    by (intro exI [of _ ?s]) (simp add: service_kept_def add_colon_def_def del: execute.simps)
qed

subsection \<open>Colon definitions\<close>

text \<open>
  C34. A colon definition that begins with its own name ends in \<^verbatim>\<open>RecursionError\<close> at every recursion limit, and
  leaves the state as it was.
\<close>

theorem self_reference_recurses:
  assumes "dictionary s x = Some (Colon x)" and "colon_defs s x = Some (x # ws)"
  shows "execute n (Colon x) s = (Inl RecursionError, s)"
proof (induction n)
  case (Suc n)
  with assms show ?case by simp
qed simp

theorem self_reference_recurses_witness:
  "execute 1000 (Colon ''X'') (add_colon_def ''X'' [''X''] (forth_new machine_new)) =
     (Inl RecursionError, add_colon_def ''X'' [''X''] (forth_new machine_new))"
  by (rule self_reference_recurses [where ws = "[]"]) (simp_all add: add_colon_def_def)

text \<open>
  C33. \<^verbatim>\<open>BYE\<close> in a colon definition sets the halted flag, but the words after it still run.
\<close>

theorem bye_does_not_stop:
  assumes "dictionary s ''BYE'' = Some (Builtin Bye)" and "colon_defs s x = Some (''BYE'' # ws)"
  shows "execute (Suc (Suc n)) (Colon x) s = run_words (execute (Suc n)) ws (s\<lparr>fhalted := True\<rparr>)"
  using assms by (simp add: bye_def)

theorem bye_does_not_stop_witness:
  "execute 2 (Colon ''X'') (add_colon_def ''X'' [''BYE'', ''IF''] (forth_new machine_new)) =
     (Inr (), (add_colon_def ''X'' [''BYE'', ''IF''] (forth_new machine_new))\<lparr>fhalted := True\<rparr>)"
  using bye_does_not_stop [of "add_colon_def ''X'' [''BYE'', ''IF''] (forth_new machine_new)" "''X''" "[''IF'']" 0]
  by (simp add: add_colon_def_def forth_new_ok minimal_dictionary_def STRUCTURE_WORDS_def eval_nat_numeral)

text \<open>A colon definition up to, at and after one of its words.\<close>

lemma run_words_append: "run_words call (us @ vs) = chain (run_words call us) (\<lambda>_. run_words call vs)"
proof (induction us)
  case Nil
  show ?case by (simp add: fun_eq_iff)
next
  case (Cons u us)
  then show ?case by (simp add: chain_assoc)
qed

lemma chain_kept:
  assumes "service_keeps m" and "layout_ok s" and "\<And>t. service_kept s t \<Longrightarrow> f t = g t"
  shows "chain m (\<lambda>_. f) s = chain m (\<lambda>_. g) s"
proof -
  obtain r t where t: "m s = (r, t)" by (cases "m s")
  with assms(1,2) have "service_kept s t" by (auto simp: service_keeps_def dest: spec [of _ s])
  from assms(3) [OF this] t show ?thesis by (cases r) simp_all
qed

lemma colon_use:
  assumes "layout_ok s" and "colon_defs s x = Some (us @ y # vs)" and "dictionary s y = Some w"
  shows "execute (Suc n) (Colon x) s =
    chain (run_words (execute n) us) (\<lambda>_. chain (execute n w) (\<lambda>_. run_words (execute n) vs)) s"
proof -
  have "execute (Suc n) (Colon x) s = chain (run_words (execute n) us) (\<lambda>_. run_words (execute n) (y # vs)) s"
    using assms(2) by (simp add: run_words_append del: run_words.simps)
  also have "\<dots> = chain (run_words (execute n) us) (\<lambda>_. chain (execute n w) (\<lambda>_. run_words (execute n) vs)) s"
    using assms(1,3) by (intro chain_kept service_keeps_words service_keeps_execute) (auto simp: service_kept_def chain_def)
  finally show ?thesis .
qed

text \<open>
  C32. The service binds names late: take a colon definition \<open>x\<close> that uses the name \<open>y\<close> anywhere, and any new definition of \<open>y\<close>. Executing
  \<open>x\<close> runs, between the words before and after that place, what \<open>y\<close> was defined as; once \<open>y\<close> is defined again, it runs the new words
  there, although \<open>x\<close> itself is as it was.
\<close>

theorem late_binding:
  assumes "layout_ok s" and "colon_defs s x = Some (us @ y # vs)" and "x \<noteq> y" and "dictionary s y = Some w"
  shows "execute (Suc (Suc n)) (Colon x) s =
      chain (run_words (execute (Suc n)) us) (\<lambda>_. chain (execute (Suc n) w) (\<lambda>_. run_words (execute (Suc n)) vs)) s \<and>
    execute (Suc (Suc n)) (Colon x) (add_colon_def y ws s) =
      chain (run_words (execute (Suc n)) us) (\<lambda>_. chain (run_words (execute n) ws) (\<lambda>_. run_words (execute (Suc n)) vs))
        (add_colon_def y ws s)"
proof
  show "execute (Suc (Suc n)) (Colon x) s =
      chain (run_words (execute (Suc n)) us) (\<lambda>_. chain (execute (Suc n) w) (\<lambda>_. run_words (execute (Suc n)) vs)) s"
    by (rule colon_use [OF assms(1,2,4)])
next
  let ?s = "add_colon_def y ws s"
  have s: "layout_ok ?s" "colon_defs ?s x = Some (us @ y # vs)" "dictionary ?s y = Some (Colon y)" "colon_defs ?s y = Some ws"
    using assms(1-3) by (simp_all add: add_colon_def_def layout_ok_def)
  have "execute (Suc (Suc n)) (Colon x) ?s =
      chain (run_words (execute (Suc n)) us) (\<lambda>_. chain (execute (Suc n) (Colon y)) (\<lambda>_. run_words (execute (Suc n)) vs)) ?s"
    by (rule colon_use [OF s(1-3)])
  also have "\<dots> = chain (run_words (execute (Suc n)) us)
      (\<lambda>_. chain (run_words (execute n) ws) (\<lambda>_. run_words (execute (Suc n)) vs)) ?s"
    using s(1,4) by (intro chain_kept service_keeps_words service_keeps_execute) (auto simp: service_kept_def chain_def)
  finally show "execute (Suc (Suc n)) (Colon x) ?s = \<dots>" .
qed

text \<open>\<^verbatim>\<open>: X BYE DUP ;\<close>, and \<^verbatim>\<open>DUP\<close> defined again as nothing.\<close>

theorem late_binding_witness:
  "execute 2 (Colon ''X'') (add_colon_def ''DUP'' [] (add_colon_def ''X'' [''BYE'', ''DUP''] (forth_new machine_new))) =
     (Inr (), (add_colon_def ''DUP'' [] (add_colon_def ''X'' [''BYE'', ''DUP''] (forth_new machine_new)))\<lparr>fhalted := True\<rparr>)"
proof -
  let ?s = "add_colon_def ''X'' [''BYE'', ''DUP''] (forth_new machine_new)"
  have "layout_ok ?s" "dictionary ?s ''DUP'' = Some (Builtin Dup)"
    using forth_new_ok(1,5) [OF machine_new_sel(1)] by (simp_all add: add_colon_def_def layout_ok_def) (simp add: minimal_dictionary_def)
  with late_binding [of ?s "''X''" "[''BYE'']" "''DUP''" "[]" "Builtin Dup" 0 "[]"] show ?thesis
    by (simp add: add_colon_def_def forth_new_ok minimal_dictionary_def bye_def eval_nat_numeral)
qed

text \<open>Definitions added in order.\<close>

definition define_all :: "(string \<times> string list) list \<Rightarrow> forth \<Rightarrow> forth" where
  "define_all = fold (\<lambda>(x, code). add_colon_def x code)"

lemma define_all_region: "region (dstk (define_all cs s)) = region (dstk s)"
  by (induction cs arbitrary: s) (auto simp: define_all_def add_colon_def_def)

lemma define_all_sel:
  "layout_ok (define_all cs s) = layout_ok s" "ds (define_all cs s) = ds s"
  "dictionary (define_all cs s) x = (if x \<in> fst ` set cs then Some (Colon x) else dictionary s x)"
  "colon_defs (define_all cs s) x = (case map_of (rev cs) x of None \<Rightarrow> colon_defs s x | Some code \<Rightarrow> Some code)"
proof -
  show "layout_ok (define_all cs s) = layout_ok s" "ds (define_all cs s) = ds s"
    "dictionary (define_all cs s) x = (if x \<in> fst ` set cs then Some (Colon x) else dictionary s x)"
    "colon_defs (define_all cs s) x = (case map_of (rev cs) x of None \<Rightarrow> colon_defs s x | Some code \<Rightarrow> Some code)"
    by (induction cs arbitrary: s)
      (auto simp: define_all_def add_colon_def_def layout_ok_def ds_def map_add_def split: option.splits)
qed

text \<open>The service with the standard definitions and any others that leave the names these use alone.\<close>

definition RESERVED :: "string list" where
  "RESERVED = map fst STANDARD_COLON_DEFS @ STRUCTURE_WORDS @ [''EXIT'', ''0BRANCH'']"

definition standard_service :: "(string \<times> string list) list \<Rightarrow> emulator \<Rightarrow> forth" where
  "standard_service cs e = define_all cs (build_standard_colon_defs (forth_new e))"

lemma standard_service_sel:
  assumes "layout_ok e" and "list_all (\<lambda>(x, code). x \<notin> set RESERVED) cs"
  shows "layout_ok (standard_service cs e)"
    "list_all (\<lambda>(x, code). dictionary (standard_service cs e) x = Some (Colon x) \<and> colon_defs (standard_service cs e) x = Some code)
       STANDARD_COLON_DEFS"
    "list_all (\<lambda>x. dictionary (standard_service cs e) x = Some (Builtin NoOp)) STRUCTURE_WORDS"
    "dictionary (standard_service cs e) ''EXIT'' = Some (Builtin Exit)" "dictionary (standard_service cs e) ''0BRANCH'' = None"
proof -
  let ?b = "build_standard_colon_defs (forth_new e)"
  have b: "?b = define_all STANDARD_COLON_DEFS (forth_new e)" by (simp add: build_standard_colon_defs_def define_all_def)
  have kept: "dictionary (standard_service cs e) x = dictionary ?b x" "colon_defs (standard_service cs e) x = colon_defs ?b x"
    if "x \<in> set RESERVED" for x
  proof -
    have "x \<notin> fst ` set cs" using that assms(2) by (auto simp: list_all_iff)
    moreover from this have "map_of (rev cs) x = None" by (simp add: map_of_eq_None_iff)
    ultimately show "dictionary (standard_service cs e) x = dictionary ?b x" "colon_defs (standard_service cs e) x = colon_defs ?b x"
      by (simp_all add: standard_service_def define_all_sel)
  qed
  note names = RESERVED_def STANDARD_COLON_DEFS_def STRUCTURE_WORDS_def
  show "layout_ok (standard_service cs e)"
    using assms(1) by (simp add: standard_service_def b define_all_sel forth_new_ok)
  show "list_all (\<lambda>(x, code). dictionary (standard_service cs e) x = Some (Colon x) \<and> colon_defs (standard_service cs e) x = Some code)
      STANDARD_COLON_DEFS"
    by (simp add: kept names) (simp add: b define_all_sel names)
  show "list_all (\<lambda>x. dictionary (standard_service cs e) x = Some (Builtin NoOp)) STRUCTURE_WORDS"
    by (simp add: kept names) (simp add: b define_all_sel names forth_new_ok(5) [OF assms(1)] minimal_dictionary_def)
  show "dictionary (standard_service cs e) ''EXIT'' = Some (Builtin Exit)" "dictionary (standard_service cs e) ''0BRANCH'' = None"
    by (simp_all add: kept names) (simp_all add: b define_all_sel names forth_new_ok(5) [OF assms(1)] minimal_dictionary_def)
qed

lemma missing_word:
  "colon_defs s c = Some (x # code) \<Longrightarrow> dictionary s x = None \<Longrightarrow> execute (Suc n) (Colon c) s = (Inl (UnknownWordError x), s)"
  by simp

text \<open>
  C31. The standard control definitions, in a service with any stacks and any further definitions that leave their names alone, at every
  recursion limit deep enough for them: the two conditionals raise \<^verbatim>\<open>UnknownWordError\<close> for the missing \<^verbatim>\<open>0BRANCH\<close>, the loops do
  nothing, \<^verbatim>\<open>;\<close> is \<^verbatim>\<open>EXIT\<close>. And no definition that uses a conditional, anywhere in it, ever succeeds.
\<close>

theorem standard_colon_defs:
  assumes "layout_ok e" and "list_all (\<lambda>(x, code). x \<notin> set RESERVED) cs" and "s = standard_service cs e"
  shows "list_all (\<lambda>x. execute (Suc n) (Colon x) s = (Inl (UnknownWordError ''0BRANCH''), s)) [''IF_THEN'', ''IF_ELSE_THEN''] \<and>
    list_all (\<lambda>x. execute (Suc (Suc n)) (Colon x) s = (Inr (), s)) [''BEGIN_UNTIL'', ''WHILE_REPEAT'', ''DO_LOOP'', ''DO_PLUS_LOOP''] \<and>
    execute (Suc (Suc n)) (Colon '';'') s = exit s \<and>
    (\<forall>x code m. colon_defs s x = Some code \<longrightarrow> set code \<inter> {''IF_THEN'', ''IF_ELSE_THEN''} \<noteq> {} \<longrightarrow>
       fst (execute m (Colon x) s) \<noteq> Inr ())"
proof (intro conjI allI impI)
  note sel = standard_service_sel [OF assms(1,2), folded assms(3)]
  note words = sel(2,3) [unfolded STANDARD_COLON_DEFS_def STRUCTURE_WORDS_def]
  show "list_all (\<lambda>x. execute (Suc n) (Colon x) s = (Inl (UnknownWordError ''0BRANCH''), s)) [''IF_THEN'', ''IF_ELSE_THEN'']"
    using words(1) sel(5) by (simp del: execute.simps) (auto intro!: missing_word)
  show "list_all (\<lambda>x. execute (Suc (Suc n)) (Colon x) s = (Inr (), s)) [''BEGIN_UNTIL'', ''WHILE_REPEAT'', ''DO_LOOP'', ''DO_PLUS_LOOP'']"
    using words by simp
  show "execute (Suc (Suc n)) (Colon '';'') s = exit s"
    using words(1) sel(4) by (cases "exit s"; cases "fst (exit s)") simp_all
  fix x code m
  assume x: "colon_defs s x = Some code" "set code \<inter> {''IF_THEN'', ''IF_ELSE_THEN''} \<noteq> {}"
  then obtain c where c: "c \<in> set code" "c \<in> {''IF_THEN'', ''IF_ELSE_THEN''}" by blast
  from split_list [OF c(1)] obtain us vs where code: "code = us @ c # vs" by blast
  have d: "dictionary s c = Some (Colon c)" "\<exists>r. colon_defs s c = Some (''0BRANCH'' # r)" using c(2) words(1) by auto
  have fails: "fst (execute k (Colon c) t) \<noteq> Inr ()" if "service_kept s t" for k t
    using that d(2) sel(5) by (cases k) (auto simp: service_kept_def missing_word simp del: execute.simps(3))
  show "fst (execute m (Colon x) s) \<noteq> Inr ()"
  proof (cases m)
    case (Suc k)
    obtain r t where t: "run_words (execute k) us s = (r, t)" by (cases "run_words (execute k) us s")
    have "service_keeps (run_words (execute k) us)" by (intro service_keeps_words service_keeps_execute)
    with t sel(1) have "service_kept s t" by (auto simp: service_keeps_def dest: spec [of _ s])
    from fails [OF this, of k] have "fst (chain (execute k (Colon c)) (\<lambda>_. run_words (execute k) vs) t) \<noteq> Inr ()"
      by (cases "execute k (Colon c) t"; cases "fst (execute k (Colon c) t)") auto
    with t show ?thesis
      unfolding Suc colon_use [OF sel(1) x(1) [unfolded code] d(1)] by (cases r) simp_all
  qed simp
qed

text \<open>\<^verbatim>\<open>: MAX OVER OVER < IF_THEN ;\<close>.\<close>

theorem standard_colon_defs_witness:
  "fst (execute 1000 (Colon ''MAX'') (standard_service [(''MAX'', [''OVER'', ''OVER'', ''<'', ''IF_THEN''])] machine_new)) \<noteq> Inr ()"
proof -
  let ?cs = "[(''MAX'', [''OVER'', ''OVER'', ''<'', ''IF_THEN''])]"
  have new: "list_all (\<lambda>(x, code). x \<notin> set RESERVED) ?cs"
    by (simp add: RESERVED_def STANDARD_COLON_DEFS_def STRUCTURE_WORDS_def)
  have "colon_defs (standard_service ?cs machine_new) ''MAX'' = Some [''OVER'', ''OVER'', ''<'', ''IF_THEN'']"
    by (simp add: standard_service_def define_all_sel)
  moreover have "set [''OVER'', ''OVER'', ''<'', ''IF_THEN''] \<inter> {''IF_THEN'', ''IF_ELSE_THEN''} \<noteq> {}" by simp
  ultimately show ?thesis
    using standard_colon_defs [OF machine_new_sel(1) new refl, of 0] by blast
qed

end
