(* ===== verification/Literals.thy ===== *)
theory Literals
  imports Interpreter
begin

section \<open>Numbers as text\<close>

text \<open>
  The decimal rendering of Python and the two readers of numbers in the system: \<^verbatim>\<open>int(token, 0)\<close> of the
  assembler and the kernel's \<^verbatim>\<open>NUMBER\<close>. Both read back what was rendered. Then what \<^verbatim>\<open>WORD\<close> makes of its
  input.
\<close>

subsection \<open>Decimal digits\<close>

definition digit_char :: "nat \<Rightarrow> char" where
  "digit_char d = ''0123456789'' ! d"

lemma digit_cases: "(d :: nat) < 10 \<Longrightarrow> d \<in> {0, 1, 2, 3, 4, 5, 6, 7, 8, 9}"
  by auto

lemma digit_char_facts:
  assumes "d < 10"
  shows "digit_value (digit_char d) = Some d" "digit_char d \<noteq> CHR ''_''" "\<not> isspace (digit_char d)"
    "digit_char d \<noteq> CHR ''-''" "digit_char d \<noteq> CHR ''+''" "(of_char (digit_char d) :: int) = 48 + int d"
    "digit_char d = CHR ''0'' \<longleftrightarrow> d = 0"
  using digit_cases [OF assms]
  by (auto simp: digit_char_def text_simps is_digit_def between_def code_point_def simp del: insert_iff)

lemma decimal_small: "n < 10 \<Longrightarrow> decimal n = [digit_char n]"
  by (simp add: decimal.simps [of n] digit_char_def)

lemma decimal_large: "\<not> n < 10 \<Longrightarrow> decimal n = decimal (n div 10) @ [digit_char (n mod 10)]"
  by (simp add: decimal.simps [of n] digit_char_def)

lemma decimal_induct [case_names small large]:
  assumes "\<And>n. n < 10 \<Longrightarrow> P n" and "\<And>n. \<not> n < 10 \<Longrightarrow> P (n div 10) \<Longrightarrow> P n"
  shows "P (n :: nat)"
  by (induction n rule: decimal.induct) (use assms in metis)

lemma decimal_not_Nil [simp]: "decimal n \<noteq> []"
  by (cases "n < 10") (simp_all add: decimal_small decimal_large)

lemma decimal_digits_only: "list_all (\<lambda>c. \<exists>d < 10. c = digit_char d) (decimal n)"
proof (induction n rule: decimal_induct)
  case (large n)
  have "\<exists>d < 10. digit_char (n mod 10) = digit_char d" by (rule exI [of _ "n mod 10"]) simp
  with large show ?case by (simp add: decimal_large)
qed (auto simp: decimal_small)

lemma decimal_head: "0 < n \<Longrightarrow> \<exists>d cs. decimal n = digit_char d # cs \<and> 0 < d \<and> d < 10"
proof (induction n rule: decimal_induct)
  case (large n)
  then have "0 < n div 10" by simp
  with large obtain d cs where "decimal (n div 10) = digit_char d # cs" "0 < d" "d < 10" by blast
  with large show ?case by (auto simp: decimal_large)
qed (auto simp: decimal_small)

subsection \<open>The assembler's integer literals\<close>

lemma digits_from_decimal:
  "digits_from 10 seen acc (decimal n @ cs) = digits_from 10 True (acc * 10 ^ length (decimal n) + n) cs"
proof (induction n arbitrary: seen acc cs rule: decimal_induct)
  case (small n)
  then show ?case by (simp add: decimal_small digit_char_facts del: digit_value.simps)
next
  case (large n)
  let ?k = "10 ^ length (decimal (n div 10)) :: nat"
  have "digits_from 10 seen acc (decimal n @ cs) = digits_from 10 True (acc * ?k + n div 10) (digit_char (n mod 10) # cs)"
    using large by (simp add: decimal_large del: digits_from.simps)
  also have "\<dots> = digits_from 10 True ((acc * ?k + n div 10) * 10 + n mod 10) cs"
    by (simp add: digit_char_facts del: digit_value.simps)
  also have "(acc * ?k + n div 10) * 10 + n mod 10 = acc * (?k * 10) + n"
    by (simp add: add_mult_distrib)
  also have "?k * 10 = 10 ^ length (decimal n)" using large by (simp add: decimal_large)
  finally show ?case .
qed

lemma decimal_literal:
  assumes "length (decimal n) \<le> int_max_str_digits"
  shows "unsigned_literal (decimal n) = Some n"
proof -
  have no: "c \<noteq> CHR ''_''" if "c \<in> set (decimal n)" for c
  proof -
    from that decimal_digits_only [of n] obtain d where d: "d < 10" "c = digit_char d"
      unfolding list_all_iff by blast
    show ?thesis using digit_char_facts(2) [OF d(1)] d(2) by simp
  qed
  have "filter (\<lambda>c. c \<noteq> CHR ''_'') (decimal n) = decimal n" by (rule filter_True) (use no in blast)
  then have reads: "decimal_digits (decimal n) = Some n"
    using digits_from_decimal [of False 0 n "[]"] assms by (simp add: decimal_digits_def)
  show ?thesis
  proof (cases "n = 0")
    case True
    then show ?thesis by (simp add: decimal_small digit_char_def unsigned_literal_def)
  next
    case False
    then obtain d cs where "decimal n = digit_char d # cs" "0 < d" "d < 10" using decimal_head by blast
    with reads digit_char_facts(7) [of d] show ?thesis by (simp add: unsigned_literal_def)
  qed
qed

lemma decimal_no_space: "list_all (\<lambda>c. \<not> isspace c) (decimal n)"
  using decimal_digits_only [of n] digit_char_facts(3) by (fastforce simp: list_all_iff)

lemma int_literal_str:
  assumes "length (decimal (nat \<bar>i\<bar>)) \<le> int_max_str_digits"
  shows "int_literal (py_str_int i) = Some i"
proof -
  obtain d cs where d: "decimal (nat \<bar>i\<bar>) = digit_char d # cs" "d < 10"
    using decimal_digits_only [of "nat \<bar>i\<bar>"] by (cases "decimal (nat \<bar>i\<bar>)") auto
  show ?thesis
  proof (cases "i < 0")
    case True
    have "list_all (\<lambda>c. \<not> isspace c) (CHR ''-'' # decimal (nat (- i)))"
      using decimal_no_space by (simp add: text_simps)
    with True decimal_literal [OF assms] show ?thesis
      by (simp add: int_literal_def py_str_int_def strip_no_space)
  next
    case False
    then have "strip (py_str_int i) = digit_char d # cs" "unsigned_literal (digit_char d # cs) = Some (nat i)"
      using d decimal_no_space [of "nat i"] decimal_literal [OF assms] by (simp_all add: py_str_int_def strip_no_space)
    with False digit_char_facts(4,5) [OF d(2)] show ?thesis by (simp add: int_literal_def)
  qed
qed

subsection \<open>The kernel's NUMBER\<close>

lemma digits_value_decimal:
  "digits_value acc (codes (decimal n) @ xs) = digits_value (acc * 10 ^ length (decimal n) + int n) xs"
proof (induction n arbitrary: acc xs rule: decimal_induct)
  case (small n)
  then show ?case by (simp add: decimal_small digit_char_facts)
next
  case (large n)
  let ?k = "10 ^ length (decimal (n div 10)) :: int"
  have "digits_value acc (codes (decimal n) @ xs) = digits_value (acc * ?k + int (n div 10)) ((48 + int (n mod 10)) # xs)"
    using large by (simp add: decimal_large digit_char_facts del: digits_value.simps)
  also have "\<dots> = digits_value ((acc * ?k + int (n div 10)) * 10 + int (n mod 10)) xs"
  proof -
    have "n mod 10 < 10" by simp
    then have "int (n mod 10) \<le> 9" by linarith
    then show ?thesis by simp
  qed
  also have "(acc * ?k + int (n div 10)) * 10 + int (n mod 10) = acc * (?k * 10) + int (n div 10 * 10 + n mod 10)"
    by (simp only: distrib_right of_nat_add of_nat_mult of_nat_numeral mult.assoc add.assoc)
  also have "n div 10 * 10 + n mod 10 = n" by simp
  also have "?k * 10 = 10 ^ length (decimal n)" using large by (simp add: decimal_large)
  finally show ?case .
qed

lemma number_value_decimal: "number_value (codes (py_str_int i)) = Some i"
proof (cases "i < 0")
  case True
  have "codes (decimal (nat (- i))) \<noteq> []" using decimal_not_Nil by (metis codes_inject codes_simps(1))
  with True digits_value_decimal [of 0 "nat (- i)" "[]"] show ?thesis by (simp add: py_str_int_def)
next
  case False
  obtain d cs where d: "decimal (nat i) = digit_char d # cs" "d < 10"
    using decimal_digits_only [of "nat i"] by (cases "decimal (nat i)") auto
  have "48 + int d \<noteq> 45" by simp
  with False d digits_value_decimal [of 0 "nat i" "[]"] digit_char_facts(6) [OF d(2)] show ?thesis
    by (simp add: py_str_int_def)
qed

text \<open>
  The kernel's \<^verbatim>\<open>NUMBER\<close> reads back every integer rendered in decimal into a counted string: the routine
  leaves the number and a true flag, within 26 steps per character and 40 more.
\<close>

theorem number_reads_decimal:
  assumes "poised c 216 a" and "ads a = p # d" and "counted (acells a) p = Some (codes (py_str_int i))"
    and "length d + 2 \<le> dcap c"
  shows "delivers c (26 * length (py_str_int i) + 40) a (Next ((view a)\<lparr>vds := 1 # i # d\<rparr>))"
proof -
  obtain k n where k: "p = int k" "acells a ! k = int n" "k + n < length (acells a)"
      "codes (py_str_int i) = slice (acells a) (Suc k) (Suc (k + n))"
    using assms(3) by (auto simp: counted_Some)
  have "length (codes (py_str_int i)) = n" using k(3) by (simp add: k(4))
  then have "acells a ! nat p = int (length (py_str_int i))" using k(1,2) by simp
  moreover have "number_word c (view a) = Next ((view a)\<lparr>vds := 1 # i # d\<rparr>)"
    using assms(2-4) by (simp add: number_word_def view_def number_value_decimal)
  ultimately show ?thesis
    using NUMBER_word [of c] assms(1,2) by (fastforce simp: implements_def view_def)
qed

text \<open>A machine at a routine, with these stacks, cells and input.\<close>

definition at_routine :: "int \<Rightarrow> int list \<Rightarrow> int list \<Rightarrow> int list \<Rightarrow> amachine" where
  "at_routine k d m i = \<lparr>aregs = (\<lambda>_. None)(''NEXTREG'' \<mapsto> 3), ads = d, ars = [], acells = m, ainq = i, aoutb = [],
     apc = k, ahalted = False\<rparr>"

definition kernel_config :: config where
  "kernel_config = \<lparr>ccode = kernel_program, dcap = 1024, rcap = 1024\<rparr>"

lemma at_routine_poised: "length d \<le> 1024 \<Longrightarrow> poised kernel_config k (at_routine k d m i)"
  by (simp add: poised_def at_routine_def kernel_config_def aread_def register_read_def)

theorem number_reads_decimal_witness:
  "delivers kernel_config 118 (at_routine 216 [2] [0, 0, 3, 45, 52, 50] [])
     (Next ((view (at_routine 216 [2] [0, 0, 3, 45, 52, 50] []))\<lparr>vds := [1, - 42]\<rparr>))"
proof -
  have rendered: "py_str_int (- 42) = ''-42''" by (simp add: py_str_int_def decimal_small decimal_large digit_char_def)
  have "counted [0, 0, 3, 45, 52, 50] 2 = Some (codes (py_str_int (- 42)))"
    by (simp add: rendered counted_Some slice_def)
  with number_reads_decimal [of kernel_config "at_routine 216 [2] [0, 0, 3, 45, 52, 50] []" 2 "[]" "- 42"]
  show ?thesis
    by (simp add: rendered at_routine_poised) (simp add: at_routine_def kernel_config_def)
qed

subsection \<open>The kernel's WORD\<close>

lemma until_delim_token: "x \<notin> set tok \<Longrightarrow> until_delim x (tok @ x # rest) = (tok, Some rest)"
  by (induction tok) auto

lemma word_word_token:
  assumes "vds v = x # d" and "vin v = replicate n x @ tok @ x # rest" and "tok \<noteq> []" and "x \<notin> set tok"
    and "1985 + length tok \<le> length (vcells v)"
  shows "word_word c v =
    Next (v\<lparr>vds := 1984 # d, vin := rest, vcells := put_cells (vcells v) 1984 (int (length tok) # tok)\<rparr>)"
proof -
  have "dropWhile (\<lambda>y. y = x) (vin v) = tok @ x # rest"
    using assms(2-4) by (cases tok) (auto simp: dropWhile_append)
  then show ?thesis
    using assms(1,5) until_delim_token [OF assms(4), of rest] by (simp add: word_word_def Let_def)
qed

lemma word_takes_token:
  assumes "poised c 278 a" and "ads a = x # d" and "ainq a = replicate n x @ tok @ x # rest"
    and "tok \<noteq> []" and "x \<notin> set tok" and "1985 + length tok \<le> length (acells a)"
  shows "delivers c (11 * length (ainq a) + 31) a
    (Next ((view a)\<lparr>vds := 1984 # d, vin := rest, vcells := put_cells (acells a) 1984 (int (length tok) # tok)\<rparr>))"
  using WORD_word [of c] assms(1) word_word_token [of "view a" x d n tok rest c] assms(2-6)
  by (fastforce simp: implements_def view_def)

text \<open>
  C25. The kernel's \<^verbatim>\<open>WORD\<close> takes one token from the input: delimiters before it are skipped, the delimiter after
  it is consumed, the token is in the buffer as a counted string, and nothing below the buffer has changed.
\<close>

theorem word_reads_token:
  assumes "poised c 278 a" and "ads a = x # d" and "ainq a = replicate n x @ tok @ x # rest"
    and "tok \<noteq> []" and "x \<notin> set tok" and "1985 + length tok \<le> length (acells a)"
  shows "\<exists>v. delivers c (11 * length (ainq a) + 31) a (Next v) \<and> vds v = 1984 # d \<and> vin v = rest \<and>
    counted (vcells v) 1984 = Some tok \<and> take 1984 (vcells v) = take 1984 (acells a)"
proof -
  let ?m = "put_cells (acells a) 1984 (int (length tok) # tok)"
  have "counted ?m 1984 = Some tok"
    using counted_put_cells [of 1984 tok "acells a"] assms(6) by simp
  moreover have "take 1984 ?m = take 1984 (acells a)"
    using assms(6) by (intro nth_equalityI) (simp_all add: nth_put_cells)
  ultimately show ?thesis
    by (intro exI [of _ "(view a)\<lparr>vds := 1984 # d, vin := rest, vcells := ?m\<rparr>"]) (simp add: word_takes_token [OF assms])
qed

theorem word_reads_token_witness:
  "\<exists>v. delivers kernel_config 86 (at_routine 278 [32] (replicate 2048 0) [32, 68, 85, 80, 32]) (Next v) \<and>
    vds v = [1984] \<and> vin v = [] \<and> counted (vcells v) 1984 = Some [68, 85, 80]"
  using word_reads_token [of kernel_config "at_routine 278 [32] (replicate 2048 0) [32, 68, 85, 80, 32]" 32 "[]" 1
      "[68, 85, 80]" "[]", OF at_routine_poised]
  by (auto simp: at_routine_def)

end
