(* ===== verification/Listing.thy ===== *)
theory Listing
  imports Literals Assembler
begin

section \<open>Programs as assembler text\<close>

text \<open>
  A listing writes every instruction of a program on a line of its own, mnemonic and operands as the operand
  signatures of \<^verbatim>\<open>specs.py\<close> order them. The assembler reads a listing back: the parser, the resolver and the
  emitter together invert it, and so every program the assembler can produce has a label-free source.
\<close>

subsection \<open>Listings\<close>

fun field_token :: "operand_spec \<Rightarrow> instruction \<Rightarrow> string" where
  "field_token (FieldA, _) i = (case opa i of Some r \<Rightarrow> r | None \<Rightarrow> [])"
| "field_token (FieldB, _) i = (case opb i of Some (Reg r) \<Rightarrow> r | Some (Imm n) \<Rightarrow> py_str_int n | None \<Rightarrow> [])"
| "field_token (FieldOffset, _) i = (case offset i of Some n \<Rightarrow> py_str_int n | None \<Rightarrow> [])"

definition tokens :: "instruction \<Rightarrow> string list" where
  "tokens i = map (\<lambda>s. field_token s i) (OPERAND_SPECS (opcode i))"

fun joined :: "string list \<Rightarrow> string" where
  "joined [] = []"
| "joined [t] = t"
| "joined (t # ts) = t @ '', '' @ joined ts"

definition line_text :: "instruction \<Rightarrow> string" where
  "line_text i = opcode_value (opcode i) @ (if tokens i = [] then [] else CHR '' '' # joined (tokens i))"

definition listing :: "program \<Rightarrow> string" where
  "listing p = concat (map (\<lambda>i. line_text i @ [CHR 0x0A]) p)"

text \<open>
  What a listing can say: identifiers for registers, numbers of at most 4300 digits, and no field the
  signature does not name.
\<close>

definition short :: "int \<Rightarrow> bool" where
  "short n \<longleftrightarrow> length (decimal (nat \<bar>n\<bar>)) \<le> int_max_str_digits"

definition short_numbers :: "instruction \<Rightarrow> bool" where
  "short_numbers i \<longleftrightarrow> pred_option short (offset i) \<and>
     pred_option (\<lambda>v. case v of Imm n \<Rightarrow> short n | Reg r \<Rightarrow> True) (opb i)"

definition named_registers :: "instruction \<Rightarrow> bool" where
  "named_registers i \<longleftrightarrow> pred_option isidentifier (opa i) \<and>
     pred_option (\<lambda>v. case v of Imm n \<Rightarrow> True | Reg r \<Rightarrow> isidentifier r) (opb i)"

definition no_extra :: "instruction \<Rightarrow> bool" where
  "no_extra i \<longleftrightarrow> (let fs = map fst (OPERAND_SPECS (opcode i)) in
     (FieldA \<in> set fs \<or> opa i = None) \<and> (FieldB \<in> set fs \<or> opb i = None) \<and> (FieldOffset \<in> set fs \<or> offset i = None))"

definition listable :: "instruction \<Rightarrow> bool" where
  "listable i \<longleftrightarrow> instruction_ok i \<and> no_extra i \<and> named_registers i \<and> short_numbers i"

subsection \<open>Plain text\<close>

definition plain :: "char \<Rightarrow> bool" where
  "plain c \<longleftrightarrow> \<not> isspace c \<and> c \<noteq> CHR '','' \<and> c \<noteq> CHR '';''"

definition plain_word :: "string \<Rightarrow> bool" where
  "plain_word s \<longleftrightarrow> s \<noteq> [] \<and> list_all plain s"

lemma ident_char_plain: "ident_char c \<Longrightarrow> plain c"
  by (auto simp: plain_def ident_char_no_space) (simp_all add: char_classes)

lemma ident_start_char: "ident_start c \<Longrightarrow> ident_char c"
  by (simp add: ident_char_def)

lemma identifier_plain: "isidentifier s \<Longrightarrow> plain_word s"
  by (cases s) (auto simp: plain_word_def list_all_iff intro!: ident_char_plain intro: ident_start_char)

lemma decimal_plain: "plain_word (decimal n)"
proof -
  have "plain (digit_char d)" if "d < 10" for d
    using digit_cases [OF that] by (auto simp: digit_char_def plain_def text_simps)
  then show ?thesis
    using decimal_digits_only [of n] by (auto simp: plain_word_def list_all_iff)
qed

lemma py_str_plain: "plain_word (py_str_int n)"
  using decimal_plain by (auto simp: py_str_int_def plain_word_def plain_def text_simps)

lemma token_plain: "instruction_ok i \<Longrightarrow> named_registers i \<Longrightarrow> t \<in> set (tokens i) \<Longrightarrow> plain_word t"
  by (cases "opcode i")
    (auto simp: tokens_def instruction_ok_def named_registers_def identifier_plain py_str_plain split: operand.splits)

lemma strip_plain: "plain_word s \<Longrightarrow> strip s = s"
  by (rule strip_no_space) (auto simp: plain_word_def plain_def list_all_iff)

lemma strip_space_plain: "plain_word s \<Longrightarrow> strip (CHR '' '' # s) = s"
  using strip_plain [of s] by (simp add: strip_def lstrip_def text_simps)

lemma strip_ends:
  assumes "s \<noteq> []" and "\<not> isspace (hd s)" and "\<not> isspace (last s)"
  shows "strip s = s"
proof -
  have "lstrip s = s" using assms(1,2) by (cases s) (simp_all add: lstrip_def)
  moreover have "lstrip (rev s) = rev s" using assms(1,3) by (cases s rule: rev_cases) (simp_all add: lstrip_def)
  ultimately show ?thesis by (simp add: strip_def)
qed

subsection \<open>Parsing a listed line\<close>

lemma split_on_word: "d \<notin> set t \<Longrightarrow> split_on d acc (t @ s) = split_on d (rev t @ acc) s"
  by (induction t arbitrary: acc) auto

lemma plain_word_no_comma: "plain_word t \<Longrightarrow> CHR '','' \<notin> set t"
  by (auto simp: plain_word_def plain_def list_all_iff)

lemma strip_after: "plain_word t \<Longrightarrow> acc = [] \<or> acc = '' '' \<Longrightarrow> strip (rev acc @ t) = t"
  using strip_plain [of t] strip_space_plain [of t] by auto

lemma split_joined:
  assumes "ts \<noteq> []" and "list_all plain_word ts" and "acc = [] \<or> acc = '' ''"
  shows "map strip (split_on CHR '','' acc (joined ts)) = ts"
  using assms
proof (induction ts arbitrary: acc rule: joined.induct)
  case (2 t)
  then have t: "plain_word t" by simp
  have "split_on CHR '','' acc (t @ []) = [rev acc @ t]"
    using split_on_word [OF plain_word_no_comma [OF t], of acc "[]"] by simp
  with strip_after [OF t 2(3)] show ?case by simp
next
  case (3 t u ts)
  then have t: "plain_word t" and ts: "list_all plain_word (u # ts)" by simp_all
  have "split_on CHR '','' acc (joined (t # u # ts)) =
      split_on CHR '','' (rev t @ acc) ('', '' @ joined (u # ts))"
    unfolding joined.simps by (rule split_on_word [OF plain_word_no_comma [OF t]])
  also have "\<dots> = (rev acc @ t) # split_on CHR '','' '' '' (joined (u # ts))"
    by simp
  finally have *: "split_on CHR '','' acc (joined (t # u # ts)) = \<dots>" .
  have "map strip (split_on CHR '','' '' '' (joined (u # ts))) = u # ts"
    by (rule "3.IH") (use ts in simp_all)
  then show ?case unfolding * using strip_after [OF t 3(4)] by simp
qed simp

lemma split_operands_joined:
  assumes "list_all plain_word ts"
  shows "split_operands (joined ts) = ts"
proof (cases "ts = []")
  case True
  then show ?thesis by (simp add: split_operands_def strip_def lstrip_def)
next
  case False
  moreover have "filter (\<lambda>p. p \<noteq> []) ts = ts"
    using assms by (auto simp: plain_word_def list_all_iff intro!: filter_True)
  ultimately show ?thesis using split_joined [OF _ assms, of "[]"] by (simp add: split_operands_def)
qed

text \<open>What the rest of a listed line looks like: no comment, no line boundary, no blank at either end.\<close>

definition tidy :: "string \<Rightarrow> bool" where
  "tidy s \<longleftrightarrow> s \<noteq> [] \<and> \<not> isspace (hd s) \<and> \<not> isspace (last s) \<and>
     list_all (\<lambda>c. c \<noteq> CHR '';'' \<and> \<not> is_line_break c) s"

lemma line_break_space: "is_line_break c \<Longrightarrow> isspace c"
  by (auto simp: is_line_break_def isspace_def between_def Let_def)

lemma plain_word_tidy:
  assumes "plain_word t"
  shows "tidy t"
proof -
  from assms have "plain c" if "c \<in> set t" for c using that by (simp add: plain_word_def list_all_iff)
  moreover from assms have "t \<noteq> []" by (simp add: plain_word_def)
  ultimately show ?thesis
    by (auto simp: tidy_def plain_def list_all_iff dest: line_break_space)
qed

lemma tidy_join:
  assumes "tidy s" and "tidy t" and "list_all (\<lambda>c. c \<noteq> CHR '';'' \<and> \<not> is_line_break c) sep"
  shows "tidy (s @ sep @ t)"
  using assms by (simp add: tidy_def)

lemma separators: "list_all (\<lambda>c. c \<noteq> CHR '';'' \<and> \<not> is_line_break c) '', ''"
    "list_all (\<lambda>c. c \<noteq> CHR '';'' \<and> \<not> is_line_break c) '' ''"
  by (simp_all add: text_simps)

lemma tidy_joined: "ts \<noteq> [] \<Longrightarrow> list_all plain_word ts \<Longrightarrow> tidy (joined ts)"
proof (induction ts rule: joined.induct)
  case (3 t u ts)
  then have "tidy t" "tidy (joined (u # ts))" by (simp_all add: plain_word_tidy)
  from tidy_join [OF this separators(1)] show ?case unfolding joined.simps .
qed (simp_all add: plain_word_tidy)

lemma mnemonic_plain: "plain_word (opcode_value op)" "isalnum (remove_underscores (opcode_value op))"
    "\<exists>c cs. opcode_value op = c # cs \<and> list_all word_char (c # cs)"
  by (cases op; simp add: plain_word_def plain_def isalnum_def remove_underscores_def text_simps)+

lemma strip_tidy: "tidy s \<Longrightarrow> strip s = s"
  by (rule strip_ends) (simp_all add: tidy_def)

lemma label_prefix_word:
  assumes "w \<noteq> []" and "list_all word_char w" and "\<not> isspace (hd w)"
    and "s = [] \<or> (\<exists>c r. s = c # r \<and> \<not> word_char c \<and> c \<noteq> CHR '':'')"
  shows "label_prefix (w @ s) = None"
proof -
  have "lstrip (w @ s) = w @ s" using assms(1,3) by (cases w) (simp_all add: lstrip_def)
  moreover have "dropWhile word_char (w @ s) = s"
    using assms(2,4) by (auto simp: list_all_iff dropWhile_append)
  moreover obtain c cs where "w = c # cs" using assms(1) by (cases w) auto
  ultimately show ?thesis using assms(4) by (auto simp: label_prefix_def)
qed

lemma tokens_plain: "listable i \<Longrightarrow> list_all plain_word (tokens i)"
  using token_plain by (auto simp: list_all_iff listable_def)

lemma line_text_tidy: "listable i \<Longrightarrow> tidy (line_text i)"
  using tidy_join [OF plain_word_tidy [OF mnemonic_plain(1)] tidy_joined [OF _ tokens_plain] separators(2), of i "opcode i"]
    plain_word_tidy [OF mnemonic_plain(1)]
  by (simp add: line_text_def)

lemma first_field_line:
  assumes "list_all (\<lambda>c. \<not> isspace c) w" and "r = [] \<or> r = CHR '' '' # t \<and> tidy t"
  shows "first_field (w @ r) = (w, drop 1 r)"
proof -
  have w: "takeWhile (\<lambda>c. \<not> isspace c) (w @ s) = w @ takeWhile (\<lambda>c. \<not> isspace c) s"
      "dropWhile (\<lambda>c. \<not> isspace c) (w @ s) = dropWhile (\<lambda>c. \<not> isspace c) s" for s
    using assms(1) by (simp_all add: list_all_iff)
  have "lstrip (CHR '' '' # t) = t" if "tidy t"
    using that by (cases t) (simp_all add: lstrip_def tidy_def text_simps)
  then show ?thesis
    using assms(2) by (auto simp: first_field_def w text_simps) (simp add: lstrip_def)
qed

lemma parse_listed_line:
  assumes "listable i"
  shows "parse_line n (line_text i) = Inr (mk_line n [] (Some (opcode_value (opcode i))) (tokens i))"
proof -
  let ?m = "opcode_value (opcode i)" let ?r = "if tokens i = [] then [] else CHR '' '' # joined (tokens i)"
  have m: "list_all (\<lambda>c. \<not> isspace c) ?m"
    using mnemonic_plain(1) [of "opcode i"] by (auto simp: plain_word_def plain_def list_all_iff)
  have tidy: "tidy (line_text i)" by (rule line_text_tidy [OF assms])
  have "before CHR '';'' (line_text i) = line_text i"
    using tidy by (auto simp: before_def tidy_def list_all_iff)
  moreover have "label_prefix (?m @ ?r) = None"
    using mnemonic_plain(3) [of "opcode i"] m
    by (intro label_prefix_word) (auto simp: list_all_iff text_simps)
  then have "peel_labels (line_text i) = ([], line_text i)"
    unfolding line_text_def by (subst peel_labels.simps) simp
  moreover have "first_field (line_text i) = (?m, drop 1 ?r)"
    unfolding line_text_def
    by (rule first_field_line [OF m, where t = "joined (tokens i)"]) (use tidy_joined [OF _ tokens_plain [OF assms]] in auto)
  moreover have "split_operands (drop 1 ?r) = tokens i"
    using split_operands_joined [OF tokens_plain [OF assms]] by (cases "tokens i = []") simp_all
  ultimately show ?thesis
    using strip_tidy [OF tidy] tidy mnemonic_plain(2) [of "opcode i"]
    by (simp add: parse_line_def split_mnemonic_def tidy_def)
qed

subsection \<open>Assembling a listing\<close>

lemma closed_line:
  "list_all (\<lambda>c. \<not> is_line_break c) s \<Longrightarrow> closed_lines (s @ [CHR 0x0A]) = Some [s]"
proof (induction s)
  case (Cons c s)
  then have "c \<noteq> CHR 0x0A" by (auto simp: is_line_break_def char_classes)
  with Cons show ?case by (simp add: closed_lines.simps(2) [of c])
qed (simp add: text_simps)

lemma listing_lines: "list_all listable p \<Longrightarrow> closed_lines (listing p) = Some (map line_text p)"
proof (induction p)
  case (Cons i p)
  then have "list_all (\<lambda>c. \<not> is_line_break c) (line_text i)"
    using line_text_tidy [of i] by (simp add: tidy_def list_all_iff)
  from closed_lines_join [OF closed_line [OF this], of "listing p" "map line_text p"] Cons show ?case
    by (simp add: listing_def)
qed (simp add: listing_def text_simps)

definition listed_line :: "nat \<Rightarrow> instruction \<Rightarrow> line" where
  "listed_line n i = mk_line n [] (Some (opcode_value (opcode i))) (tokens i)"

lemma parse_listing_lines:
  "list_all listable p \<Longrightarrow> parse_lines n (map line_text p) = Inr (map2 listed_line [n..<n + length p] p)"
  by (induction p arbitrary: n) (simp_all add: parse_listed_line listed_line_def upt_conv_Cons del: upt_Suc)

lemma int_literal_short: "short n \<Longrightarrow> int_literal (py_str_int n) = Some n"
  by (simp add: short_def int_literal_str)

text \<open>A line that says what the instruction is, wherever it stands.\<close>

definition says :: "line \<Rightarrow> instruction \<Rightarrow> bool" where
  "says l i \<longleftrightarrow> labels l = [] \<and> mnemonic l = Some (opcode_value (opcode i)) \<and> operands l = tokens i"

lemma emit_listed:
  assumes "listable i" and "says l i"
  shows "emit_line l Map.empty = Inr [i]"
proof -
  have "emit_line l Map.empty = emit_opcode (opcode i) (opcode_value (opcode i)) l Map.empty"
    using assms(2) by (simp add: emit_line_def says_def)
  also have "\<dots> = Inr [i]"
    using assms
    by (cases i; cases "opcode i")
      (auto simp: says_def emit_opcode_def tokens_def listable_def instruction_ok_def no_extra_def named_registers_def
        short_numbers_def resolve_register_ident resolve_reg_or_immediate_def int_literal_identifier
        resolve_offset_def int_literal_short instr_def split: operand.splits)
  finally show ?thesis .
qed

lemma says_placed: "list_all2 says ls p \<Longrightarrow> list_all2 says (placed_from a ls) p"
  by (induction ls p arbitrary: a rule: list_all2_induct) (simp_all add: says_def with_address_def)

lemma says_no_labels: "list_all2 says ls p \<Longrightarrow> all_labels ls = [] \<and> label_sites a ls = []"
  by (induction ls p arbitrary: a rule: list_all2_induct) (simp_all add: says_def)

lemma emit_listing: "list_all2 says ls p \<Longrightarrow> list_all listable p \<Longrightarrow> emit_lines ls Map.empty = Inr p"
proof (induction ls p rule: list_all2_induct)
  case (Cons l ls i p)
  then show ?case using emit_listed [of i l] by simp
qed simp

lemma says_listed: "list_all2 says (map2 listed_line [n..<n + length p] p) p"
  by (auto simp: list_all2_conv_all_nth says_def listed_line_def)

lemma assemble_listing:
  assumes "list_all listable p"
  shows "assemble (listing p) = Inr \<lparr>aprogram = p, alabels = Map.empty\<rparr>"
proof -
  let ?ls = "map2 listed_line [1..<1 + length p] p"
  note says = says_listed [of 1 p]
  have "parse (listing p) = Inr ?ls"
    using closed_lines_split [OF listing_lines [OF assms]] parse_listing_lines [OF assms, of 1] by (simp add: parse_def)
  with says_no_labels [OF says, of 0] emit_listing [OF says_placed [OF says] assms, of 0] show ?thesis
    unfolding assemble_eq by (intro exI [of _ ?ls]) simp
qed

subsection \<open>What the assembler produces can be listed\<close>

lemma emit_opcode_listable:
  assumes "emit_opcode op m l tab = Inr p"
  shows "\<exists>i. p = [i] \<and> no_extra i \<and> named_registers i"
  using assms
  by (cases op)
    (auto simp: emit_opcode_def Let_def attempt_eq_Inr no_extra_def named_registers_def length_Suc_conv
      resolve_register_def resolve_reg_or_immediate_def split: if_splits option.splits)

definition listable_shape :: "instruction \<Rightarrow> bool" where
  "listable_shape i \<longleftrightarrow> no_extra i \<and> named_registers i"

lemma emit_pseudo_listable:
  "emit_set l tab = Inr p \<Longrightarrow> list_all listable_shape p"
  "emit_mov l = Inr p \<Longrightarrow> list_all listable_shape p"
  by (auto simp: emit_set_def emit_mov_def attempt_eq_Inr listable_shape_def no_extra_def named_registers_def
      resolve_register_def split: list.splits if_splits)

lemma emit_line_listable:
  assumes "emit_line l tab = Inr p"
  shows "list_all listable_shape p"
proof -
  show ?thesis
  proof (cases "mnemonic l")
    case None
    then show ?thesis using assms by (simp add: emit_line_def)
  next
    case (Some m)
    consider "m = SET_MNEMONIC" | "m \<noteq> SET_MNEMONIC" "m = MOV_MNEMONIC" | "m \<noteq> SET_MNEMONIC" "m \<noteq> MOV_MNEMONIC"
      by blast
    then show ?thesis
    proof cases
      case 1
      then show ?thesis using assms Some emit_pseudo_listable(1) [of l tab p] by (simp add: emit_line_def)
    next
      case 2
      then show ?thesis using assms Some emit_pseudo_listable(2) [of l p] by (simp add: emit_line_def)
    next
      case 3
      then obtain op where "emit_opcode op m l tab = Inr p"
        using assms Some by (cases "MNEMONICS m") (simp_all add: emit_line_def)
      from emit_opcode_listable [OF this] show ?thesis by (auto simp: listable_shape_def)
    qed
  qed
qed

lemma emit_lines_listable: "emit_lines ls tab = Inr p \<Longrightarrow> list_all listable_shape p"
  by (induction ls arbitrary: p) (auto simp: attempt_eq_Inr dest: emit_line_listable)

lemma assembled_listable:
  assumes "assemble source = Inr a" and "list_all short_numbers (aprogram a)"
  shows "list_all listable (aprogram a)"
proof -
  from assms(1) obtain ls where "emit_lines (placed_from 0 ls) (alabels a) = Inr (aprogram a)"
    unfolding assemble_eq by blast
  from emit_lines_listable [OF this] emit_lines_ok [OF this] assms(2) show ?thesis
    by (simp add: list_all_iff listable_def listable_shape_def program_ok_def)
qed

text \<open>
  C21. The assembler inverts listings: a program of well-formed instructions over identifiers and numbers of at
  most 4300 digits, written as text, assembles to exactly that program, with no labels.
\<close>

theorem listing_roundtrip:
  assumes "list_all listable p"
  shows "assemble (listing p) = Inr \<lparr>aprogram = p, alabels = Map.empty\<rparr>"
  using assms by (rule assemble_listing)

text \<open>A program that uses registers, immediates and a negative offset.\<close>

definition count_down :: program where
  "count_down = [instr SUB (Some ''X'') (Some (Imm 1)) None, instr JZ (Some ''X'') None (Some 1),
     instr JS (Some ''X'') None (Some (-3)), instr HALT None None None]"

theorem listing_roundtrip_witness:
  "assemble (''SUB X, 1'' @ [CHR 0x0A] @ ''JZ X, 1'' @ [CHR 0x0A] @ ''JS X, -3'' @ [CHR 0x0A] @ ''HALT'' @ [CHR 0x0A]) =
     Inr \<lparr>aprogram = count_down, alabels = Map.empty\<rparr>"
proof -
  have "list_all listable count_down"
    by (simp add: count_down_def listable_def instruction_ok_def no_extra_def named_registers_def short_numbers_def
        short_def decimal.simps text_simps)
  moreover have "listing count_down =
      ''SUB X, 1'' @ [CHR 0x0A] @ ''JZ X, 1'' @ [CHR 0x0A] @ ''JS X, -3'' @ [CHR 0x0A] @ ''HALT'' @ [CHR 0x0A]"
    by (simp add: listing_def count_down_def line_text_def tokens_def py_str_int_def decimal.simps)
  ultimately show ?thesis using listing_roundtrip [of count_down] by simp
qed

text \<open>
  Disassembling and assembling again changes nothing: the listing of any assembled program whose numbers
  have at most 4300 digits assembles to the same instructions, labels and pseudo-operations resolved.
\<close>

theorem relisting_stable:
  assumes "assemble source = Inr a" and "list_all short_numbers (aprogram a)"
  shows "assemble (listing (aprogram a)) = Inr (a\<lparr>alabels := Map.empty\<rparr>)"
  using assemble_listing [OF assembled_listable [OF assms]] by simp

theorem relisting_stable_witness:
  "\<exists>a. assemble tiny_source = Inr a \<and> assemble (listing (aprogram a)) = Inr (a\<lparr>alabels := Map.empty\<rparr>)"
proof -
  obtain a where a: "assemble tiny_source = Inr a" "list_all short_numbers (aprogram a)"
    using tiny_assemble by (simp add: short_numbers_def short_def decimal.simps)
  from relisting_stable [OF a] a(1) show ?thesis by blast
qed

end
