(* ===== verification/Codegen.thy ===== *)
theory Codegen
  imports Exec Assembler
begin

section \<open>Assembled code on the emulator\<close>

text \<open>
  Where the assembler and the emulator meet: what an assembled program can and cannot raise, what the
  two pseudo-operations compute, and where a branch to a label goes.
\<close>

subsection \<open>Assembled programs are safe\<close>

lemma goes_kept: "layout_ok s \<Longrightarrow> goes n s t \<Longrightarrow> kept s t"
proof (induction n arbitrary: s)
  case 0
  then show ?case by (simp add: kept_refl)
next
  case (Suc n)
  then obtain u s' where s': "step s = (Inr u, s')" "goes n s' t" by auto
  from step_kept [OF Suc.prems(1) s'(1)] have k: "kept s s'" .
  then have "kept s' t" using Suc.IH [OF _ s'(2)] by (simp add: kept_def)
  with k show ?case by (rule kept_trans)
qed

lemma run_error_cases:
  assumes "layout_ok s" and "program_ok (prog s)" and "run m s = (Inl e, t)"
  shows "e \<in> step_errors \<or> e = EmulatorError (ExceededSteps m)"
proof -
  from run_loop_outcome [OF assms(3) [unfolded run_def]] obtain n where "ends_at m 0 s (Inl e) t n" by blast
  then consider "e = EmulatorError (ExceededSteps m)" | t' where "goes n s t'" "step t' = (Inl e, t)"
    by (auto simp: ends_at_def)
  then show ?thesis
  proof cases
    case 2
    from goes_kept [OF assms(1) 2(1)] assms(2) have "program_ok (prog t')" by (simp add: kept_def config_of_def)
    with step_errors_only 2(2) show ?thesis by blast
  qed simp
qed

text \<open>
  C18. Type soundness of the assembler: a program it accepts, run from any machine with its layout intact, can
  only fail with a stack overflow or underflow, exhausted input, an index outside memory or program, or the
  step budget. The emulator's errors for malformed instructions never arise.
\<close>

theorem assembled_runs_safe:
  assumes "assemble source = Inr a" and "layout_ok s" and "run m (load (aprogram a) s) = (Inl e, t)"
  shows "e \<in> {IndexError, overflow, underflow, InputExhaustedError, EmulatorError (ExceededSteps m)}"
proof -
  have "program_ok (prog (load (aprogram a) s))"
    using text_assembler.outcome [of source] assms(1) by (simp add: load_def)
  moreover have "layout_ok (load (aprogram a) s)"
    using assms(2) by (simp add: load_def layout_ok_def)
  ultimately show ?thesis using run_error_cases [OF _ _ assms(3)] by (auto simp: step_errors_def)
qed

definition pop_source :: string where "pop_source = ''POP_D X''"

lemma pop_assemble: "\<exists>a. assemble pop_source = Inr a \<and> load (aprogram a) machine_new = popper"
proof -
  have "parse pop_source = Inr [mk_line 1 [] (Some ''POP_D'') [''X'']]"
    by (simp add: pop_source_def parse_def onto_first_def parse_evals text_simps peel_labels.simps)
  then have "assemble pop_source = Inr \<lparr>aprogram = [instr POP_D (Some ''X'') None None], alabels = Map.empty\<rparr>"
    by (simp add: assemble_eq emit_evals line_size_def PSEUDO_OP_SIZES_def text_simps)
  then show ?thesis by (simp add: load_def popper_def machine_new_def)
qed

theorem assembled_runs_safe_witness:
  "\<exists>a t. assemble pop_source = Inr a \<and> run 5 (load (aprogram a) machine_new) = (Inl underflow, t) \<and>
     underflow \<in> {IndexError, overflow, underflow, InputExhaustedError, EmulatorError (ExceededSteps 5)}"
proof -
  from pop_assemble obtain a where a: "assemble pop_source = Inr a" "load (aprogram a) machine_new = popper" by blast
  have "run 5 (load (aprogram a) machine_new) = (Inl underflow, popper\<lparr>pc := 1\<rparr>)"
    unfolding a(2) run_def by (rule run_loop_raise) (simp_all add: popper_step, simp add: popper_def)
  with assembled_runs_safe [OF a(1) machine_new_sel(1), of 5 underflow] a(1) show ?thesis by blast
qed

subsection \<open>The pseudo-operations\<close>

lemma two_steps:
  assumes "code_at (prog s) (pc s) [i, j]" and "\<not> halted s"
    and "handler (opcode i) i (s\<lparr>pc := pc s + 1\<rparr>) = (Inr (), u)" and "pc u = pc s + 1" and "prog u = prog s" and "\<not> halted u"
    and "handler (opcode j) j (u\<lparr>pc := pc s + 2\<rparr>) = (Inr (), t)"
  shows "goes 2 s t"
proof -
  have "fetch_at (prog s) (pc s) = Some i" "fetch_at (prog s) (pc s + 1) = Some j"
    using code_at_fetch [OF assms(1), of "pc s"] code_at_fetch [OF assms(1), of "pc s + 1"] by simp_all
  then have f: "fetch s = (Inr i, s)" "fetch u = (Inr j, u)"
    using assms(4,5) by (auto simp: fetch_def fetch_at_def split: option.splits)
  have "step s = (Inr (), u)" using f(1) assms(3) by (simp add: step_def)
  moreover have "step u = (Inr (), t)" using f(2) assms(4,7) by (simp add: step_def add.assoc)
  ultimately show ?thesis using assms(2,6) by (simp add: eval_nat_numeral)
qed

text \<open>
  C23. \<^verbatim>\<open>SET r, v\<close> puts the constant into the register and \<^verbatim>\<open>MOV d, s\<close> copies the source register, each in two
  steps that change nothing else, except that \<^verbatim>\<open>MOV\<close> of a register to itself clears it.
\<close>

theorem pseudo_operations_run:
  assumes "emit_line l tab = Inr p" and "code_at (prog s) (pc s) p" and "\<not> halted s"
    and "(mnemonic l = Some ''SET'' \<and> operands l = [d, x] \<and> resolve_constant x tab l = Inr v) \<or>
      (mnemonic l = Some ''MOV'' \<and> operands l = [d, x] \<and> v = (if d = x then 0 else register_read (regs s) x))"
  shows "goes 2 s (s\<lparr>regs := register_write (register_write (regs s) d 0) d v, pc := pc s + 2\<rparr>)"
proof -
  let ?i = "instr SUB (Some d) (Some (Reg d)) None"
  let ?u = "s\<lparr>pc := pc s + 1, regs := register_write (regs s) d 0\<rparr>"
  have i: "handler SUB ?i (s\<lparr>pc := pc s + 1\<rparr>) = (Inr (), ?u)"
    by (simp add: handler_defs operand_value_def del: operand_value_abstract)
  have "\<exists>y. p = [?i, instr ADD (Some d) (Some y) None] \<and>
      v = (case y of Imm n \<Rightarrow> n | Reg r \<Rightarrow> register_read (regs ?u) r)"
    using assms(4)
  proof
    assume "mnemonic l = Some ''SET'' \<and> operands l = [d, x] \<and> resolve_constant x tab l = Inr v"
    then show ?thesis using assms(1)
      by (intro exI [of _ "Imm v"])
        (auto simp: emit_line_def emit_set_def attempt_eq_Inr resolve_register_def split: if_splits)
  next
    assume "mnemonic l = Some ''MOV'' \<and> operands l = [d, x] \<and> v = (if d = x then 0 else register_read (regs s) x)"
    then show ?thesis using assms(1)
      by (intro exI [of _ "Reg x"])
        (auto simp: emit_line_def emit_mov_def attempt_eq_Inr resolve_register_def register_read_write split: if_splits)
  qed
  then obtain y where p: "p = [?i, instr ADD (Some d) (Some y) None]"
    and y: "v = (case y of Imm n \<Rightarrow> n | Reg r \<Rightarrow> register_read (regs ?u) r)" by blast
  have "handler ADD (instr ADD (Some d) (Some y) None) (?u\<lparr>pc := pc s + 2\<rparr>) =
      (Inr (), s\<lparr>regs := register_write (register_write (regs s) d 0) d v, pc := pc s + 2\<rparr>)"
    using y by (cases y; cases s) (simp_all add: handler_defs operand_value_def del: operand_value_abstract)
  then show ?thesis
    using assms(2,3) i unfolding p
    by (intro two_steps [where i = ?i and u = ?u and j = "instr ADD (Some d) (Some y) None"]) simp_all
qed

definition self_move :: line where "self_move = mk_line 1 [] (Some ''MOV'') [''X'', ''X'']"

theorem pseudo_operations_run_witness:
  "\<exists>p. emit_line self_move Map.empty = Inr p \<and>
     goes 2 (machine_new\<lparr>prog := p, regs := [''X'' \<mapsto> 7]\<rparr>)
       (machine_new\<lparr>prog := p, regs := register_write (register_write [''X'' \<mapsto> 7] ''X'' 0) ''X'' 0, pc := 2\<rparr>)"
proof -
  let ?p = "[instr SUB (Some ''X'') (Some (Reg ''X'')) None, instr ADD (Some ''X'') (Some (Reg ''X'')) None]"
  let ?s = "machine_new\<lparr>prog := ?p, regs := [''X'' \<mapsto> 7]\<rparr>"
  have p: "emit_line self_move Map.empty = Inr ?p"
    by (simp add: self_move_def emit_evals text_simps)
  have "code_at (prog ?s) (pc ?s) ?p" by (auto simp: code_at_def intro: exI [of _ "[]"])
  from pseudo_operations_run [OF p this, of "''X''" "''X''" 0] p show ?thesis
    by (auto simp: self_move_def)
qed

text \<open>
  C24. A conditional branch to a label, when taken, continues at the label's address, and otherwise at the next
  instruction; the offset the assembler computes is the one the emulator adds.
\<close>

theorem branch_reaches_label:
  assumes "emit_line l tab = Inr [i]" and "mnemonic l = Some (opcode_value op)" and "op = JZ \<or> op = JS"
    and "operands l = [r, x]" and "isidentifier x" and "tab x = Some k"
    and "fetch_at (prog s) (pc s) = Some i" and "pc s = laddress l"
  shows "step s = (Inr (), s\<lparr>pc := (if (if op = JZ then register_read (regs s) r = 0 else register_read (regs s) r < 0)
     then k else pc s + 1)\<rparr>)"
proof -
  have "i = instr op (Some r) None (Some (k - (laddress l + 1)))"
    using assms(1-6)
    by (auto simp: emit_line_def emit_opcode_def Let_def attempt_eq_Inr resolve_offset_ident resolve_register_def
        split: if_splits)
  moreover have "fetch s = (Inr i, s)" using assms(7) by (auto simp: fetch_def fetch_at_def split: option.splits)
  ultimately show ?thesis
    using assms(3,8) by (auto simp: step_def handler_defs)
qed

definition loop_line :: line where
  "loop_line = with_address (mk_line 1 [] (Some ''JZ'') [''X'', ''END'']) 0"

theorem branch_reaches_label_witness:
  "step (machine_new\<lparr>prog := [instr JZ (Some ''X'') None (Some 8)]\<rparr>) =
     (Inr (), machine_new\<lparr>prog := [instr JZ (Some ''X'') None (Some 8)], pc := 9\<rparr>)"
proof -
  let ?s = "machine_new\<lparr>prog := [instr JZ (Some ''X'') None (Some 8)]\<rparr>"
  have "emit_line loop_line [''END'' \<mapsto> 9] = Inr [instr JZ (Some ''X'') None (Some 8)]"
    by (simp add: loop_line_def emit_evals text_simps with_address_def mk_line_def)
  from branch_reaches_label [OF this, of JZ "''X''" "''END''" 9 ?s] show ?thesis
    by (simp add: loop_line_def with_address_def mk_line_def fetch_at_def text_simps)
qed

end
