(* ===== verification/StackRuns.thy ===== *)
theory StackRuns
  imports Stack
begin

section \<open>Sequences of stack operations\<close>

text \<open>
  What a client of one \<^verbatim>\<open>DownwardStackAdapter\<close> sees over any sequence of calls, failed calls included: the
  answers of a list of bounded length, inside its region of the memory and nowhere else.
\<close>

datatype stack_op = Push int | Pop | Peek

text \<open>One call on the adapter, and the same call on a list of at most \<open>n\<close> values, top first.\<close>

fun adapter_op :: "stack_op \<Rightarrow> (error, memory \<times> stack, int) exec" where
  "adapter_op (Push v) = chain (stack_push v) (\<lambda>_. pure v)"
| "adapter_op Pop = stack_pop"
| "adapter_op Peek = stack_peek"

fun list_op :: "nat \<Rightarrow> stack_op \<Rightarrow> (error, int list, int) exec" where
  "list_op n (Push v) xs = (if length xs < n then (Inr v, v # xs) else (Inl overflow, xs))"
| "list_op n Pop xs = (case xs of [] \<Rightarrow> (Inl underflow, []) | x # ys \<Rightarrow> (Inr x, ys))"
| "list_op n Peek xs = (case xs of [] \<Rightarrow> Inl underflow | x # ys \<Rightarrow> Inr x, xs)"

text \<open>A client that goes on after an error: all the answers, and the state at the end.\<close>

fun call_all :: "('op \<Rightarrow> (error, 's, 'a) exec) \<Rightarrow> 'op list \<Rightarrow> 's \<Rightarrow> (error + 'a) list \<times> 's" where
  "call_all f [] s = ([], s)"
| "call_all f (c # cs) s = (case f c s of (r, t) \<Rightarrow> case call_all f cs t of (outs, u) \<Rightarrow> (r # outs, u))"

definition outside_kept :: "stack \<Rightarrow> memory \<Rightarrow> memory \<Rightarrow> bool" where
  "outside_kept k m m' \<longleftrightarrow> length m' = length m \<and> take (nat (sfloor k)) m' = take (nat (sfloor k)) m \<and>
     drop (nat (sbase k)) m' = drop (nat (sbase k)) m"

lemma outside_kept_refl [simp]: "outside_kept k m m"
  by (simp add: outside_kept_def)

lemma outside_kept_trans:
  "outside_kept k m m1 \<Longrightarrow> same_region k k1 \<Longrightarrow> outside_kept k1 m1 m2 \<Longrightarrow> outside_kept k m m2"
  by (simp add: outside_kept_def same_region_def)

lemma same_region_trans: "same_region k k1 \<Longrightarrow> same_region k1 k2 \<Longrightarrow> same_region k k2"
  by (simp add: same_region_def)

lemma adapter_op_push:
  assumes "stack_ok m k" and "adapter_op (Push v) (m, k) = (r, m', k')"
  shows "stack_ok m' k' \<and> same_region k k' \<and> outside_kept k m m' \<and>
     list_op (region k) (Push v) (content m k) = (r, content m' k')"
proof (cases "0 < room k")
  case True
  have a: "sfloor k \<le> spointer k - 1" "spointer k - 1 < sbase k" "0 \<le> spointer k - 1"
    using True assms(1) by (auto simp: room_def stack_ok_def)
  show ?thesis
    using stack_push_ok(1-3) [OF assms(1) True, where v = v] room_pos [OF assms(1)] True assms(2) a
    by (auto simp: same_region_def outside_kept_def nat_le_iff nat_less_iff)
next
  case False
  then show ?thesis
    using assms stack_push_full [of k v m] room_pos [OF assms(1)] by (auto simp: same_region_def)
qed

lemma adapter_op_step:
  assumes "stack_ok m k" and "adapter_op c (m, k) = (r, m', k')"
  shows "stack_ok m' k' \<and> same_region k k' \<and> outside_kept k m m' \<and>
     list_op (region k) c (content m k) = (r, content m' k')"
proof (cases c)
  case (Push v)
  with assms adapter_op_push show ?thesis by blast
next
  case Pop
  then show ?thesis
    using assms stack_pop_empty [OF assms(1)] stack_pop_ok [OF assms(1)]
    by (cases "content m k") (auto simp: same_region_def)
next
  case Peek
  then show ?thesis
    using assms stack_pop_empty [OF assms(1)] stack_pop_ok [OF assms(1)]
    by (cases "content m k") (auto simp: same_region_def)
qed

lemma adapter_calls:
  assumes "stack_ok m k" and "call_all adapter_op cs (m, k) = (outs, m', k')"
  shows "stack_ok m' k' \<and> same_region k k' \<and> outside_kept k m m' \<and>
     call_all (list_op (region k)) cs (content m k) = (outs, content m' k')"
  using assms
proof (induction cs arbitrary: m k outs)
  case Nil
  then show ?case by (simp add: same_region_def)
next
  case (Cons c cs)
  obtain r m1 k1 where c: "adapter_op c (m, k) = (r, m1, k1)" by (metis prod_cases3)
  obtain outs1 where outs1: "call_all adapter_op cs (m1, k1) = (outs1, m', k')" "outs = r # outs1"
    using Cons.prems(2) c by (auto split: prod.splits)
  note one = adapter_op_step [OF Cons.prems(1) c]
  then have "stack_ok m1 k1" "region k1 = region k" by (simp_all add: same_region_def region_def)
  with Cons.IH [OF this(1) outs1(1)] one outs1(2) show ?case
    by (auto intro: outside_kept_trans same_region_trans)
qed

text \<open>
  C22. Whatever sequence of pushes, pops and peeks is called on a stack adapter, its answers, errors included,
  are those of a list bounded by the region's size; the pointer stays in the region, at most that many values
  are ever held, and no cell outside the region changes.
\<close>

theorem stack_stays_in_region:
  assumes "stack_ok m k" and "call_all adapter_op cs (m, k) = (outs, m', k')"
  shows "call_all (list_op (region k)) cs (content m k) = (outs, content m' k') \<and>
    sfloor k \<le> spointer k' \<and> spointer k' \<le> sbase k \<and> length (content m' k') \<le> region k \<and> outside_kept k m m'"
  using adapter_calls [OF assms] region_room [of m' k']
  by (auto simp: stack_ok_def same_region_def region_def)

text \<open>Two cells at addresses 1 and 2: the third push overflows, the last pop underflows.\<close>

definition small_calls :: "stack_op list" where
  "small_calls = [Push 7, Push 8, Push 9, Peek, Pop, Pop, Pop]"

theorem stack_stays_in_region_witness:
  "call_all adapter_op small_calls ([5, 0, 0, 6], stack_new 3 2) =
     ([Inr 7, Inr 8, Inl overflow, Inr 8, Inr 8, Inr 7, Inl underflow], [5, 8, 7, 6], stack_new 3 2) \<and>
   outside_kept (stack_new 3 2) [5, 0, 0, 6] [5, 8, 7, 6]"
proof -
  have ok: "stack_ok [5, 0, 0, 6] (stack_new 3 2)" by (simp add: stack_ok_def stack_new_def)
  have r: "call_all adapter_op small_calls ([5, 0, 0, 6], stack_new 3 2) =
     ([Inr 7, Inr 8, Inl overflow, Inr 8, Inr 8, Inr 7, Inl underflow], [5, 8, 7, 6], stack_new 3 2)"
    by (simp add: small_calls_def stack_new_def stack_push_def stack_pop_def stack_peek_def memory_write_def memory_read_def
        py_index_def)
  from stack_stays_in_region [OF ok r] r show ?thesis by simp
qed

end
