(* ===== verification/Executioner.thy ===== *)
theory Executioner
  imports Forth
begin

section \<open>The prototype of the Forth service\<close>

text \<open>
  \<^verbatim>\<open>docs/prototypes/assembler-interpreter-2.py\<close>, \<^verbatim>\<open>-3.py\<close> and \<^verbatim>\<open>-4.py\<close>: the \<^verbatim>\<open>ForthExecutioner\<close> the package's service was
  ported from. The second file has the stacks, the processor and the built-in words, the third the colon
  definitions as a fragment, the fourth all of it; what they share is the same text. The stacks check no bounds and both start at the
  end of one memory. Python's list indexing is that of \<^verbatim>\<open>Memory\<close>. Words carry the tags of the service's words, so that the
  dictionaries can be compared; what a tag runs is defined here.
\<close>

subsection \<open>Stack and processor\<close>

definition CELL :: int where [simp]: "CELL = 1"
definition PROTO_MEMORY_SIZE :: nat where [simp]: "PROTO_MEMORY_SIZE = 1024"

text \<open>\<^verbatim>\<open>class Stack\<close>: the memory and the pointer \<^verbatim>\<open>sp\<close>.\<close>

definition bare_push :: "int \<Rightarrow> (error, memory \<times> int, unit) exec" where
  "bare_push v ms =
     (let (m, sp) = ms; sp' = sp - CELL in
      case memory_write m sp' v of Inl e \<Rightarrow> (Inl e, (m, sp')) | Inr m' \<Rightarrow> (Inr (), (m', sp')))"

definition bare_pop :: "(error, memory \<times> int, int) exec" where
  "bare_pop ms =
     (let (m, sp) = ms in
      case memory_read m sp of Inl e \<Rightarrow> (Inl e, (m, sp)) | Inr v \<Rightarrow> (Inr v, (m, sp + CELL)))"

definition bare_peek :: "(error, memory \<times> int, int) exec" where
  "bare_peek ms = (let (m, sp) = ms in (memory_read m sp, ms))"

text \<open>
  \<^verbatim>\<open>class CPU\<close>. Its integer attributes, which \<^verbatim>\<open>getattr\<close> and \<^verbatim>\<open>setattr\<close> reach by name, are a map; names of the other
  attributes and of the methods are never passed as registers.
\<close>

record cpu =
  pmem :: memory
  attrs :: "string \<rightharpoonup> int"
  data_sp :: int
  return_sp :: int
  cpu_halted :: bool

datatype proto_word = Tagged builtin | Defined string

record executioner = cpu +
  pdict :: "string \<rightharpoonup> proto_word"
  pcolon :: "string \<rightharpoonup> string list"

type_synonym 'a proto = "(error, executioner, 'a) exec"

definition cpu_new :: executioner where
  "cpu_new = \<lparr>pmem = replicate PROTO_MEMORY_SIZE 0,
     attrs = [''ip'' \<mapsto> 0, ''w'' \<mapsto> 0, ''dsp'' \<mapsto> int PROTO_MEMORY_SIZE, ''rsp'' \<mapsto> int PROTO_MEMORY_SIZE],
     data_sp = int PROTO_MEMORY_SIZE, return_sp = int PROTO_MEMORY_SIZE, cpu_halted = False,
     pdict = Map.empty, pcolon = Map.empty\<rparr>"

definition data_push :: "int \<Rightarrow> unit proto" where
  "data_push v s = (case bare_push v (pmem s, data_sp s) of (r, m, sp) \<Rightarrow> (r, s\<lparr>pmem := m, data_sp := sp\<rparr>))"

definition data_pop :: "int proto" where
  "data_pop s = (case bare_pop (pmem s, data_sp s) of (r, m, sp) \<Rightarrow> (r, s\<lparr>pmem := m, data_sp := sp\<rparr>))"

definition data_peek :: "int proto" where
  "data_peek s = (case bare_peek (pmem s, data_sp s) of (r, m, sp) \<Rightarrow> (r, s\<lparr>pmem := m, data_sp := sp\<rparr>))"

definition return_push :: "int \<Rightarrow> unit proto" where
  "return_push v s = (case bare_push v (pmem s, return_sp s) of (r, m, sp) \<Rightarrow> (r, s\<lparr>pmem := m, return_sp := sp\<rparr>))"

definition return_pop :: "int proto" where
  "return_pop s = (case bare_pop (pmem s, return_sp s) of (r, m, sp) \<Rightarrow> (r, s\<lparr>pmem := m, return_sp := sp\<rparr>))"

definition return_peek :: "int proto" where
  "return_peek s = (case bare_peek (pmem s, return_sp s) of (r, m, sp) \<Rightarrow> (r, s\<lparr>pmem := m, return_sp := sp\<rparr>))"

definition get_attr :: "string \<Rightarrow> int proto" where
  "get_attr r s = (case attrs s r of Some v \<Rightarrow> (Inr v, s) | None \<Rightarrow> (Inl (AttributeError r), s))"

definition set_attr :: "string \<Rightarrow> int \<Rightarrow> unit proto" where
  "set_attr r v = modify (\<lambda>s. s\<lparr>attrs := (attrs s)(r \<mapsto> v)\<rparr>)"

definition mem_get :: "int \<Rightarrow> int proto" where
  "mem_get a s = (memory_read (pmem s) a, s)"

definition mem_set :: "int \<Rightarrow> int \<Rightarrow> unit proto" where
  "mem_set a v s = (case memory_write (pmem s) a v of Inl e \<Rightarrow> (Inl e, s) | Inr m \<Rightarrow> (Inr (), s\<lparr>pmem := m\<rparr>))"

definition cpu_load :: "int \<Rightarrow> unit proto" where
  "cpu_load addr = chain (mem_get addr) (set_attr ''w'')"

definition cpu_store :: "int \<Rightarrow> int \<Rightarrow> unit proto" where
  "cpu_store addr v = mem_set addr v"

definition cpu_add :: "string \<Rightarrow> int \<Rightarrow> unit proto" where
  "cpu_add r imm = chain (get_attr r) (\<lambda>x. set_attr r (x + imm))"

definition cpu_jmp :: "int \<Rightarrow> unit proto" where
  "cpu_jmp addr = set_attr ''ip'' addr"

definition cpu_jz :: "string \<Rightarrow> int \<Rightarrow> unit proto" where
  "cpu_jz r off = chain (get_attr r) (\<lambda>x. if x = 0 then cpu_add ''ip'' off else pure ())"

definition cpu_push_d :: "string \<Rightarrow> unit proto" where
  "cpu_push_d r = chain (get_attr r) data_push"

definition cpu_pop_d :: "string \<Rightarrow> unit proto" where
  "cpu_pop_d r = chain data_pop (set_attr r)"

definition cpu_push_r :: "string \<Rightarrow> unit proto" where
  "cpu_push_r r = chain (get_attr r) return_push"

definition cpu_pop_r :: "string \<Rightarrow> unit proto" where
  "cpu_pop_r r = chain return_pop (set_attr r)"

definition cpu_halt :: "unit proto" where
  "cpu_halt = modify (\<lambda>s. s\<lparr>cpu_halted := True\<rparr>)"

subsection \<open>The words\<close>

definition exec_binop :: "(int \<Rightarrow> int \<Rightarrow> error + int) \<Rightarrow> unit proto" where
  "exec_binop f = chain data_pop (\<lambda>b. chain data_pop (\<lambda>a. chain (lift (f a b)) data_push))"

definition exec_swap :: "unit proto" where
  "exec_swap = chain data_pop (\<lambda>a. chain data_pop (\<lambda>b. chain (data_push a) (\<lambda>_. data_push b)))"

definition exec_over :: "unit proto" where
  "exec_over = chain data_pop (\<lambda>b. chain data_peek (\<lambda>a. chain (data_push b) (\<lambda>_. data_push a)))"

definition exec_rot :: "unit proto" where
  "exec_rot = chain data_pop (\<lambda>c. chain data_pop (\<lambda>b. chain data_pop (\<lambda>a.
     chain (data_push b) (\<lambda>_. chain (data_push c) (\<lambda>_. data_push a)))))"

definition exec_neg_rot :: "unit proto" where
  "exec_neg_rot = chain data_pop (\<lambda>c. chain data_pop (\<lambda>b. chain data_pop (\<lambda>a.
     chain (data_push c) (\<lambda>_. chain (data_push a) (\<lambda>_. data_push b)))))"

definition exec_nip :: "unit proto" where
  "exec_nip = chain data_pop (\<lambda>a. chain data_pop (\<lambda>_. data_push a))"

definition exec_tuck :: "unit proto" where
  "exec_tuck = chain data_pop (\<lambda>a. chain data_pop (\<lambda>b.
     chain (data_push a) (\<lambda>_. chain (data_push b) (\<lambda>_. data_push a))))"

definition exec_docol :: "int \<Rightarrow> unit proto" where
  "exec_docol addr = chain (cpu_push_r ''ip'') (\<lambda>_. set_attr ''ip'' addr)"

definition exec_exit :: "unit proto" where
  "exec_exit = cpu_pop_r ''ip''"

text \<open>The lambdas of \<^verbatim>\<open>build_minimal_dictionary\<close>, called with these arguments.\<close>

fun call_word :: "builtin \<Rightarrow> int list \<Rightarrow> unit proto" where
  "call_word Dup [] = chain data_peek data_push"
| "call_word Drop [] = chain data_pop (\<lambda>_. pure ())"
| "call_word Swap [] = exec_swap"
| "call_word Over [] = exec_over"
| "call_word Rot [] = exec_rot"
| "call_word NegRot [] = exec_neg_rot"
| "call_word Nip [] = exec_nip"
| "call_word Tuck [] = exec_tuck"
| "call_word (Binary f) [] = exec_binop f"
| "call_word (Unary f) [] = chain data_pop (\<lambda>x. data_push (f x))"
| "call_word FetchCell [] = chain data_pop (\<lambda>a. chain (mem_get a) data_push)"
| "call_word StoreCell [] = chain data_pop (\<lambda>a. chain data_pop (\<lambda>v. mem_set a v))"
| "call_word ToR [] = chain data_pop return_push"
| "call_word FromR [] = chain return_pop data_push"
| "call_word RFetch [] = chain return_peek data_push"
| "call_word Lit [n] = data_push n"
| "call_word Docol [addr] = exec_docol addr"
| "call_word Exit [] = exec_exit"
| "call_word NoOp [] = pure ()"
| "call_word Bye [] = cpu_halt"
| "call_word _ _ = raise TypeError"

definition proto_words :: "(string \<times> builtin) list" where
  "proto_words = [
     (''DUP'', Dup), (''DROP'', Drop), (''SWAP'', Swap), (''OVER'', Over), (''ROT'', Rot), (''-ROT'', NegRot),
     (''NIP'', Nip), (''TUCK'', Tuck),
     (''+'', Binary (always (+))), (''-'', Binary (always (-))), (''*'', Binary (always (*))),
     (''/'', Binary (nonzero (div))), (''MOD'', Binary (nonzero (mod))),
     (''NEGATE'', Unary uminus), (''ABS'', Unary abs), (''1+'', Unary (\<lambda>x. x + 1)), (''1-'', Unary (\<lambda>x. x - 1)),
     (''@'', FetchCell), (''!'', StoreCell), (''>R'', ToR), (''R>'', FromR), (''R@'', RFetch),
     (''='', Binary (always (\<lambda>a b. truth (a = b)))), (''<>'', Binary (always (\<lambda>a b. truth (a \<noteq> b)))),
     (''<'', Binary (always (\<lambda>a b. truth (a < b)))), (''>'', Binary (always (\<lambda>a b. truth (a > b)))),
     (''0='', Unary (\<lambda>x. truth (x = 0))), (''0<'', Unary (\<lambda>x. truth (x < 0))),
     (''AND'', Binary (always (AND))), (''OR'', Binary (always (OR))), (''INVERT'', Unary NOT),
     (''LIT'', Lit), (''DOCOL'', Docol), (''EXIT'', Exit),
     (''IF'', NoOp), (''ELSE'', NoOp), (''THEN'', NoOp), (''BEGIN'', NoOp), (''UNTIL'', NoOp), (''WHILE'', NoOp),
     (''REPEAT'', NoOp), (''DO'', NoOp), (''LOOP'', NoOp), (''+LOOP'', NoOp), (''BYE'', Bye)]"

definition executioner_new :: executioner where
  "executioner_new = cpu_new\<lparr>pdict := map_of (map (\<lambda>(x, b). (x, Tagged b)) proto_words)\<rparr>"

subsection \<open>Colon definitions\<close>

definition define_colon :: "string \<Rightarrow> string list \<Rightarrow> executioner \<Rightarrow> executioner" where
  "define_colon name code s = s\<lparr>pcolon := (pcolon s)(name \<mapsto> code), pdict := (pdict s)(name \<mapsto> Defined name)\<rparr>"

text \<open>The words of a colon definition in order; an unknown one raises \<^verbatim>\<open>ValueError\<close>. The first argument bounds the nesting.\<close>

fun call_words :: "(proto_word \<Rightarrow> unit proto) \<Rightarrow> string list \<Rightarrow> unit proto" where
  "call_words call [] = pure ()"
| "call_words call (x # xs) =
     chain (\<lambda>s. case pdict s x of None \<Rightarrow> (Inl ValueError, s) | Some w \<Rightarrow> call w s) (\<lambda>_. call_words call xs)"

fun execute_colon :: "nat \<Rightarrow> proto_word \<Rightarrow> unit proto" where
  "execute_colon 0 w = raise RecursionError"
| "execute_colon (Suc n) (Tagged b) = call_word b []"
| "execute_colon (Suc n) (Defined name) =
     (\<lambda>s. case pcolon s name of None \<Rightarrow> (Inl (KeyError name), s) | Some ws \<Rightarrow> call_words (execute_colon n) ws s)"

definition build_standard :: "executioner \<Rightarrow> executioner" where
  "build_standard = fold (\<lambda>(name, code). define_colon name code)
     [(''IF_THEN'', [''0BRANCH'']), (''IF_ELSE_THEN'', [''0BRANCH'', ''BRANCH'']), (''BEGIN_UNTIL'', [''BEGIN'', ''UNTIL'']),
      (''WHILE_REPEAT'', [''WHILE'', ''REPEAT'']), (''DO_LOOP'', [''DO'', ''LOOP'']), (''DO_PLUS_LOOP'', [''DO'', ''+LOOP'']),
      ('';'', [''EXIT''])]"

subsection \<open>The demos\<close>

text \<open>\<^verbatim>\<open>forth.dict[name]()\<close>, and what the two files compute before they print.\<close>

definition call_entry :: "nat \<Rightarrow> string \<Rightarrow> unit proto" where
  "call_entry n name s = (case pdict s name of None \<Rightarrow> (Inl (KeyError name), s) | Some w \<Rightarrow> execute_colon n w s)"

definition demo_double :: "nat \<Rightarrow> (error + int) \<times> executioner" where
  "demo_double n = chain (data_push 3) (\<lambda>_. chain (call_entry n ''DUP'') (\<lambda>_. chain (call_entry n ''+'') (\<lambda>_. data_pop))) executioner_new"

definition demo_square :: "nat \<Rightarrow> (error + int) \<times> executioner" where
  "demo_square n = chain (data_push 3) (\<lambda>_. chain (call_entry n ''SQUARE'') (\<lambda>_. data_pop))
     (define_colon ''SQUARE'' [''DUP'', ''*''] (build_standard executioner_new))"

lemma executioner_new_sel:
  "pmem executioner_new = replicate 1024 0" "data_sp executioner_new = 1024"
  "pdict executioner_new ''DUP'' = Some (Tagged Dup)" "pdict executioner_new ''+'' = Some (Tagged (Binary (always (+))))"
  "pdict executioner_new ''*'' = Some (Tagged (Binary (always (*))))"
  by (simp_all add: executioner_new_def cpu_new_def proto_words_def)

lemmas proto_eval = chain_def call_entry_def data_push_def data_pop_def data_peek_def bare_push_def bare_pop_def bare_peek_def
  exec_binop_def memory_write_def memory_read_def always_def

lemma demo_results: "fst (demo_double 1) = Inr 6" "fst (demo_square 2) = Inr 9"
proof -
  show "fst (demo_double 1) = Inr 6"
    by (simp add: demo_double_def proto_eval executioner_new_sel)
  have std: "pmem (build_standard e) = pmem e" "data_sp (build_standard e) = data_sp e"
    "x \<in> {''DUP'', ''*''} \<Longrightarrow> pdict (build_standard e) x = pdict e x" for e x
    by (auto simp: build_standard_def define_colon_def)
  show "fst (demo_square 2) = Inr 9"
    by (simp add: demo_square_def proto_eval executioner_new_sel std define_colon_def numeral_2_eq_2)
qed

subsection \<open>The data stack while it is in bounds\<close>

definition proto_data :: "executioner \<Rightarrow> int list" where
  "proto_data s = drop (nat (data_sp s)) (pmem s)"

definition proto_good :: "executioner \<Rightarrow> bool" where
  "proto_good s \<longleftrightarrow> 0 \<le> data_sp s \<and> data_sp s \<le> int (length (pmem s))"

definition proto_same :: "executioner \<Rightarrow> executioner \<Rightarrow> bool" where
  "proto_same s t \<longleftrightarrow> length (pmem t) = length (pmem s) \<and> attrs t = attrs s \<and> return_sp t = return_sp s \<and>
     cpu_halted t = cpu_halted s \<and> pdict t = pdict s \<and> pcolon t = pcolon s"

lemma proto_data_Cons:
  assumes "proto_good s" and "proto_data s = x # xs"
  shows "0 \<le> data_sp s" "data_sp s < int (length (pmem s))" "x = pmem s ! nat (data_sp s)" "xs = drop (nat (data_sp s + 1)) (pmem s)"
proof -
  show b: "0 \<le> data_sp s" "data_sp s < int (length (pmem s))"
    using assms by (auto simp: proto_good_def proto_data_def dest: arg_cong [of _ _ length])
  then have "nat (data_sp s) < length (pmem s)" "nat (data_sp s + 1) = Suc (nat (data_sp s))" by auto
  with assms(2) Cons_nth_drop_Suc [of "nat (data_sp s)" "pmem s"]
  show "x = pmem s ! nat (data_sp s)" "xs = drop (nat (data_sp s + 1)) (pmem s)"
    by (simp_all add: proto_data_def)
qed

interpretation bare_stack: lifo_stack data_push data_pop data_peek proto_good proto_data "\<lambda>s. length (pmem s)" proto_same
proof unfold_locales
  fix s :: executioner and v x xs
  assume good: "proto_good s"
  show "\<exists>s'. data_push v s = (Inr (), s') \<and> proto_good s' \<and> proto_data s' = v # proto_data s \<and> proto_same s s'"
    if "length (proto_data s) < length (pmem s)"
  proof -
    have sp: "0 < data_sp s" "data_sp s \<le> int (length (pmem s))"
      using good that by (auto simp: proto_good_def proto_data_def)
    then have i: "nat (data_sp s - 1) < length (pmem s)" "nat (data_sp s) = Suc (nat (data_sp s - 1))" by linarith+
    have "drop (nat (data_sp s - 1)) ((pmem s)[nat (data_sp s - 1) := v]) = v # drop (nat (data_sp s)) (pmem s)"
      using i Cons_nth_drop_Suc [of "nat (data_sp s - 1)" "(pmem s)[nat (data_sp s - 1) := v]"] by simp
    with sp show ?thesis
      by (simp add: data_push_def bare_push_def Let_def proto_good_def proto_data_def proto_same_def)
  qed
  show "\<exists>s'. data_pop s = (Inr x, s') \<and> proto_good s' \<and> proto_data s' = xs \<and> proto_same s s'" if "proto_data s = x # xs"
    using proto_data_Cons [OF good that]
    by (simp add: data_pop_def bare_pop_def proto_good_def proto_data_def proto_same_def)
  show "data_peek s = (Inr x, s)" if "proto_data s = x # xs"
    using proto_data_Cons [OF good that] by (simp add: data_peek_def bare_peek_def)
qed (auto simp: proto_same_def)

subsection \<open>What succeeds on a bounded list succeeds on any stack with room\<close>

definition follows ::
  "('s \<Rightarrow> bool) \<Rightarrow> ('s \<Rightarrow> int list) \<Rightarrow> ('s \<Rightarrow> nat) \<Rightarrow> ('s \<Rightarrow> 's \<Rightarrow> bool) \<Rightarrow>
   (error, 's, 'a) exec \<Rightarrow> (nat \<Rightarrow> (error, int list, 'a) exec) \<Rightarrow> bool"
where
  "follows good look cap same m lm \<longleftrightarrow>
     (\<forall>s c x ys. good s \<longrightarrow> c \<le> cap s \<longrightarrow> lm c (look s) = (Inr x, ys) \<longrightarrow> yields good look same m s x ys)"

context lifo_stack
begin

lemma follows_pure: "follows good view cap same (pure x) (\<lambda>_. pure x)"
  by (auto simp: follows_def intro: yields_pure)

lemma follows_lift: "follows good view cap same (lift r) (\<lambda>_. lift r)"
  by (auto simp: follows_def yields_def same_refl)

lemma follows_push: "follows good view cap same (push v) (\<lambda>c. list_push c v)"
  by (auto simp: follows_def list_push_def intro!: yields_push split: if_splits)

lemma follows_pop: "follows good view cap same pop (\<lambda>_. list_pop)"
  by (auto simp: follows_def list_pop_def intro!: yields_pop_last split: list.splits)

lemma follows_peek: "follows good view cap same peek (\<lambda>_. list_peek)"
  by (auto simp: follows_def list_peek_def yields_def peek_ok same_refl split: list.splits)

lemma follows_chain:
  assumes "follows good view cap same m lm" and "\<And>x. follows good view cap same (f x) (\<lambda>c. lf x c)"
  shows "follows good view cap same (chain m f) (\<lambda>c. chain (lm c) (\<lambda>x. lf x c))"
  unfolding follows_def
proof (intro allI impI)
  fix s c x ys
  assume s: "good s" "c \<le> cap s" "chain (lm c) (\<lambda>x. lf x c) (view s) = (Inr x, ys)"
  then obtain z zs where z: "lm c (view s) = (Inr z, zs)" "lf z c zs = (Inr x, ys)" by (auto simp: chain_eq_Inr)
  from assms(1) s z(1) obtain t where t: "m s = (Inr z, t)" "good t" "view t = zs" "same s t"
    unfolding follows_def yields_def by blast
  have "yields good view same (f z) t x ys"
    using assms(2) [of z] t z(2) s(2) same_cap [OF t(4)] by (simp add: follows_def)
  with t(1,4) show "yields good view same (chain m f) s x ys" by (rule yields_chain)
qed

lemma word_follows:
  assumes "data_word push pop peek b = Some m"
  shows "follows good view cap same m (\<lambda>c. the (data_word (list_push c) list_pop list_peek b))"
proof -
  note ports = follows_chain follows_push follows_pop follows_peek follows_pure follows_lift
  show ?thesis
    using assms by (cases b) (auto simp: data_word_defs intro!: ports)
qed

end

subsection \<open>The port\<close>

text \<open>
  The built-in words that use the data stack only, and two words, one of the service and one of the prototype, that
  are the same built-in of this kind or have the same definition over the names \<open>D\<close>.
\<close>

fun on_data_stack :: "builtin \<Rightarrow> bool" where
  "on_data_stack FetchCell = False"
| "on_data_stack StoreCell = False"
| "on_data_stack ToR = False"
| "on_data_stack FromR = False"
| "on_data_stack RFetch = False"
| "on_data_stack Lit = False"
| "on_data_stack Docol = False"
| "on_data_stack Exit = False"
| "on_data_stack Bye = False"
| "on_data_stack _ = True"

fun same_word :: "string list \<Rightarrow> forth \<Rightarrow> executioner \<Rightarrow> word \<Rightarrow> proto_word \<Rightarrow> bool" where
  "same_word D s p (Builtin b) (Tagged b') = (b' = b \<and> on_data_stack b)"
| "same_word D s p (Colon x) (Defined y) =
     (x = y \<and> pcolon p x = colon_defs s x \<and> list_all (\<lambda>z. z \<in> set D) (case colon_defs s x of Some ws \<Rightarrow> ws | None \<Rightarrow> []))"
| "same_word D s p _ _ = False"

definition same_words :: "string list \<Rightarrow> forth \<Rightarrow> executioner \<Rightarrow> bool" where
  "same_words D s p \<longleftrightarrow> list_all (\<lambda>x. case (dictionary s x, pdict p x) of
     (Some w, Some w') \<Rightarrow> same_word D s p w w' | (None, _) \<Rightarrow> True | _ \<Rightarrow> False) D"

text \<open>The service and the prototype hold the same data stack, with at least as much room in the prototype.\<close>

definition same_data :: "forth \<Rightarrow> executioner \<Rightarrow> bool" where
  "same_data s p \<longleftrightarrow> layout_ok s \<and> proto_good p \<and> proto_data p = ds s \<and> region (dstk s) \<le> length (pmem p)"

lemma same_word_kept:
  "service_kept s t \<Longrightarrow> proto_same p q \<Longrightarrow> same_word D t q w w' = same_word D s p w w'"
  by (cases "(D, t, q, w, w')" rule: same_word.cases) (auto simp: service_kept_def proto_same_def)

lemma same_words_kept: "service_kept s t \<Longrightarrow> proto_same p q \<Longrightarrow> same_words D t q = same_words D s p"
proof -
  assume k: "service_kept s t" "proto_same p q"
  then have "dictionary t = dictionary s" "pdict q = pdict p" by (simp_all add: service_kept_def proto_same_def)
  moreover have "same_word D t q = same_word D s p" by (intro ext same_word_kept [OF k])
  ultimately show ?thesis by (simp add: same_words_def cong: option.case_cong)
qed

text \<open>\<open>p\<close> answers a successful computation of the service: it succeeds too and the data stacks stay the same.\<close>

definition answers :: "forth \<Rightarrow> executioner \<Rightarrow> (error + unit) \<times> executioner \<Rightarrow> bool" where
  "answers t p x \<longleftrightarrow> fst x = Inr () \<and> same_data t (snd x) \<and> proto_same p (snd x)"

lemma data_word_tagged:
  "data_word data_push data_pop data_peek b = Some m \<Longrightarrow> call_word b [] = m"
  by (cases b) (simp_all add: data_word_defs exec_binop_def exec_swap_def exec_over_def exec_rot_def exec_neg_rot_def
      exec_nip_def exec_tuck_def)

lemma on_data_stack_word: "on_data_stack b \<Longrightarrow> b = NoOp \<or> (\<exists>m. data_word push pop peek b = Some m)"
  by (cases b) simp_all

lemma builtin_answers:
  assumes "same_data s p" and "on_data_stack b" and "call_builtin b [] s = (Inr (), t)"
  shows "answers t p (call_word b [] p) \<and> service_kept s t"
proof (cases "b = NoOp")
  case True
  then show ?thesis using assms(1,3) by (auto simp: answers_def proto_same_def service_kept_refl same_data_def)
next
  case False
  obtain m :: "unit service" and m' where m: "data_word push_d pop_d peek_d b = Some m" "data_word data_push data_pop data_peek b = Some m'"
    using on_data_stack_word [OF assms(2)] False by metis
  let ?l = "\<lambda>c. the (data_word (list_push c) list_pop list_peek b)"
  have good: "layout_ok s" "proto_good p" "proto_data p = ds s" "region (dstk s) \<le> length (pmem p)"
    using assms(1) by (simp_all add: same_data_def)
  have ms: "m s = (Inr (), t)" using assms(3) data_word_call [OF m(1)] m(1) by simp
  with data_stack.word_refines [OF m(1)] good(1) have l: "?l (region (dstk s)) (ds s) = (Inr (), ds t)" "layout_ok t" "same_but_d s t"
    by (auto simp: refines_def prod_eq_iff dest!: spec [of _ s])
  from bare_stack.word_follows [OF m(2)] good l(1)
  obtain q where q: "m' p = (Inr (), q)" "proto_good q" "proto_data q = ds t" "proto_same p q"
    unfolding follows_def yields_def by metis
  have "service_kept s t" using same_but_d_service l(2,3) by blast
  with q l(2) good(4) data_word_tagged [OF m(2)] show ?thesis
    by (simp add: answers_def same_data_def service_kept_def proto_same_def)
qed

lemma words_answer:
  assumes "\<And>s t p w w'. same_data s p \<Longrightarrow> same_words D s p \<Longrightarrow> same_word D s p w w' \<Longrightarrow> call w s = (Inr (), t) \<Longrightarrow>
      answers t p (call' w' p) \<and> service_kept s t"
    and "same_data s p" and "same_words D s p" and "set ws \<subseteq> set D" and "run_words call ws s = (Inr (), t)"
  shows "answers t p (call_words call' ws p) \<and> service_kept s t"
  using assms(2-5)
proof (induction ws arbitrary: s p)
  case Nil
  then show ?case by (auto simp: answers_def proto_same_def same_data_def service_kept_refl)
next
  case (Cons x xs)
  then obtain w s1 where w: "dictionary s x = Some w" "call w s = (Inr (), s1)" "run_words call xs s1 = (Inr (), t)"
    by (auto simp: chain_eq_Inr split: option.splits)
  moreover from Cons.prems(2,3) w(1) obtain w' where w': "pdict p x = Some w'" "same_word D s p w w'"
    by (auto simp: same_words_def list_all_iff split: option.splits)
  ultimately have one: "answers s1 p (call' w' p)" "service_kept s s1" using assms(1) Cons.prems by blast+
  then obtain p1 where p1: "call' w' p = (Inr (), p1)" "same_data s1 p1" "proto_same p p1"
    by (auto simp: answers_def prod_eq_iff)
  have "same_words D s1 p1" using Cons.prems(2) one(2) p1(3) by (simp add: same_words_kept)
  with Cons.IH [of s1 p1] Cons.prems(3) p1(2) w(3) have "answers t p1 (call_words call' xs p1)" "service_kept s1 t" by simp_all
  with w'(1) p1 one(2) service_kept_trans [of s s1 t] show ?case by (auto simp: answers_def proto_same_def)
qed

lemma execute_answers:
  "same_data s p \<Longrightarrow> same_words D s p \<Longrightarrow> same_word D s p w w' \<Longrightarrow> execute n w s = (Inr (), t) \<Longrightarrow>
     answers t p (execute_colon n w' p) \<and> service_kept s t"
proof (induction n arbitrary: s p w w' t)
  case 0
  then show ?case by simp
next
  case (Suc n)
  show ?case
  proof (cases w)
    case (Builtin b)
    with Suc.prems(3) have "w' = Tagged b" "on_data_stack b" by (cases w'; simp)+
    with builtin_answers [OF Suc.prems(1), of b t] Suc.prems(4) Builtin show ?thesis by simp
  next
    case (Colon x)
    with Suc.prems(3) have w': "w' = Defined x" by (cases w') simp_all
    with Suc.prems(3,4) Colon obtain ws where ws: "colon_defs s x = Some ws" "pcolon p x = Some ws" "set ws \<subseteq> set D"
        "run_words (execute n) ws s = (Inr (), t)"
      by (auto simp: list_all_iff split: option.splits)
    from words_answer [OF Suc.IH Suc.prems(1,2) ws(3,4)] ws(2) w' show ?thesis by simp
  qed
qed

subsection \<open>The two dictionaries\<close>

text \<open>The words of the data stack and the control placeholders: both dictionaries bind each to the same built-in.\<close>

definition DATA_WORDS :: "string list" where
  "DATA_WORDS = map fst service_effects @ map fst service_divisions @ STRUCTURE_WORDS"

lemma dictionaries_agree:
  "list_all (\<lambda>x. case map_of minimal_dictionary x of None \<Rightarrow> False | Some b \<Rightarrow> on_data_stack b \<and> map_of proto_words x = Some b) DATA_WORDS"
  by (simp add: DATA_WORDS_def service_effects_def service_divisions_def STRUCTURE_WORDS_def minimal_dictionary_def proto_words_def)

definition define_colons :: "(string \<times> string list) list \<Rightarrow> executioner \<Rightarrow> executioner" where
  "define_colons = fold (\<lambda>(x, code). define_colon x code)"

lemma define_colons_sel:
  "pdict (define_colons cs p) x = (if x \<in> fst ` set cs then Some (Defined x) else pdict p x)"
  "pcolon (define_colons cs p) x = (case map_of (rev cs) x of None \<Rightarrow> pcolon p x | Some code \<Rightarrow> Some code)"
proof -
  show "pdict (define_colons cs p) x = (if x \<in> fst ` set cs then Some (Defined x) else pdict p x)"
    "pcolon (define_colons cs p) x = (case map_of (rev cs) x of None \<Rightarrow> pcolon p x | Some code \<Rightarrow> Some code)"
    by (induction cs arbitrary: p) (auto simp: define_colons_def define_colon_def map_add_def split: option.splits)
qed

text \<open>Through the definitions \<open>cs\<close>, the names \<open>D\<close> use each other and words of the data stack only.\<close>

definition closed_over :: "(string \<times> string list) list \<Rightarrow> string list \<Rightarrow> bool" where
  "closed_over cs D \<longleftrightarrow> list_all (\<lambda>x. case map_of (rev cs) x of
     Some code \<Rightarrow> list_all (\<lambda>z. z \<in> set D) code | None \<Rightarrow> x \<in> set DATA_WORDS) D"

lemma closed_same_words:
  assumes "layout_ok e" and "closed_over cs D" and "pdict p = pdict (define_colons cs executioner_new)"
    and "pcolon p = pcolon (define_colons cs executioner_new)"
  shows "same_words D (define_all cs (forth_new e)) p"
    and "x \<in> set D \<Longrightarrow> \<exists>w. dictionary (define_all cs (forth_new e)) x = Some w"
proof -
  let ?s = "define_all cs (forth_new e)"
  have word: "\<exists>w w'. dictionary ?s x = Some w \<and> pdict p x = Some w' \<and> same_word D ?s p w w'" if "x \<in> set D" for x
  proof (cases "map_of (rev cs) x")
    case None
    then have x: "x \<notin> fst ` set cs" by (simp add: map_of_eq_None_iff)
    from None assms(2) that have "x \<in> set DATA_WORDS" by (auto simp: closed_over_def list_all_iff)
    with dictionaries_agree obtain b where "map_of minimal_dictionary x = Some b" "on_data_stack b" "map_of proto_words x = Some b"
      by (auto simp: list_all_iff split: option.splits)
    with x show ?thesis
      by (simp add: define_all_sel forth_new_ok(5) [OF assms(1)] assms(3) define_colons_sel executioner_new_def map_of_map comp_def)
  next
    case (Some code)
    from map_of_SomeD [OF this] have "x \<in> fst ` set cs" by (force intro: rev_image_eqI)
    moreover have "list_all (\<lambda>z. z \<in> set D) code" using Some assms(2) that by (auto simp: closed_over_def list_all_iff)
    ultimately show ?thesis using Some by (simp add: define_all_sel assms(3,4) define_colons_sel)
  qed
  then show "same_words D ?s p" by (fastforce simp: same_words_def list_all_iff)
  show "x \<in> set D \<Longrightarrow> \<exists>w. dictionary ?s x = Some w" using word by blast
qed

text \<open>
  C36. The service is a faithful port of the prototype: give both the same colon definitions, added in order to the words they start
  with, and the same data stack. Whenever the service executes a name and succeeds, at any recursion limit, the prototype succeeds
  on that name and ends with the same data stack. The names are those that, through the definitions, use only each other, the built-in
  words of the data stack and the control placeholders; the prototype has at least as much room.
\<close>

theorem service_ports_prototype:
  assumes "layout_ok e" and "closed_over cs D" and "x \<in> set D"
    and "pdict p = pdict (define_colons cs executioner_new)" and "pcolon p = pcolon (define_colons cs executioner_new)"
    and "proto_good p" and "proto_data p = ds e" and "region (dstk e) \<le> length (pmem p)"
  shows "\<exists>w w'. dictionary (define_all cs (forth_new e)) x = Some w \<and> pdict p x = Some w' \<and>
    (\<forall>n t. execute n w (define_all cs (forth_new e)) = (Inr (), t) \<longrightarrow>
       (\<exists>q. execute_colon n w' p = (Inr (), q) \<and> proto_data q = ds t))"
proof -
  let ?s = "define_all cs (forth_new e)"
  note words = closed_same_words [OF assms(1,2,4,5)]
  obtain w where w: "dictionary ?s x = Some w" using words(2) assms(3) by blast
  with words(1) assms(3) obtain w' where w': "pdict p x = Some w'" "same_word D ?s p w w'"
    by (auto simp: same_words_def list_all_iff split: option.splits)
  have "same_data ?s p" using assms(1,6-8) by (simp add: same_data_def define_all_sel forth_new_ok define_all_region)
  from execute_answers [OF this words(1) w'(2)] have "\<exists>q. execute_colon n w' p = (Inr (), q) \<and> proto_data q = ds t"
    if "execute n w ?s = (Inr (), t)" for n t
    using that by (fastforce simp: answers_def same_data_def prod_eq_iff)
  with w w'(1) show ?thesis by blast
qed

text \<open>\<^verbatim>\<open>: SQUARE DUP * ;\<close> in both, run on 3.\<close>

definition square_service :: forth where
  "square_service = add_colon_def ''SQUARE'' [''DUP'', ''*''] (forth_new machine_new)"

definition square_prototype :: executioner where
  "square_prototype = define_colon ''SQUARE'' [''DUP'', ''*''] executioner_new"

lemma square_service_ok:
  "layout_ok square_service" "ds square_service = []" "region (dstk square_service) = 1024"
  "dictionary square_service ''SQUARE'' = Some (Colon ''SQUARE'')" "colon_defs square_service ''SQUARE'' = Some [''DUP'', ''*'']"
  "dictionary square_service ''DUP'' = Some (Builtin Dup)" "dictionary square_service ''*'' = Some (Builtin (Binary (always (*))))"
  using forth_new_ok [OF machine_new_sel(1)] machine_new_sel
  by (simp_all add: square_service_def add_colon_def_def layout_ok_def ds_def minimal_dictionary_def)

lemma does_effect_ok:
  assumes "does_effect n f s x" and "list_effect n f (region (dstk s)) (ds s) = Inr d"
  shows "\<exists>t. x = (Inr (), t) \<and> layout_ok t \<and> ds t = d \<and> service_kept s t"
  using assms same_but_d_service [of "snd x" s] by (cases x) (auto simp: does_effect_def)

lemma square_service_runs:
  assumes "layout_ok s" and "ds s = [3]" and "region (dstk s) = 1024" and "dictionary s = dictionary square_service"
    and "colon_defs s = colon_defs square_service"
  shows "\<exists>t. execute 2 (Colon ''SQUARE'') s = (Inr (), t) \<and> ds t = [9]"
proof -
  obtain t where t: "call_builtin Dup [] s = (Inr (), t)" "layout_ok t" "ds t = [3, 3]" "service_kept s t"
    using does_effect_ok [OF service_words(1) [OF assms(1)]] assms(2,3) by (auto simp: list_effect_def simp del: call_builtin.simps)
  obtain u where u: "call_builtin (Binary (always (*))) [] t = (Inr (), u)" "ds u = [9]"
    using does_effect_ok [OF service_words(9) [OF t(2), of "(*)"]] assms(3) t(3,4)
    by (auto simp: list_effect_def service_kept_def simp del: call_builtin.simps)
  have "dictionary t = dictionary square_service" using t(4) assms(4) by (simp add: service_kept_def)
  with t(1) u assms(4,5) show ?thesis
    by (simp add: eval_nat_numeral square_service_ok del: call_builtin.simps)
qed

theorem service_ports_prototype_witness:
  "\<exists>p q. data_push 3 square_prototype = (Inr (), p) \<and> execute_colon 2 (Defined ''SQUARE'') p = (Inr (), q) \<and> proto_data q = [9]"
proof -
  let ?cs = "[(''SQUARE'', [''DUP'', ''*''])]" and ?D = "[''SQUARE'', ''DUP'', ''*'']"
  obtain e :: emulator where e: "layout_ok e" "ds e = [3]" "same_but_d machine_new e"
    using data_stack.push_ok [of machine_new 3] by auto
  have room: "region (dstk e) = 1024" using data_stack.same_cap [OF e(3)] by simp
  let ?s = "define_all ?cs (forth_new e)"
  have s: "layout_ok ?s" "ds ?s = [3]" "region (dstk ?s) = 1024" "dictionary ?s = dictionary square_service"
      "colon_defs ?s = colon_defs square_service"
    using e room forth_new_ok [OF e(1)] forth_new_ok [OF machine_new_sel(1)]
    by (simp_all add: define_all_sel define_all_region)
      (simp_all add: define_all_def square_service_def add_colon_def_def forth_new_def build_minimal_dictionary_def)
  have new: "proto_good square_prototype" "proto_data square_prototype = []" "length (pmem square_prototype) = 1024"
    by (simp_all add: square_prototype_def define_colon_def executioner_new_def cpu_new_def proto_good_def proto_data_def)
  obtain p where p: "data_push 3 square_prototype = (Inr (), p)" "proto_good p" "proto_data p = [3]" "proto_same square_prototype p"
    using bare_stack.push_ok [of square_prototype 3] new by auto
  then have defs: "pdict p = pdict (define_colons ?cs executioner_new)" "pcolon p = pcolon (define_colons ?cs executioner_new)"
      "length (pmem p) = 1024"
    using new by (simp_all add: proto_same_def square_prototype_def define_colons_def)
  have closed: "closed_over ?cs ?D" by (simp add: closed_over_def DATA_WORDS_def service_effects_def)
  obtain t where t: "execute 2 (Colon ''SQUARE'') ?s = (Inr (), t)" "ds t = [9]" using square_service_runs [OF s] by blast
  have names: "dictionary ?s ''SQUARE'' = Some (Colon ''SQUARE'')" "pdict p ''SQUARE'' = Some (Defined ''SQUARE'')"
    using defs(1) by (simp_all add: define_all_sel define_colons_sel)
  from service_ports_prototype [OF e(1) closed _ defs(1,2) p(2), of "''SQUARE''"] p(3) e(2) defs(3) room names
  have "\<forall>n t. execute n (Colon ''SQUARE'') ?s = (Inr (), t) \<longrightarrow>
      (\<exists>q. execute_colon n (Defined ''SQUARE'') p = (Inr (), q) \<and> proto_data q = ds t)"
    by simp
  with t obtain q where "execute_colon 2 (Defined ''SQUARE'') p = (Inr (), q)" "proto_data q = [9]" by metis
  with p(1) show ?thesis by blast
qed

subsection \<open>Two stacks in one place\<close>

lemma last_cell_both:
  assumes "i < length m"
  shows "drop i ((m[length m - 1 := m ! i])[i := m ! i]) = butlast (drop i m) @ [m ! i]"
  using assms by (intro nth_equalityI) (auto simp: nth_append nth_butlast nth_list_update)

lemma service_return_roundtrip:
  assumes "layout_ok e" and "ds e = v # ys" and "length (rs e) < region (rstk e)"
  shows "\<exists>u. chain (call_builtin ToR []) (\<lambda>_. call_builtin FromR []) e = (Inr (), u) \<and> ds u = ds e \<and> rs u = rs e"
proof -
  obtain a where a: "pop_d e = (Inr v, a)" "layout_ok a" "ds a = ys" "same_but_d e a"
    using data_stack.pop_ok [OF assms(1,2)] by blast
  obtain b where b: "push_r v a = (Inr (), b)" "layout_ok b" "rs b = v # rs a" "same_but_r a b"
    using return_stack.push_ok [OF a(2), of v] a(4) assms(3) by (auto simp: same_but_d_def)
  obtain c where c: "pop_r b = (Inr v, c)" "layout_ok c" "rs c = rs a" "same_but_r b c"
    using return_stack.pop_ok [OF b(2,3)] by blast
  note stacks_in_region(1) [OF assms(1)]
  moreover have "ds c = ys" "region (dstk c) = region (dstk e)"
    using a(3,4) b(4) c(4) by (auto simp: same_but_d_def same_but_r_def same_region_def region_def)
  ultimately obtain u where u: "push_d v c = (Inr (), u)" "ds u = v # ys" "same_but_d c u"
    using data_stack.push_ok [OF c(2), of v] assms(2) by auto
  have "rs u = rs e" using u(3) c(3) a(4) by (simp add: same_but_d_def)
  with a(1) b(1) c(1) u(1,2) assms(2) show ?thesis by simp
qed

text \<open>
  C39. Both stacks of the prototype start at the end of the same memory. With an empty return stack, moving the top value to the return
  stack and back, \<^verbatim>\<open>>R R>\<close>, overwrites the bottom of the data stack with it. The service, with a region for each stack, leaves both as
  they were.
\<close>

theorem prototype_stacks_overlap:
  assumes "proto_good p" and "proto_data p = v # xs" and "return_sp p = int (length (pmem p))"
    and "layout_ok e" and "ds e = v # xs" and "length (rs e) < region (rstk e)"
  shows "(\<exists>q. chain (call_word ToR []) (\<lambda>_. call_word FromR []) p = (Inr (), q) \<and> proto_data q = butlast (v # xs) @ [v]) \<and>
    (\<exists>u. chain (call_builtin ToR []) (\<lambda>_. call_builtin FromR []) e = (Inr (), u) \<and> ds u = v # xs \<and> rs u = rs e)"
proof
  let ?i = "nat (data_sp p)" and ?n = "length (pmem p) - 1"
  note b = proto_data_Cons [OF assms(1,2)]
  have i: "?i < length (pmem p)" using b(1,2) by linarith
  have n: "0 \<le> int (length (pmem p)) - 1" "nat (int (length (pmem p)) - 1) = ?n" using i by linarith+
  let ?a = "p\<lparr>data_sp := data_sp p + 1\<rparr>"
  let ?b = "?a\<lparr>pmem := (pmem p)[?n := v], return_sp := int (length (pmem p)) - 1\<rparr>"
  let ?c = "?b\<lparr>return_sp := int (length (pmem p))\<rparr>"
  let ?d = "?c\<lparr>pmem := ((pmem p)[?n := v])[?i := v], data_sp := data_sp p\<rparr>"
  have "data_pop p = (Inr v, ?a)" using b by (simp add: data_pop_def bare_pop_def)
  moreover have "return_push v ?a = (Inr (), ?b)" using n assms(3) by (simp add: return_push_def bare_push_def Let_def)
  moreover have "return_pop ?b = (Inr v, ?c)" using n i by (simp add: return_pop_def bare_pop_def)
  moreover have "data_push v ?c = (Inr (), ?d)" using b(1,2) by (simp add: data_push_def bare_push_def Let_def)
  ultimately have "chain (call_word ToR []) (\<lambda>_. call_word FromR []) p = (Inr (), ?d)" by simp
  then show "\<exists>q. chain (call_word ToR []) (\<lambda>_. call_word FromR []) p = (Inr (), q) \<and> proto_data q = butlast (v # xs) @ [v]"
    using last_cell_both [OF i(1)] b(3) assms(2) by (simp add: proto_data_def)
  show "\<exists>u. chain (call_builtin ToR []) (\<lambda>_. call_builtin FromR []) e = (Inr (), u) \<and> ds u = v # xs \<and> rs u = rs e"
    using service_return_roundtrip [OF assms(4-6)] assms(5) by simp
qed

theorem prototype_stacks_overlap_witness:
  "\<exists>q. chain (call_word ToR []) (\<lambda>_. call_word FromR []) (executioner_new\<lparr>pmem := replicate 1022 0 @ [5, 7], data_sp := 1022\<rparr>) = (Inr (), q) \<and>
     proto_data q = [5, 5]"
proof -
  let ?p = "executioner_new\<lparr>pmem := replicate 1022 0 @ [5, 7], data_sp := 1022\<rparr>"
  have p: "proto_good ?p" "proto_data ?p = [5, 7]" "return_sp ?p = int (length (pmem ?p))"
    by (simp_all add: proto_good_def proto_data_def executioner_new_def cpu_new_def)
  have new: "layout_ok square_service" "ds square_service = []" "region (dstk square_service) = 1024"
      "rs square_service = []" "region (rstk square_service) = 1024"
    using square_service_ok forth_new_ok [OF machine_new_sel(1)] machine_new_sel
    by (simp_all add: square_service_def add_colon_def_def rs_def forth_new_def build_minimal_dictionary_def)
  obtain s where s: "layout_ok s" "ds s = [7]" "same_but_d square_service s"
    using data_stack.push_ok [OF new(1), of 7] new by auto
  obtain e where e: "layout_ok e" "ds e = [5, 7]" "same_but_d s e"
    using data_stack.push_ok [OF s(1), of 5] s data_stack.same_cap [OF s(3)] new by auto
  have "length (rs e) < region (rstk e)" using s(3) e(3) new by (simp add: same_but_d_def)
  from prototype_stacks_overlap [OF p e(1,2) this] show ?thesis by simp
qed

end
