(* ===== verification/ThreadedDemo.thy ===== *)
theory ThreadedDemo
  imports Forth Dictionary
begin

section \<open>The first prototype\<close>

text \<open>
  \<^verbatim>\<open>docs/prototypes/assembler-interpreter-1.py\<close>: a micro instruction set, and a Forth whose colon definitions are
  threads of addresses in the memory. Primitives are marked by a cell -1 and found again through the
  dictionary. The stacks check their bounds as those of the package do, with other exceptions: \<open>sfloor\<close> is \<^verbatim>\<open>base\<close>, \<open>sbase\<close> is
  \<^verbatim>\<open>base + size\<close> and \<open>spointer\<close> is \<^verbatim>\<open>sp\<close>. So a machine is a data path with the registers and the Forth system's own fields. The inner interpreter may run forever: its value is then \<open>None\<close>.
\<close>

subsection \<open>Stack and processor\<close>

definition bounded_push :: "int \<Rightarrow> (error, memory \<times> stack, unit) exec" where
  "bounded_push v mk =
     (let (m, k) = mk in
      if spointer k \<le> sfloor k then (Inl (OverflowError ''Stack overflow''), (m, k))
      else let k' = k\<lparr>spointer := spointer k - 1\<rparr> in
        (case memory_write m (spointer k') v of Inl e \<Rightarrow> (Inl e, (m, k')) | Inr m' \<Rightarrow> (Inr (), (m', k'))))"

definition bounded_pop :: "(error, memory \<times> stack, int) exec" where
  "bounded_pop mk =
     (let (m, k) = mk in
      if spointer k \<ge> sbase k then (Inl (OverflowError ''Stack underflow''), (m, k))
      else (case memory_read m (spointer k) of
              Inl e \<Rightarrow> (Inl e, (m, k))
            | Inr v \<Rightarrow> (Inr v, (m, k\<lparr>spointer := spointer k + 1\<rparr>))))"

definition unchecked_peek :: "(error, memory \<times> stack, int) exec" where
  "unchecked_peek mk = (let (m, k) = mk in (memory_read m (spointer k), (m, k)))"

datatype primitive_fn = PrimExit | PrimLit | PrimDup | PrimMul | PrimDot

record demo_vm = datapath +
  reg_PC :: int
  reg_IP :: int
  reg_W :: int
  other_attrs :: "string \<rightharpoonup> int"
  vdict :: "string \<rightharpoonup> int"
  vhere :: int
  vprims :: "(string \<times> primitive_fn) list"
  vprinted :: "string list"

type_synonym 'a demo = "(error, demo_vm, 'a) exec"

definition demo_cpu :: "nat \<Rightarrow> demo_vm" where
  "demo_cpu memsize =
     \<lparr>mem = replicate memsize 0, dstk = stack_new (int memsize - 1024) 1024, rstk = stack_new (int memsize) 1024,
      reg_PC = 0, reg_IP = 0, reg_W = 0, other_attrs = Map.empty,
      vdict = Map.empty, vhere = 0, vprims = [], vprinted = []\<rparr>"

definition D_push :: "int \<Rightarrow> unit demo" where
  "D_push v s = (case bounded_push v (mem s, dstk s) of (r, m, k) \<Rightarrow> (r, s\<lparr>mem := m, dstk := k\<rparr>))"

definition D_pop :: "int demo" where
  "D_pop s = (case bounded_pop (mem s, dstk s) of (r, m, k) \<Rightarrow> (r, s\<lparr>mem := m, dstk := k\<rparr>))"

definition D_peek :: "int demo" where
  "D_peek s = (case unchecked_peek (mem s, dstk s) of (r, m, k) \<Rightarrow> (r, s\<lparr>mem := m, dstk := k\<rparr>))"

definition R_push :: "int \<Rightarrow> unit demo" where
  "R_push v s = (case bounded_push v (mem s, rstk s) of (r, m, k) \<Rightarrow> (r, s\<lparr>mem := m, rstk := k\<rparr>))"

definition R_pop :: "int demo" where
  "R_pop s = (case bounded_pop (mem s, rstk s) of (r, m, k) \<Rightarrow> (r, s\<lparr>mem := m, rstk := k\<rparr>))"

definition R_peek :: "int demo" where
  "R_peek s = (case unchecked_peek (mem s, rstk s) of (r, m, k) \<Rightarrow> (r, s\<lparr>mem := m, rstk := k\<rparr>))"

subsection \<open>The micro instructions\<close>

text \<open>\<^verbatim>\<open>getattr\<close> and \<^verbatim>\<open>setattr\<close> on the integer attributes; a new name becomes an attribute.\<close>

definition get_register :: "string \<Rightarrow> int demo" where
  "get_register r s =
     (if r = ''PC'' then (Inr (reg_PC s), s)
      else if r = ''IP'' then (Inr (reg_IP s), s)
      else if r = ''W'' then (Inr (reg_W s), s)
      else case other_attrs s r of Some v \<Rightarrow> (Inr v, s) | None \<Rightarrow> (Inl (AttributeError r), s))"

definition set_register :: "string \<Rightarrow> int \<Rightarrow> unit demo" where
  "set_register r v =
     modify (\<lambda>s. if r = ''PC'' then s\<lparr>reg_PC := v\<rparr>
       else if r = ''IP'' then s\<lparr>reg_IP := v\<rparr>
       else if r = ''W'' then s\<lparr>reg_W := v\<rparr>
       else s\<lparr>other_attrs := (other_attrs s)(r \<mapsto> v)\<rparr>)"

datatype micro =
  MicroNOP
| MicroLOAD string string
| MicroSTORE string string
| MicroADD string string
| MicroJMP string
| MicroJZ string int
| MicroNEXT

fun micro_execute :: "micro \<Rightarrow> unit demo" where
  "micro_execute MicroNOP = pure ()"
| "micro_execute (MicroLOAD r a) = chain (get_register a) (\<lambda>n. chain (load_cell n) (set_register r))"
| "micro_execute (MicroSTORE a r) = chain (get_register r) (\<lambda>v. chain (get_register a) (\<lambda>n. store_cell n v))"
| "micro_execute (MicroADD a b) = chain (get_register a) (\<lambda>x. chain (get_register b) (\<lambda>y. set_register a (x + y)))"
| "micro_execute (MicroJMP a) = chain (get_register a) (set_register ''PC'')"
| "micro_execute (MicroJZ r t) = chain (get_register r) (\<lambda>x. if x = 0 then set_register ''PC'' t else pure ())"
| "micro_execute MicroNEXT =
     chain (gets reg_IP) (\<lambda>ip. chain (load_cell ip) (\<lambda>w.
     chain (modify (\<lambda>s. s\<lparr>reg_IP := reg_IP s + 1\<rparr>)) (\<lambda>_.
     chain (modify (\<lambda>s. s\<lparr>reg_W := w\<rparr>)) (\<lambda>_.
     chain (load_cell w) (set_register ''PC'')))))"

subsection \<open>Building the dictionary\<close>

text \<open>Assignment to a key of an ordered dictionary.\<close>

fun dict_set :: "string \<Rightarrow> 'a \<Rightarrow> (string \<times> 'a) list \<Rightarrow> (string \<times> 'a) list" where
  "dict_set k v [] = [(k, v)]"
| "dict_set k v ((k', v') # kvs) = (if k' = k then (k, v) # kvs else (k', v') # dict_set k v kvs)"

definition install_primitive :: "string \<Rightarrow> primitive_fn \<Rightarrow> unit demo" where
  "install_primitive name fn =
     chain (gets vhere) (\<lambda>addr.
     chain (store_cell addr (- 1)) (\<lambda>_.
     modify (\<lambda>s. s\<lparr>vprims := dict_set name fn (vprims s), vdict := (vdict s)(name \<mapsto> addr), vhere := vhere s + 1\<rparr>)))"

definition vm_init :: "unit demo" where
  "vm_init =
     chain (modify (\<lambda>s. s\<lparr>vdict := Map.empty, vhere := 0x1000, vprims := []\<rparr>)) (\<lambda>_.
     each (\<lambda>(name, fn). install_primitive name fn)
       [(''EXIT'', PrimExit), (''LIT'', PrimLit), (''DUP'', PrimDup), (''*'', PrimMul), (''.'', PrimDot)])"

text \<open>\<^verbatim>\<open>int(w)\<close>: a decimal literal with an optional sign.\<close>

definition py_int :: "string \<Rightarrow> int option" where
  "py_int t =
     (case strip t of
        [] \<Rightarrow> None
      | c # cs \<Rightarrow>
          if c = CHR ''-'' then map_option (\<lambda>n. - int n) (decimal_digits cs)
          else if c = CHR ''+'' then map_option int (decimal_digits cs)
          else map_option int (decimal_digits (c # cs)))"

definition lookup_word :: "string \<Rightarrow> int demo" where
  "lookup_word name s = (case vdict s name of Some a \<Rightarrow> (Inr a, s) | None \<Rightarrow> (Inl (KeyError name), s))"

definition compile_cell :: "string \<Rightarrow> int demo" where
  "compile_cell w s =
     (case vdict s w of
        Some a \<Rightarrow> (Inr a, s)
      | None \<Rightarrow> (case py_int w of Some n \<Rightarrow> (Inr n, s) | None \<Rightarrow> (Inl ValueError, s)))"

definition append_here :: "int \<Rightarrow> unit demo" where
  "append_here v =
     chain (gets vhere) (\<lambda>a. chain (store_cell a v) (\<lambda>_. modify (\<lambda>s. s\<lparr>vhere := vhere s + 1\<rparr>)))"

definition add_colon :: "string \<Rightarrow> string list \<Rightarrow> unit demo" where
  "add_colon name body =
     chain (modify (\<lambda>s. s\<lparr>vdict := (vdict s)(name \<mapsto> vhere s)\<rparr>)) (\<lambda>_.
     chain (chain (lookup_word ''DOCOL'') append_here) (\<lambda>_.
     chain (each (\<lambda>w. chain (compile_cell w) append_here) body) (\<lambda>_.
     chain (lookup_word ''EXIT'') append_here)))"

subsection \<open>The primitives\<close>

definition signal_next :: "unit demo" where
  "signal_next = modify (\<lambda>s. s\<lparr>reg_PC := - 99\<rparr>)"

text \<open>\<^verbatim>\<open>print(v)\<close>: CPython renders no integer of more than 4300 digits.\<close>

definition print_text :: "int \<Rightarrow> error + string" where
  "print_text v =
     (if length (decimal (nat \<bar>v\<bar>)) \<le> int_max_str_digits then Inr (py_str_int v) else Inl ValueError)"

definition print_line :: "int \<Rightarrow> unit demo" where
  "print_line v = chain (lift (print_text v)) (\<lambda>t. modify (\<lambda>s. s\<lparr>vprinted := vprinted s @ [t]\<rparr>))"

fun call_primitive :: "primitive_fn \<Rightarrow> unit demo" where
  "call_primitive PrimExit = chain R_pop (\<lambda>ip. chain (modify (\<lambda>s. s\<lparr>reg_IP := ip\<rparr>)) (\<lambda>_. signal_next))"
| "call_primitive PrimLit =
     chain (gets reg_IP) (\<lambda>ip. chain (load_cell ip) (\<lambda>v.
     chain (modify (\<lambda>s. s\<lparr>reg_IP := reg_IP s + 1\<rparr>)) (\<lambda>_. chain (D_push v) (\<lambda>_. signal_next))))"
| "call_primitive PrimDup = chain D_pop (\<lambda>v. chain (D_push v) (\<lambda>_. chain (D_push v) (\<lambda>_. signal_next)))"
| "call_primitive PrimMul = chain D_pop (\<lambda>b. chain D_pop (\<lambda>a. chain (D_push (a * b)) (\<lambda>_. signal_next)))"
| "call_primitive PrimDot = chain D_pop (\<lambda>v. chain (print_line v) (\<lambda>_. signal_next))"

subsection \<open>The inner interpreter\<close>

text \<open>
  The search of a primitive by its address, in the order of the dictionary of primitives. (The test \<^verbatim>\<open>w in self.primitives\<close>
  before it asks for an integer among names and never holds.)
\<close>

fun primitive_at :: "(string \<times> primitive_fn) list \<Rightarrow> (string \<rightharpoonup> int) \<Rightarrow> int \<Rightarrow> error + primitive_fn option" where
  "primitive_at [] d w = Inr None"
| "primitive_at ((name, fn) # ps) d w =
     (case d name of None \<Rightarrow> Inl (KeyError name) | Some a \<Rightarrow> if a = w then Inr (Some fn) else primitive_at ps d w)"

definition enter_colon :: "int \<Rightarrow> unit demo" where
  "enter_colon w = chain (gets reg_IP) (\<lambda>ip. chain (R_push ip) (\<lambda>_. modify (\<lambda>s. s\<lparr>reg_IP := w + 1\<rparr>)))"

definition inner_step :: "unit demo" where
  "inner_step =
     chain (gets reg_IP) (\<lambda>ip. chain (load_cell ip) (\<lambda>w.
     chain (modify (\<lambda>s. s\<lparr>reg_IP := reg_IP s + 1\<rparr>)) (\<lambda>_.
     chain (load_cell w) (\<lambda>code.
       if code = - 1
       then chain (\<lambda>s. (primitive_at (vprims s) (vdict s) w, s)) (\<lambda>p.
              case p of Some fn \<Rightarrow> call_primitive fn | None \<Rightarrow> pure ())
       else enter_colon w))))"

partial_function (option) inner_loop :: "demo_vm \<Rightarrow> ((error + unit) \<times> demo_vm) option" where
  "inner_loop s =
     (case inner_step s of
        (Inl e, t) \<Rightarrow> Some (Inl e, t)
      | (Inr u, t) \<Rightarrow> if reg_IP t = 0 then Some (Inr (), t) else inner_loop t)"

definition run_word :: "string \<Rightarrow> demo_vm \<Rightarrow> ((error + unit) \<times> demo_vm) option" where
  "run_word name s =
     (case chain (lookup_word name) (\<lambda>addr. chain (load_cell addr) (\<lambda>code. pure (addr, code))) s of
        (Inl e, t) \<Rightarrow> Some (Inl e, t)
      | (Inr (addr, code), t) \<Rightarrow>
          if code = - 1
          then (case map_of (vprims t) name of
                  Some fn \<Rightarrow> Some (call_primitive fn t) | None \<Rightarrow> Some (Inl (KeyError name), t))
          else (case enter_colon addr t of
                  (Inl e, u) \<Rightarrow> Some (Inl e, u) | (Inr _, u) \<Rightarrow> inner_loop u))"

subsection \<open>The outer interpreter\<close>

text \<open>\<^verbatim>\<open>line.strip().split()\<close> and \<^verbatim>\<open>token.isdigit()\<close>, which holds of superscript digits too.\<close>

function py_split :: "string \<Rightarrow> string list" where
  "py_split s = (case lstrip s of [] \<Rightarrow> [] | c # cs \<Rightarrow> (case first_field (c # cs) of (t, r) \<Rightarrow> t # py_split r))"
  by pat_completeness auto

definition isdigit :: "string \<Rightarrow> bool" where
  "isdigit s \<longleftrightarrow> s \<noteq> [] \<and>
     list_all (\<lambda>c. is_digit (code_point c) \<or> code_point c = 178 \<or> code_point c = 179 \<or> code_point c = 185) s"

fun repl_tokens :: "string list \<Rightarrow> demo_vm \<Rightarrow> ((error + unit) \<times> demo_vm) option" where
  "repl_tokens [] s = Some (Inr (), s)"
| "repl_tokens (token # rest) s =
     (case (if isdigit token
            then Some (case py_int token of Some n \<Rightarrow> D_push n s | None \<Rightarrow> (Inl ValueError, s))
            else if vdict s token \<noteq> None then run_word token s
            else Some (Inr (), s\<lparr>vprinted := vprinted s @ [''Unknown word: '' @ token]\<rparr>)) of
        None \<Rightarrow> None
      | Some (Inl e, t) \<Rightarrow> Some (Inl e, t)
      | Some (Inr _, t) \<Rightarrow> repl_tokens rest t)"

text \<open>The demo: a machine of 65536 cells, a stand-in for \<^verbatim>\<open>DOCOL\<close>.\<close>

definition demo_start :: "(error + unit) \<times> demo_vm" where
  "demo_start = chain vm_init (\<lambda>_. modify (\<lambda>s. s\<lparr>vdict := (vdict s)(''DOCOL'' \<mapsto> - 2)\<rparr>)) (demo_cpu 65536)"

lemma length_first_field: "first_field (c # cs) = (t, r) \<Longrightarrow> \<not> isspace c \<Longrightarrow> length r < length (c # cs)"
  using length_dropWhile_le [of "\<lambda>c. \<not> isspace c" cs] length_dropWhile_le [of isspace "dropWhile (\<lambda>c. \<not> isspace c) cs"]
  by (auto simp: first_field_def lstrip_def)

termination py_split
proof (relation "measure length")
  fix s c cs t r
  assume s: "lstrip s = c # cs" and p': "(t, r) = first_field (c # cs)"
  then have p: "first_field (c # cs) = (t, r)" by simp
  have "\<not> isspace c" using s hd_dropWhile [of isspace s] by (auto simp: lstrip_def)
  moreover have "length (c # cs) \<le> length s" using s length_dropWhile_le [of isspace s] by (simp add: lstrip_def)
  ultimately show "(r, s) \<in> measure length" using length_first_field [OF p] by simp
qed simp

declare py_split.simps [simp del]

definition repl :: "string \<Rightarrow> demo_vm \<Rightarrow> ((error + unit) \<times> demo_vm) option" where
  "repl line s = repl_tokens (py_split (strip line)) s"

subsection \<open>Its stacks are stacks\<close>

lemma bounded_as_package:
  "spointer k > sfloor k \<Longrightarrow> bounded_push v (m, k) = stack_push v (m, k)"
  "spointer k < sbase k \<Longrightarrow> bounded_pop (m, k) = stack_pop (m, k)"
  "spointer k < sbase k \<Longrightarrow> unchecked_peek (m, k) = stack_peek (m, k)"
  unfolding bounded_push_def stack_push_def bounded_pop_def stack_pop_def unchecked_peek_def stack_peek_def CELL_SIZE_def
  by simp_all

lemma content_pointer:
  assumes "stack_ok m k"
  shows "length (content m k) < region k \<Longrightarrow> spointer k > sfloor k" "content m k = x # xs \<Longrightarrow> spointer k < sbase k"
proof -
  show "length (content m k) < region k \<Longrightarrow> spointer k > sfloor k"
    using room_pos [OF assms] by (simp add: room_def)
  show "content m k = x # xs \<Longrightarrow> spointer k < sbase k"
    using content_empty_iff [OF assms] assms by (fastforce simp: stack_ok_def)
qed

interpretation demo_data: lifo_stack D_push D_pop D_peek layout_ok ds "\<lambda>s. region (dstk s)" same_but_d
proof unfold_locales
  fix s :: demo_vm and v x xs
  assume good: "layout_ok s"
  then have ok: "stack_ok (mem s) (dstk s)" by (simp add: layout_ok_def)
  show "\<exists>s'. D_push v s = (Inr (), s') \<and> layout_ok s' \<and> ds s' = v # ds s \<and> same_but_d s s'" if "length (ds s) < region (dstk s)"
    using data_stack.push_ok [OF good that] content_pointer(1) [OF ok] that
    by (simp add: D_push_def push_d_def bounded_as_package ds_def)
  show "\<exists>s'. D_pop s = (Inr x, s') \<and> layout_ok s' \<and> ds s' = xs \<and> same_but_d s s'" if "ds s = x # xs"
    using data_stack.pop_ok [OF good that] content_pointer(2) [OF ok] that
    by (simp add: D_pop_def pop_d_def bounded_as_package ds_def)
  show "D_peek s = (Inr x, s)" if "ds s = x # xs"
    using data_stack.peek_ok [OF good that] content_pointer(2) [OF ok] that
    by (simp add: D_peek_def peek_d_def bounded_as_package ds_def)
qed (auto simp: same_but_d_def same_region_def region_def)

interpretation demo_return: lifo_stack R_push R_pop R_peek layout_ok rs "\<lambda>s. region (rstk s)" same_but_r
proof unfold_locales
  fix s :: demo_vm and v x xs
  assume good: "layout_ok s"
  then have ok: "stack_ok (mem s) (rstk s)" by (simp add: layout_ok_def)
  show "\<exists>s'. R_push v s = (Inr (), s') \<and> layout_ok s' \<and> rs s' = v # rs s \<and> same_but_r s s'" if "length (rs s) < region (rstk s)"
    using return_stack.push_ok [OF good that] content_pointer(1) [OF ok] that
    by (simp add: R_push_def push_r_def bounded_as_package rs_def)
  show "\<exists>s'. R_pop s = (Inr x, s') \<and> layout_ok s' \<and> rs s' = xs \<and> same_but_r s s'" if "rs s = x # xs"
    using return_stack.pop_ok [OF good that] content_pointer(2) [OF ok] that
    by (simp add: R_pop_def pop_r_def bounded_as_package rs_def)
  show "R_peek s = (Inr x, s)" if "rs s = x # xs"
    using return_stack.peek_ok [OF good that] content_pointer(2) [OF ok] that
    by (simp add: R_peek_def peek_r_def bounded_as_package rs_def)
qed (auto simp: same_but_r_def same_region_def region_def)

subsection \<open>What the operations do\<close>

lemma demo_more_eq:
  fixes s t :: demo_vm
  assumes "datapath.more t = datapath.more s"
  shows "reg_PC t = reg_PC s" "reg_IP t = reg_IP s" "reg_W t = reg_W s" "other_attrs t = other_attrs s"
    "vdict t = vdict s" "vhere t = vhere s" "vprims t = vprims s" "vprinted t = vprinted s"
  using assms by (cases s; cases t; simp)+

text \<open>A run changes neither the code nor the dictionary.\<close>

definition code_kept :: "demo_vm \<Rightarrow> demo_vm \<Rightarrow> bool" where
  "code_kept s t \<longleftrightarrow> layout_ok t \<and> cells t = cells s \<and> region (dstk t) = region (dstk s) \<and> region (rstk t) = region (rstk s) \<and>
     vdict t = vdict s \<and> vprims t = vprims s \<and> vhere t = vhere s"

text \<open>From \<open>s\<close> to a state with this data stack, return stack, \<^verbatim>\<open>IP\<close> and output.\<close>

definition goes_to :: "demo_vm \<Rightarrow> int list \<Rightarrow> int list \<Rightarrow> int \<Rightarrow> string list \<Rightarrow> demo_vm \<Rightarrow> bool" where
  "goes_to s d r ip out t \<longleftrightarrow> code_kept s t \<and> ds t = d \<and> rs t = r \<and> reg_IP t = ip \<and> vprinted t = out"

lemma code_kept_refl: "layout_ok s \<Longrightarrow> code_kept s s"
  by (simp add: code_kept_def)

lemma code_kept_trans: "code_kept s t \<Longrightarrow> code_kept t u \<Longrightarrow> code_kept s u"
  by (auto simp: code_kept_def)

lemma goes_to_trans: "goes_to s d r ip ou t \<Longrightarrow> goes_to t d' r' ip' ou' u \<Longrightarrow> goes_to s d' r' ip' ou' u"
  unfolding goes_to_def using code_kept_trans by blast

lemma goes_to_regs:
  "goes_to s d r ip ou t \<Longrightarrow> goes_to s d r ip' ou (t\<lparr>reg_IP := ip'\<rparr>)"
  "goes_to s d r ip ou t \<Longrightarrow> goes_to s d r ip ou (t\<lparr>reg_PC := v\<rparr>)"
  "goes_to s d r ip ou t \<Longrightarrow> goes_to s d r ip ou' (t\<lparr>vprinted := ou'\<rparr>)"
  by (auto simp: goes_to_def code_kept_def layout_ok_def cells_def ds_def rs_def)

lemma goes_to_self: "layout_ok s \<Longrightarrow> goes_to s (ds s) (rs s) (reg_IP s) (vprinted s) s"
  by (simp add: goes_to_def code_kept_refl)

lemma same_d_goes: "layout_ok t \<Longrightarrow> same_but_d s t \<Longrightarrow> goes_to s (ds t) (rs s) (reg_IP s) (vprinted s) t"
  using demo_more_eq [of t s] by (auto simp: goes_to_def code_kept_def same_but_d_def same_region_def region_def)

lemma same_r_goes: "layout_ok t \<Longrightarrow> same_but_r s t \<Longrightarrow> goes_to s (ds s) (rs t) (reg_IP s) (vprinted s) t"
  using demo_more_eq [of t s] by (auto simp: goes_to_def code_kept_def same_but_r_def same_region_def region_def)

lemma D_push_goes:
  assumes "layout_ok s" and "length (ds s) < region (dstk s)"
  shows "\<exists>t. D_push v s = (Inr (), t) \<and> goes_to s (v # ds s) (rs s) (reg_IP s) (vprinted s) t"
  using demo_data.push_ok [OF assms, of v] same_d_goes by metis

lemma D_pop_goes:
  assumes "layout_ok s" and "ds s = x # xs"
  shows "\<exists>t. D_pop s = (Inr x, t) \<and> goes_to s xs (rs s) (reg_IP s) (vprinted s) t"
  using demo_data.pop_ok [OF assms] same_d_goes by metis

lemma R_push_goes:
  assumes "layout_ok s" and "length (rs s) < region (rstk s)"
  shows "\<exists>t. R_push v s = (Inr (), t) \<and> goes_to s (ds s) (v # rs s) (reg_IP s) (vprinted s) t"
  using demo_return.push_ok [OF assms, of v] same_r_goes by metis

lemma R_pop_goes:
  assumes "layout_ok s" and "rs s = x # xs"
  shows "\<exists>t. R_pop s = (Inr x, t) \<and> goes_to s (ds s) xs (reg_IP s) (vprinted s) t"
  using demo_return.pop_ok [OF assms] same_r_goes by metis

lemma goes_to_sel:
  assumes "goes_to s d r ip ou t"
  shows "layout_ok t" "ds t = d" "rs t = r" "reg_IP t = ip" "vprinted t = ou" "region (dstk t) = region (dstk s)"
    "region (rstk t) = region (rstk s)" "cells t = cells s" "vdict t = vdict s" "vprims t = vprims s" "code_kept s t"
  using assms by (simp_all add: goes_to_def code_kept_def)

text \<open>
  The primitives on the data stack and the output, where they succeed: \<^verbatim>\<open>DUP\<close> needs room on the stack, and \<^verbatim>\<open>.\<close> a number
  that can be printed.
\<close>

fun native_effect :: "primitive_fn \<Rightarrow> int list \<times> string list \<Rightarrow> (int list \<times> string list) option" where
  "native_effect PrimDup (x # d, ou) = (if length d < 1023 then Some (x # x # d, ou) else None)"
| "native_effect PrimMul (b # a # d, ou) = Some (a * b # d, ou)"
| "native_effect PrimDot (x # d, ou) = (case print_text x of Inl e \<Rightarrow> None | Inr t \<Rightarrow> Some (d, ou @ [t]))"
| "native_effect _ _ = None"

lemma native_goes:
  assumes "layout_ok s" and "region (dstk s) = 1024" and "native_effect p (ds s, vprinted s) = Some (d', ou')"
  shows "\<exists>t. call_primitive p s = (Inr (), t) \<and> goes_to s d' (rs s) (reg_IP s) ou' t"
proof (cases "(p, ds s, vprinted s)" rule: native_effect.cases)
  case (1 x d ou)
  with assms(3) have ds: "ds s = x # d" and room: "length d < 1023" "d' = x # x # d" "ou' = vprinted s" by (auto split: if_splits)
  obtain a where a: "D_pop s = (Inr x, a)" "goes_to s d (rs s) (reg_IP s) (vprinted s) a" using D_pop_goes [OF assms(1) ds] by blast
  note as = goes_to_sel [OF a(2)]
  obtain b where b: "D_push x a = (Inr (), b)" "goes_to a (x # d) (rs s) (reg_IP s) (vprinted s) b"
    using D_push_goes [of a x] as assms(2) room by auto
  note bs = goes_to_sel [OF b(2)]
  obtain c where c: "D_push x b = (Inr (), c)" "goes_to b (x # x # d) (rs s) (reg_IP s) (vprinted s) c"
    using D_push_goes [of b x] as bs assms(2) room by auto
  from goes_to_trans [OF goes_to_trans [OF a(2) b(2)] c(2)] a(1) b(1) c(1) 1 room show ?thesis
    by (auto simp: signal_next_def intro: goes_to_regs)
next
  case (2 y x d ou)
  with assms(3) have ds: "ds s = y # x # d" and d': "d' = x * y # d" "ou' = vprinted s" by auto
  obtain a where a: "D_pop s = (Inr y, a)" "goes_to s (x # d) (rs s) (reg_IP s) (vprinted s) a" using D_pop_goes [OF assms(1) ds] by blast
  note as = goes_to_sel [OF a(2)]
  obtain b where b: "D_pop a = (Inr x, b)" "goes_to a d (rs s) (reg_IP s) (vprinted s) b" using D_pop_goes [OF as(1,2)] as by auto
  note bs = goes_to_sel [OF b(2)]
  obtain c where c: "D_push (x * y) b = (Inr (), c)" "goes_to b (x * y # d) (rs s) (reg_IP s) (vprinted s) c"
    using D_push_goes [of b "x * y"] as bs stacks_in_region(1) [OF assms(1)] assms(2) ds by auto
  from goes_to_trans [OF goes_to_trans [OF a(2) b(2)] c(2)] a(1) b(1) c(1) 2 d' show ?thesis
    by (auto simp: signal_next_def intro: goes_to_regs)
next
  case (3 x d ou)
  with assms(3) obtain t where ds: "ds s = x # d" and d': "d' = d" "ou' = vprinted s @ [t]" and t: "print_text x = Inr t"
    by (auto split: sum.splits)
  obtain a where a: "D_pop s = (Inr x, a)" "goes_to s d (rs s) (reg_IP s) (vprinted s) a" using D_pop_goes [OF assms(1) ds] by blast
  have "goes_to s d (rs s) (reg_IP s) (vprinted s @ [t]) (a\<lparr>vprinted := vprinted s @ [t], reg_PC := - 99\<rparr>)"
    by (intro goes_to_regs(2) goes_to_regs(3) [OF a(2)])
  with a(1) goes_to_sel(5) [OF a(2)] 3 d' t show ?thesis by (auto simp: signal_next_def print_line_def)
qed (use assms(3) in auto)

subsection \<open>What a word means\<close>

text \<open>A name stands for a primitive or for the words of its definition; other words of a definition are numbers.\<close>

datatype demo_meaning = Native primitive_fn | Thread "string list"

type_synonym demo_env = "string \<rightharpoonup> demo_meaning"

text \<open>
  \<open>runs env k ws c c'\<close>: the words take the data stack and the output from \<open>c\<close> to \<open>c'\<close>, within the capacity of 1024 cells,
  with definitions nested at most \<open>k\<close> deep.
\<close>

inductive runs :: "demo_env \<Rightarrow> nat \<Rightarrow> string list \<Rightarrow> int list \<times> string list \<Rightarrow> int list \<times> string list \<Rightarrow> bool" for env where
  runs_nil: "runs env k [] c c"
| runs_native: "env x = Some (Native p) \<Longrightarrow> native_effect p c = Some c1 \<Longrightarrow> runs env k ws c1 c2 \<Longrightarrow> runs env k (x # ws) c c2"
| runs_literal: "env x = Some (Native PrimLit) \<Longrightarrow> env y = None \<Longrightarrow> py_int y = Some n \<Longrightarrow> length d < 1024 \<Longrightarrow>
    runs env k ws (n # d, ou) c2 \<Longrightarrow> runs env k (x # y # ws) (d, ou) c2"
| runs_thread: "env x = Some (Thread bs) \<Longrightarrow> runs env k bs c c1 \<Longrightarrow> runs env (Suc k) ws c1 c2 \<Longrightarrow> runs env (Suc k) (x # ws) c c2"

inductive_cases runs_NilE: "runs env k [] c c'"

text \<open>The cells of a definition, and a machine whose dictionary and memory are those of an environment.\<close>

definition cell_of :: "(string \<rightharpoonup> int) \<Rightarrow> string \<Rightarrow> int" where
  "cell_of d w = (case d w of Some a \<Rightarrow> a | None \<Rightarrow> (case py_int w of Some n \<Rightarrow> n | None \<Rightarrow> 0))"

definition code_at_addr :: "int list \<Rightarrow> int \<Rightarrow> int list \<Rightarrow> bool" where
  "code_at_addr m a vs \<longleftrightarrow> 0 < a \<and> a + int (length vs) \<le> int (length m) \<and> slice m (nat a) (nat a + length vs) = vs"

fun word_at :: "demo_vm \<Rightarrow> int \<Rightarrow> demo_meaning \<Rightarrow> bool" where
  "word_at s a (Native p) = (code_at_addr (cells s) a [- 1] \<and> a < vhere s \<and> primitive_at (vprims s) (vdict s) a = Inr (Some p))"
| "word_at s a (Thread ws) = (code_at_addr (cells s) a (- 2 # map (cell_of (vdict s)) (ws @ [''EXIT''])) \<and>
     a + int (length ws) + 2 \<le> vhere s \<and> list_all (\<lambda>w. vdict s w \<noteq> None \<or> py_int w \<noteq> None) ws)"

definition linked :: "demo_vm \<Rightarrow> demo_env \<Rightarrow> bool" where
  "linked s env \<longleftrightarrow> layout_ok s \<and> region (dstk s) = 1024 \<and> region (rstk s) = 1024 \<and> 0 < vhere s \<and> vhere s \<le> int (length (cells s)) \<and>
     env ''EXIT'' = Some (Native PrimExit) \<and> vdict s ''DOCOL'' = Some (- 2) \<and>
     (\<forall>x. vdict s x \<noteq> None \<longrightarrow> py_int x = None) \<and> (\<forall>(x, p) \<in> set (vprims s). env x \<noteq> None) \<and>
     (\<forall>x m. env x = Some m \<longrightarrow> (\<exists>a. vdict s x = Some a \<and> word_at s a m))"

lemma linked_word: "linked s env \<Longrightarrow> env x = Some m \<Longrightarrow> \<exists>a. vdict s x = Some a \<and> word_at s a m"
  unfolding linked_def by blast

lemma linked_kept:
  assumes "code_kept s t" and "linked s env"
  shows "linked t env"
proof -
  have k: "layout_ok t" "cells t = cells s" "region (dstk t) = region (dstk s)" "region (rstk t) = region (rstk s)"
      "vdict t = vdict s" "vprims t = vprims s" "vhere t = vhere s"
    using assms(1) by (simp_all add: code_kept_def)
  then have "word_at t a m = word_at s a m" for a m by (cases m) simp_all
  with k assms(2) show ?thesis by (simp add: linked_def)
qed

subsection \<open>Threads run as their words mean\<close>

lemma code_at_addr_Cons:
  "code_at_addr m a (v # vs) \<longleftrightarrow> 0 < a \<and> a < int (length m) \<and> m ! nat a = v \<and> code_at_addr m (a + 1) vs"
proof -
  have n: "0 < a \<Longrightarrow> nat (a + 1) = Suc (nat a)" by simp
  have "slice m (nat a) (nat a + Suc (length vs)) = m ! nat a # slice m (Suc (nat a)) (nat a + Suc (length vs))"
    if "0 < a" "a + int (Suc (length vs)) \<le> int (length m)"
    using that by (intro slice_Cons) linarith+
  then show ?thesis by (auto simp: code_at_addr_def n)
qed

lemma code_at_addr_append:
  "code_at_addr m a (us @ vs) \<Longrightarrow> code_at_addr m a us \<and> code_at_addr m (a + int (length us)) vs"
proof (induction us arbitrary: a)
  case Nil
  then show ?case by (auto simp: code_at_addr_def)
next
  case (Cons u us)
  then show ?case using Cons.IH [of "a + 1"] by (simp add: code_at_addr_Cons ac_simps)
qed

lemma inner_loop_step: "inner_step s = (Inr u, t) \<Longrightarrow> reg_IP t \<noteq> 0 \<Longrightarrow> inner_loop s = inner_loop t"
  by (subst inner_loop.simps) simp

lemma step_cells:
  assumes "linked s env" and "env x = Some m" and "0 < reg_IP s" and "reg_IP s < int (length (cells s))"
    and "cells s ! nat (reg_IP s) = cell_of (vdict s) x"
  shows "inner_step s = (case m of
      Native p \<Rightarrow> call_primitive p (s\<lparr>reg_IP := reg_IP s + 1\<rparr>)
    | Thread ws \<Rightarrow> enter_colon (cell_of (vdict s) x) (s\<lparr>reg_IP := reg_IP s + 1\<rparr>))"
    and "word_at s (cell_of (vdict s) x) m"
proof -
  let ?a = "cell_of (vdict s) x" and ?s = "s\<lparr>reg_IP := reg_IP s + 1\<rparr>"
  obtain a where a: "vdict s x = Some a" "word_at s a m" using assms(1,2) unfolding linked_def by blast
  then show w: "word_at s ?a m" by (simp add: cell_of_def)
  have ok: "layout_ok s" using assms(1) by (simp add: linked_def)
  have ok': "layout_ok ?s" "cells ?s = cells s" using ok by (simp_all add: layout_ok_def cells_def)
  have c: "code_at_addr (cells s) ?a [case m of Native p \<Rightarrow> - 1 | Thread ws \<Rightarrow> - 2]"
    using w by (cases m) (simp_all add: code_at_addr_Cons, simp add: code_at_addr_def)
  have "load_cell (reg_IP s) s = (Inr ?a, s)"
    using load_cell_low [OF ok, of "reg_IP s"] assms(3-5) by simp
  moreover have "load_cell ?a ?s = (Inr (case m of Native p \<Rightarrow> - 1 | Thread ws \<Rightarrow> - 2), ?s)"
    using load_cell_low [OF ok'(1), of ?a] ok'(2) c by (simp add: code_at_addr_Cons)
  ultimately show "inner_step s = (case m of
      Native p \<Rightarrow> call_primitive p ?s
    | Thread ws \<Rightarrow> enter_colon ?a ?s)"
    using w by (cases m) (simp_all add: inner_step_def)
qed

definition seg :: "demo_vm \<Rightarrow> int \<Rightarrow> string list \<Rightarrow> bool" where
  "seg s a ws \<longleftrightarrow> code_at_addr (cells s) a (map (cell_of (vdict s)) ws)"

lemma seg_Cons: "seg s a (x # ws) \<longleftrightarrow> 0 < a \<and> a < int (length (cells s)) \<and> cells s ! nat a = cell_of (vdict s) x \<and> seg s (a + 1) ws"
  by (simp add: seg_def code_at_addr_Cons)

lemma seg_kept: "code_kept s t \<Longrightarrow> seg t a ws = seg s a ws"
  by (simp add: seg_def code_kept_def)

lemma next_ip: "layout_ok s \<Longrightarrow> goes_to s (ds s) (rs s) ip (vprinted s) (s\<lparr>reg_IP := ip\<rparr>)"
  using goes_to_regs(1) [OF goes_to_self] .

lemma native_step:
  assumes "linked s env" and "env x = Some (Native p)" and "native_effect p (ds s, vprinted s) = Some (d', ou')"
    and "seg s (reg_IP s) (x # ws)"
  shows "\<exists>t. inner_loop s = inner_loop t \<and> goes_to s d' (rs s) (reg_IP s + 1) ou' t"
proof -
  let ?s = "s\<lparr>reg_IP := reg_IP s + 1\<rparr>"
  have ok: "layout_ok s" "region (dstk s) = 1024" using assms(1) by (simp_all add: linked_def)
  note n = next_ip [OF ok(1), of "reg_IP s + 1"]
  have c: "0 < reg_IP s" "reg_IP s < int (length (cells s))" "cells s ! nat (reg_IP s) = cell_of (vdict s) x"
    using assms(4) by (simp_all add: seg_Cons)
  obtain t where t: "call_primitive p ?s = (Inr (), t)" "goes_to ?s d' (rs ?s) (reg_IP ?s) ou' t"
    using native_goes [of ?s p d' ou'] goes_to_sel [OF n] ok(2) assms(3) by auto
  have g: "goes_to s d' (rs s) (reg_IP s + 1) ou' t" using goes_to_trans [OF n t(2)] goes_to_sel [OF n] by simp
  then have "inner_step s = (Inr (), t)" "reg_IP t \<noteq> 0"
    using step_cells(1) [OF assms(1,2) c] t(1) c(1) goes_to_sel(4) [OF g] by simp_all
  with inner_loop_step g show ?thesis by blast
qed

lemma literal_step:
  assumes "linked s env" and "env x = Some (Native PrimLit)" and "env y = None" and "py_int y = Some n"
    and "length (ds s) < 1024" and "seg s (reg_IP s) (x # y # ws)"
  shows "\<exists>t. inner_loop s = inner_loop t \<and> goes_to s (n # ds s) (rs s) (reg_IP s + 2) (vprinted s) t"
proof -
  let ?s = "s\<lparr>reg_IP := reg_IP s + 1\<rparr>" and ?u = "s\<lparr>reg_IP := reg_IP s + 2\<rparr>"
  have ok: "layout_ok s" "region (dstk s) = 1024" using assms(1) by (simp_all add: linked_def)
  have "vdict s y = None"
    using assms(1,4) unfolding linked_def by (metis option.distinct(1))
  then have y: "cell_of (vdict s) y = n" using assms(4) by (simp add: cell_of_def)
  have c: "0 < reg_IP s" "reg_IP s < int (length (cells s))" "cells s ! nat (reg_IP s) = cell_of (vdict s) x"
      "reg_IP s + 1 < int (length (cells s))" "cells s ! nat (reg_IP s + 1) = n"
    using assms(6) y by (simp_all add: seg_Cons)
  have ok': "layout_ok ?s" "cells ?s = cells s" using ok by (simp_all add: layout_ok_def cells_def)
  have l: "load_cell (reg_IP s + 1) ?s = (Inr n, ?s)"
    using load_cell_low [OF ok'(1), of "reg_IP s + 1"] ok'(2) c by simp
  note u = next_ip [OF ok(1), of "reg_IP s + 2"]
  obtain t where t: "D_push n ?u = (Inr (), t)" "goes_to ?u (n # ds s) (rs s) (reg_IP s + 2) (vprinted s) t"
    using D_push_goes [of ?u n] goes_to_sel [OF u] ok(2) assms(5) by auto
  let ?t = "t\<lparr>reg_PC := - 99\<rparr>"
  have g: "goes_to s (n # ds s) (rs s) (reg_IP s + 2) (vprinted s) ?t"
    by (intro goes_to_regs(2) goes_to_trans [OF u t(2)])
  have "call_primitive PrimLit ?s = (Inr (), ?t)" using l t(1) by (simp add: signal_next_def add.commute)
  then have "inner_step s = (Inr (), ?t)" "reg_IP ?t \<noteq> 0"
    using step_cells(1) [OF assms(1,2) c(1-3)] c(1) goes_to_sel(4) [OF g] by simp_all
  with inner_loop_step g show ?thesis by blast
qed

lemma enter_goes:
  assumes "layout_ok s" and "length (rs s) < region (rstk s)"
  shows "\<exists>t. enter_colon w s = (Inr (), t) \<and> goes_to s (ds s) (reg_IP s # rs s) (w + 1) (vprinted s) t"
proof -
  obtain t where t: "R_push (reg_IP s) s = (Inr (), t)" "goes_to s (ds s) (reg_IP s # rs s) (reg_IP s) (vprinted s) t"
    using R_push_goes [OF assms] by blast
  from t(1) goes_to_regs(1) [OF t(2), of "w + 1"] show ?thesis by (simp add: enter_colon_def)
qed

lemma thread_step:
  assumes "linked s env" and "env x = Some (Thread bs)" and "length (rs s) < 1024" and "seg s (reg_IP s) (x # ws)"
  shows "\<exists>t a. inner_loop s = inner_loop t \<and> goes_to s (ds s) ((reg_IP s + 1) # rs s) a (vprinted s) t \<and> seg t a (bs @ [''EXIT''])"
proof -
  let ?s = "s\<lparr>reg_IP := reg_IP s + 1\<rparr>" and ?a = "cell_of (vdict s) x"
  have ok: "layout_ok s" "region (rstk s) = 1024" using assms(1) by (simp_all add: linked_def)
  have c: "0 < reg_IP s" "reg_IP s < int (length (cells s))" "cells s ! nat (reg_IP s) = ?a"
    using assms(4) by (simp_all add: seg_Cons)
  note st = step_cells [OF assms(1,2) c]
  note n = next_ip [OF ok(1), of "reg_IP s + 1"]
  obtain t where t: "enter_colon ?a ?s = (Inr (), t)" "goes_to ?s (ds s) ((reg_IP s + 1) # rs s) (?a + 1) (vprinted s) t"
    using enter_goes [of ?s ?a] goes_to_sel [OF n] ok(2) assms(3) by auto
  have g: "goes_to s (ds s) ((reg_IP s + 1) # rs s) (?a + 1) (vprinted s) t" by (rule goes_to_trans [OF n t(2)])
  have code: "seg s (?a + 1) (bs @ [''EXIT''])" "0 < ?a"
    using st(2) by (simp_all add: seg_def code_at_addr_Cons)
  then have "inner_step s = (Inr (), t)" "reg_IP t \<noteq> 0"
    using st(1) t(1) goes_to_sel(4) [OF g] by simp_all
  with inner_loop_step g code(1) seg_kept [OF goes_to_sel(11) [OF g]] show ?thesis by blast
qed

lemma exit_step:
  assumes "linked s env" and "rs s = ip # r" and "seg s (reg_IP s) [''EXIT'']"
  shows "\<exists>t. inner_step s = (Inr (), t) \<and> goes_to s (ds s) r ip (vprinted s) t"
proof -
  let ?s = "s\<lparr>reg_IP := reg_IP s + 1\<rparr>"
  have ok: "layout_ok s" "env ''EXIT'' = Some (Native PrimExit)" using assms(1) by (simp_all add: linked_def)
  have c: "0 < reg_IP s" "reg_IP s < int (length (cells s))" "cells s ! nat (reg_IP s) = cell_of (vdict s) ''EXIT''"
    using assms(3) by (simp_all add: seg_Cons)
  note n = next_ip [OF ok(1), of "reg_IP s + 1"]
  obtain t where t: "R_pop ?s = (Inr ip, t)" "goes_to ?s (ds s) r (reg_IP s + 1) (vprinted s) t"
    using R_pop_goes [of ?s ip r] goes_to_sel [OF n] assms(2) by auto
  have "goes_to s (ds s) r ip (vprinted s) (t\<lparr>reg_IP := ip, reg_PC := - 99\<rparr>)"
    by (intro goes_to_regs(2) goes_to_regs(1) [OF goes_to_trans [OF n t(2)]])
  with step_cells(1) [OF assms(1) ok(2) c] t(1) show ?thesis by (auto simp: signal_next_def)
qed

lemma runs_inner:
  "runs env k ws c c' \<Longrightarrow> linked s env \<Longrightarrow> c = (ds s, vprinted s) \<Longrightarrow> seg s (reg_IP s) ws \<Longrightarrow> length (rs s) + k \<le> 1024 \<Longrightarrow>
     \<exists>t. inner_loop s = inner_loop t \<and> goes_to s (fst c') (rs s) (reg_IP s + int (length ws)) (snd c') t"
proof (induction arbitrary: s rule: runs.induct)
  case (runs_nil k c)
  then show ?case using goes_to_self [of s] by (auto simp: linked_def)
next
  case (runs_native x p c c1 k ws c2)
  obtain t where t: "inner_loop s = inner_loop t" "goes_to s (fst c1) (rs s) (reg_IP s + 1) (snd c1) t"
    using native_step [OF runs_native.prems(1) runs_native.hyps(1)] runs_native.hyps(2) runs_native.prems(2,3)
    by (metis prod.collapse)
  note ts = goes_to_sel [OF t(2)]
  have "seg t (reg_IP t) ws" using runs_native.prems(3) seg_kept [OF ts(11)] ts(4) by (simp add: seg_Cons)
  with runs_native.IH [OF linked_kept [OF ts(11) runs_native.prems(1)]] ts runs_native.prems(4)
  obtain u where "inner_loop t = inner_loop u" "goes_to t (fst c2) (rs s) (reg_IP s + 1 + int (length ws)) (snd c2) u"
    by auto
  with t(1) goes_to_trans [OF t(2)] show ?case by (auto simp: ac_simps)
next
  case (runs_literal x y n d k ws ou c2)
  then have d: "d = ds s" "ou = vprinted s" by simp_all
  obtain t where t: "inner_loop s = inner_loop t" "goes_to s (n # d) (rs s) (reg_IP s + 2) ou t"
    using literal_step [OF runs_literal.prems(1) runs_literal.hyps(1-3)] runs_literal.hyps(4) runs_literal.prems(3) d by blast
  note ts = goes_to_sel [OF t(2)]
  have "seg t (reg_IP t) ws" using runs_literal.prems(3) seg_kept [OF ts(11)] ts(4) by (simp add: seg_Cons add.commute)
  with runs_literal.IH [OF linked_kept [OF ts(11) runs_literal.prems(1)]] ts runs_literal.prems(4)
  obtain u where "inner_loop t = inner_loop u" "goes_to t (fst c2) (rs s) (reg_IP s + 2 + int (length ws)) (snd c2) u"
    by auto
  with t(1) goes_to_trans [OF t(2)] show ?case by (auto simp: ac_simps)
next
  case (runs_thread x bs k c c1 ws c2)
  have room: "length (rs s) < 1024" using runs_thread.prems(4) by simp
  obtain t a where t: "inner_loop s = inner_loop t" "goes_to s (ds s) ((reg_IP s + 1) # rs s) a (vprinted s) t"
      "seg t a (bs @ [''EXIT''])"
    using thread_step [OF runs_thread.prems(1) runs_thread.hyps(1) room runs_thread.prems(3)] by blast
  note ts = goes_to_sel [OF t(2)]
  have tl: "linked t env" by (rule linked_kept [OF ts(11) runs_thread.prems(1)])
  have b: "seg t a bs" "seg t (a + int (length bs)) [''EXIT'']"
    using t(3) code_at_addr_append [of "cells t" a "map (cell_of (vdict t)) bs"] by (simp_all add: seg_def)
  obtain u where u: "inner_loop t = inner_loop u" "goes_to t (fst c1) ((reg_IP s + 1) # rs s) (a + int (length bs)) (snd c1) u"
    using runs_thread.IH(1) [OF tl] ts b(1) runs_thread.prems(2,4) by auto
  note us = goes_to_sel [OF u(2)]
  have ul: "linked u env" by (rule linked_kept [OF us(11) tl])
  obtain v where v: "inner_step u = (Inr (), v)" "goes_to u (fst c1) (rs s) (reg_IP s + 1) (snd c1) v"
    using exit_step [OF ul us(3)] b(2) seg_kept [OF us(11)] us by auto
  have g: "goes_to s (fst c1) (rs s) (reg_IP s + 1) (snd c1) v"
    by (rule goes_to_trans [OF goes_to_trans [OF t(2) u(2)] v(2)])
  note vs = goes_to_sel [OF g]
  have pos: "0 < reg_IP s" using runs_thread.prems(3) by (simp add: seg_Cons)
  have "seg v (reg_IP v) ws" using runs_thread.prems(3) seg_kept [OF vs(11)] vs(4) by (simp add: seg_Cons)
  then obtain w where w: "inner_loop v = inner_loop w" "goes_to v (fst c2) (rs s) (reg_IP s + 1 + int (length ws)) (snd c2) w"
    using runs_thread.IH(2) [OF linked_kept [OF vs(11) runs_thread.prems(1)]] vs runs_thread.prems(4) by auto
  have "inner_loop u = inner_loop v" using inner_loop_step [OF v(1)] vs(4) pos by simp
  with t(1) u(1) w(1) goes_to_trans [OF g w(2)] show ?case by (auto simp: ac_simps)
qed

subsection \<open>Compiling keeps the machine linked\<close>

text \<open>The cells of \<open>vs\<close> appended at \<^verbatim>\<open>here\<close>.\<close>

definition grown_by :: "demo_vm \<Rightarrow> int list \<Rightarrow> demo_vm \<Rightarrow> bool" where
  "grown_by s vs t \<longleftrightarrow> layout_ok t \<and> cells t = put_cells (cells s) (nat (vhere s)) vs \<and> vhere t = vhere s + int (length vs) \<and>
     region (dstk t) = region (dstk s) \<and> region (rstk t) = region (rstk s) \<and> vdict t = vdict s \<and> vprims t = vprims s \<and>
     ds t = ds s \<and> rs t = rs s \<and> reg_IP t = reg_IP s \<and> vprinted t = vprinted s"

lemma grown_by_Nil: "layout_ok s \<Longrightarrow> grown_by s [] s"
  by (simp add: grown_by_def)

lemma grown_by_append:
  assumes "grown_by s us t" and "grown_by t vs u" and "0 \<le> vhere s" and "vhere s + int (length us + length vs) \<le> int (length (cells s))"
  shows "grown_by s (us @ vs) u"
proof -
  have "nat (vhere s + int (length us)) = nat (vhere s) + length us" using assms(3) by simp
  moreover have "nat (vhere s) + length us + length vs \<le> length (cells s)" using assms(3,4) by linarith
  ultimately show ?thesis
    using assms(1,2) by (simp add: grown_by_def put_cells_append)
qed

lemma append_here_grows:
  assumes "layout_ok s" and "0 \<le> vhere s" and "vhere s < int (length (cells s))"
  shows "\<exists>t. append_here v s = (Inr (), t) \<and> grown_by s [v] t"
proof -
  let ?t = "s\<lparr>mem := (mem s)[nat (vhere s) := v], vhere := vhere s + 1\<rparr>"
  note st = store_cell_low [OF assms, of v]
  have "nat (vhere s) < length (cells s)" using assms(2,3) by linarith
  with st have "grown_by s [v] ?t"
    by (simp add: grown_by_def put_cells_Cons layout_ok_def cells_def ds_def rs_def)
  then show ?thesis using st(1) by (simp add: append_here_def)
qed

lemma compile_cell_of: "vdict s w \<noteq> None \<or> py_int w \<noteq> None \<Longrightarrow> compile_cell w s = (Inr (cell_of (vdict s) w), s)"
  by (auto simp: compile_cell_def cell_of_def split: option.splits)

lemma compile_words_grow:
  assumes "layout_ok s" and "0 \<le> vhere s" and "vhere s + int (length ws) \<le> int (length (cells s))"
    and "list_all (\<lambda>w. vdict s w \<noteq> None \<or> py_int w \<noteq> None) ws"
  shows "\<exists>t. each (\<lambda>w. chain (compile_cell w) append_here) ws s = (Inr (), t) \<and> grown_by s (map (cell_of (vdict s)) ws) t"
  using assms
proof (induction ws arbitrary: s)
  case Nil
  then show ?case by (simp add: grown_by_Nil)
next
  case (Cons w ws)
  obtain t where t: "append_here (cell_of (vdict s) w) s = (Inr (), t)" "grown_by s [cell_of (vdict s) w] t"
    using append_here_grows [of s] Cons.prems(1-3) by auto
  then have ts: "layout_ok t" "vhere t = vhere s + 1" "length (cells t) = length (cells s)" "vdict t = vdict s"
    using Cons.prems(2,3) by (auto simp: grown_by_def)
  obtain u where u: "each (\<lambda>w. chain (compile_cell w) append_here) ws t = (Inr (), u)"
      "grown_by t (map (cell_of (vdict s)) ws) u"
    using Cons.IH [of t] Cons.prems ts by auto
  have "compile_cell w s = (Inr (cell_of (vdict s) w), s)" using Cons.prems(4) by (intro compile_cell_of) simp
  with t(1) u(1) grown_by_append [OF t(2) u(2)] Cons.prems(2,3) show ?case by simp
qed

lemma code_at_addr_grown:
  assumes "b + length xs \<le> length m"
  shows "code_at_addr m a vs \<Longrightarrow> a + int (length vs) \<le> int b \<Longrightarrow> code_at_addr (put_cells m b xs) a vs"
    and "0 < b \<Longrightarrow> code_at_addr (put_cells m b xs) (int b) xs"
proof -
  assume v: "code_at_addr m a vs" "a + int (length vs) \<le> int b"
  then have a: "0 < a" "nat a + length vs \<le> b" by (auto simp: code_at_addr_def)
  have "slice (put_cells m b xs) (nat a) (nat a + length vs) = slice m (nat a) (nat a + length vs)"
    using a assms by (intro nth_equalityI) (auto simp: nth_put_cells)
  with v a assms show "code_at_addr (put_cells m b xs) a vs" by (auto simp: code_at_addr_def)
next
  assume "0 < b"
  moreover have "slice (put_cells m b xs) b (b + length xs) = xs"
    using assms by (intro nth_equalityI) (auto simp: nth_put_cells)
  ultimately show "code_at_addr (put_cells m b xs) (int b) xs" using assms by (simp add: code_at_addr_def)
qed

lemma primitive_at_update: "x \<notin> fst ` set ps \<Longrightarrow> primitive_at ps (d(x \<mapsto> a)) w = primitive_at ps d w"
  by (induction ps) (auto split: option.splits)

lemma cell_of_update: "w \<noteq> x \<Longrightarrow> cell_of (d(x \<mapsto> a)) w = cell_of d w"
  by (simp add: cell_of_def)

text \<open>The name entered at \<^verbatim>\<open>here\<close>, then the cells of the definition appended.\<close>

lemma word_at_grown:
  assumes "word_at s a m" and "linked s env" and "vdict s x = None" and "py_int x = None"
    and "grown_by (s\<lparr>vdict := (vdict s)(x \<mapsto> b)\<rparr>) vs t" and "vhere s + int (length vs) \<le> int (length (cells s))"
  shows "word_at t a m"
proof -
  let ?s = "s\<lparr>vdict := (vdict s)(x \<mapsto> b)\<rparr>"
  have t: "cells t = put_cells (cells s) (nat (vhere s)) vs" "vdict t = (vdict s)(x \<mapsto> b)" "vprims t = vprims s"
      "vhere t = vhere s + int (length vs)"
    using assms(5) by (simp_all add: grown_by_def cells_def)
  have h: "nat (vhere s) + length vs \<le> length (cells s)" "int (nat (vhere s)) = vhere s"
    using assms(2,6) by (auto simp: linked_def)
  have "x \<notin> fst ` set (vprims s)"
    using assms(2,3) unfolding linked_def by fastforce
  note prim = primitive_at_update [OF this]
  show ?thesis
  proof (cases m)
    case (Native p)
    with assms(1) t h prim code_at_addr_grown(1) [OF h(1), of a "[- 1]"] show ?thesis by simp
  next
    case (Thread ws)
    have "list_all (\<lambda>w. w \<noteq> x) ws" using assms(1,3,4) Thread by (auto simp: list_all_iff)
    moreover have "x \<noteq> ''EXIT''" using assms(2,3) unfolding linked_def by (metis option.distinct(1))
    ultimately have same: "map (cell_of (vdict t)) (ws @ [''EXIT'']) = map (cell_of (vdict s)) (ws @ [''EXIT''])"
      by (auto simp: t cell_of_update list_all_iff)
    have "code_at_addr (cells t) a (- 2 # map (cell_of (vdict t)) (ws @ [''EXIT'']))"
      unfolding same unfolding t(1) using assms(1) h Thread by (intro code_at_addr_grown(1) [OF h(1)]) simp_all
    moreover have "list_all (\<lambda>w. vdict t w \<noteq> None \<or> py_int w \<noteq> None) ws"
      using assms(1) Thread by (auto simp: t(2) list_all_iff)
    ultimately show ?thesis using assms(1) Thread t(4) by simp
  qed
qed

lemma add_colon_grows:
  assumes "linked s env" and "x \<noteq> ''DOCOL''" and "vhere s + int (length ws) + 2 \<le> int (length (cells s))"
    and "list_all (\<lambda>w. w = x \<or> vdict s w \<noteq> None \<or> py_int w \<noteq> None) ws"
  defines "d \<equiv> (vdict s)(x \<mapsto> vhere s)"
  shows "\<exists>t. add_colon x ws s = (Inr (), t) \<and>
     grown_by (s\<lparr>vdict := d\<rparr>) (- 2 # map (cell_of d) (ws @ [''EXIT''])) t"
proof -
  let ?s = "s\<lparr>vdict := d\<rparr>"
  have "vdict s ''EXIT'' \<noteq> None" using assms(1) unfolding linked_def by blast
  then have s: "layout_ok ?s" "0 \<le> vhere s" "cells ?s = cells s" and docol: "d ''DOCOL'' = Some (- 2)" and exit: "d ''EXIT'' \<noteq> None"
    using assms(1,2) by (auto simp: linked_def layout_ok_def cells_def d_def)
  have docol': "lookup_word ''DOCOL'' ?s = (Inr (- 2), ?s)" using docol by (simp add: lookup_word_def)
  obtain a where a: "append_here (- 2) ?s = (Inr (), a)" "grown_by ?s [- 2] a"
    using append_here_grows [OF s(1), of "- 2"] s assms(3) by auto
  then have as: "layout_ok a" "vhere a = vhere s + 1" "length (cells a) = length (cells s)" "vdict a = d"
    using s assms(3) by (auto simp: grown_by_def)
  have "list_all (\<lambda>w. vdict a w \<noteq> None \<or> py_int w \<noteq> None) ws"
    using assms(4) as(4) by (auto simp: d_def list_all_iff)
  then obtain b where b: "each (\<lambda>w. chain (compile_cell w) append_here) ws a = (Inr (), b)" "grown_by a (map (cell_of d) ws) b"
    using compile_words_grow [OF as(1), of ws] as s(2) assms(3) by auto
  have sb: "grown_by ?s (- 2 # map (cell_of d) ws) b"
    using grown_by_append [OF a(2) b(2)] s assms(3) by simp
  then have bs: "layout_ok b" "vhere b = vhere s + 1 + int (length ws)" "length (cells b) = length (cells s)" "vdict b = d"
    using s assms(3) by (auto simp: grown_by_def)
  have exit': "lookup_word ''EXIT'' b = (Inr (cell_of d ''EXIT''), b)"
    using exit bs(4) by (auto simp: lookup_word_def cell_of_def)
  obtain t where t: "append_here (cell_of d ''EXIT'') b = (Inr (), t)" "grown_by b [cell_of d ''EXIT''] t"
    using append_here_grows [OF bs(1), of "cell_of d ''EXIT''"] bs s(2) assms(3) by auto
  have "add_colon x ws s = (Inr (), t)"
    using docol' a(1) b(1) exit' t(1) by (simp add: add_colon_def d_def)
  moreover have "grown_by ?s (- 2 # map (cell_of d) (ws @ [''EXIT''])) t"
    using grown_by_append [OF sb t(2)] s assms(3) by simp
  ultimately show ?thesis by blast
qed

lemma add_colon_linked:
  assumes "linked s env" and "vdict s x = None" and "py_int x = None"
    and "vhere s + int (length ws) + 2 \<le> int (length (cells s))"
    and "list_all (\<lambda>w. w = x \<or> vdict s w \<noteq> None \<or> py_int w \<noteq> None) ws"
  shows "\<exists>t. add_colon x ws s = (Inr (), t) \<and> linked t (env(x \<mapsto> Thread ws)) \<and>
     ds t = ds s \<and> rs t = rs s \<and> reg_IP t = reg_IP s \<and> vprinted t = vprinted s \<and>
     vprims t = vprims s \<and> vdict t = (vdict s)(x \<mapsto> vhere s) \<and> vhere t = vhere s + int (length ws) + 2 \<and>
     length (cells t) = length (cells s)"
proof -
  let ?d = "(vdict s)(x \<mapsto> vhere s)"
  let ?vs = "- 2 # map (cell_of ?d) (ws @ [''EXIT''])"
  have "x \<noteq> ''DOCOL''" using assms(1,2) by (auto simp: linked_def)
  then obtain t where t: "add_colon x ws s = (Inr (), t)" "grown_by (s\<lparr>vdict := ?d\<rparr>) ?vs t"
    using add_colon_grows [OF assms(1) _ assms(4,5)] by blast
  have l: "layout_ok s" "0 < vhere s" "region (dstk s) = 1024" "region (rstk s) = 1024" "env ''EXIT'' = Some (Native PrimExit)"
      "vdict s ''DOCOL'' = Some (- 2)" "\<And>y. vdict s y \<noteq> None \<Longrightarrow> py_int y = None" "\<forall>(y, p) \<in> set (vprims s). env y \<noteq> None"
      "\<And>y m. env y = Some m \<Longrightarrow> \<exists>a. vdict s y = Some a \<and> word_at s a m"
    using assms(1) by (auto simp: linked_def)
  have ts: "layout_ok t" "cells t = put_cells (cells s) (nat (vhere s)) ?vs" "vhere t = vhere s + int (length ?vs)" "vdict t = ?d"
      "vprims t = vprims s" "region (dstk t) = 1024" "region (rstk t) = 1024"
      "ds t = ds s" "rs t = rs s" "reg_IP t = reg_IP s" "vprinted t = vprinted s"
    using t(2) l by (simp_all add: grown_by_def cells_def ds_def rs_def)
  have h: "nat (vhere s) + length ?vs \<le> length (cells s)" "int (nat (vhere s)) = vhere s" "0 < nat (vhere s)"
    using assms(4) l(2) by auto
  have no: "env x = None" using l(9) assms(2) by (metis not_Some_eq)
  then have x: "x \<noteq> ''EXIT''" "x \<noteq> ''DOCOL''" using l(5,6) assms(2) by auto
  have new: "word_at t (vhere s) (Thread ws)"
    using code_at_addr_grown(2) [OF h(1,3)] ts assms(5) h(2) by (auto simp: list_all_iff)
  have old: "word_at t a m" if "word_at s a m" for a m
    using word_at_grown [OF that assms(1-3) t(2)] assms(4) by simp
  have "\<exists>a. vdict t y = Some a \<and> word_at t a m" if "(env(x \<mapsto> Thread ws)) y = Some m" for y m
  proof (cases "y = x")
    case True
    with that new ts(4) show ?thesis by auto
  next
    case False
    then have "env y = Some m" using that by simp
    from l(9) [OF this] old False ts(4) show ?thesis by auto
  qed
  moreover have "vhere t \<le> int (length (cells t))" using ts(2,3) h by simp
  ultimately have "linked t (env(x \<mapsto> Thread ws))"
    using ts l x assms(3) by (auto simp: linked_def)
  moreover have "length (cells t) = length (cells s)" using ts(2) h by simp
  moreover have "vhere t = vhere s + int (length ws) + 2" using ts(3) by simp
  ultimately show ?thesis using t(1) ts by blast
qed

text \<open>
  C38. Compiling a colon definition of the first prototype under a name that is new keeps the machine linked: every name of the
  environment, the new one included, has its code in memory at its address, and the stacks and output are untouched. (A name defined
  again unlinks the definitions made before, \<open>redefined_primitive_skipped\<close>.)
\<close>

theorem add_colon_links:
  assumes "linked s env" and "vdict s x = None" and "py_int x = None"
    and "vhere s + int (length ws) + 2 \<le> int (length (cells s))"
    and "list_all (\<lambda>w. w = x \<or> vdict s w \<noteq> None \<or> py_int w \<noteq> None) ws"
  shows "\<exists>t. add_colon x ws s = (Inr (), t) \<and> linked t (env(x \<mapsto> Thread ws)) \<and>
     ds t = ds s \<and> rs t = rs s \<and> reg_IP t = reg_IP s \<and> vprinted t = vprinted s"
  using add_colon_linked [OF assms] by blast

text \<open>
  C37. The inner interpreter of the first prototype runs a compiled colon definition as its words mean: called with \<^verbatim>\<open>IP\<close> 0, it returns,
  with the data stack and output its words lead to, the return stack as before and \<^verbatim>\<open>IP\<close> 0 again. The words lead nowhere where a
  stack has no room or value for one, or where \<^verbatim>\<open>.\<close> meets a number of more than 4300 digits.
\<close>

theorem thread_runs:
  assumes "linked s env" and "env x = Some (Thread ws)" and "runs env k ws (ds s, vprinted s) (d, ou)"
    and "length (rs s) + k < 1024" and "reg_IP s = 0"
  shows "\<exists>t. run_word x s = Some (Inr (), t) \<and> code_kept s t \<and> ds t = d \<and> vprinted t = ou \<and> rs t = rs s \<and> reg_IP t = 0"
proof -
  obtain a where a: "vdict s x = Some a" "word_at s a (Thread ws)" using assms(1,2) unfolding linked_def by blast
  have ok: "layout_ok s" "region (rstk s) = 1024" using assms(1) by (simp_all add: linked_def)
  have c: "0 < a" "a < int (length (cells s))" "cells s ! nat a = - 2" "seg s (a + 1) (ws @ [''EXIT''])"
    using a(2) by (simp_all add: code_at_addr_Cons seg_def)
  have "load_cell a s = (Inr (- 2), s)" using load_cell_low [OF ok(1), of a] c by simp
  moreover obtain t where t: "enter_colon a s = (Inr (), t)" "goes_to s (ds s) (0 # rs s) (a + 1) (vprinted s) t"
    using enter_goes [OF ok(1), of a] ok(2) assms(4,5) by auto
  ultimately have run: "run_word x s = inner_loop t" using a(1) by (simp add: run_word_def lookup_word_def)
  note ts = goes_to_sel [OF t(2)]
  have tl: "linked t env" by (rule linked_kept [OF ts(11) assms(1)])
  have b: "seg t (reg_IP t) ws" "seg t (a + 1 + int (length ws)) [''EXIT'']"
    using c(4) ts(4,8,9) code_at_addr_append [of "cells s" "a + 1" "map (cell_of (vdict s)) ws"]
    by (simp_all add: seg_def)
  obtain u where u: "inner_loop t = inner_loop u" "goes_to t d (0 # rs s) (a + 1 + int (length ws)) ou u"
    using runs_inner [OF assms(3) tl _ b(1)] ts assms(4) by auto
  note us = goes_to_sel [OF u(2)]
  have ul: "linked u env" by (rule linked_kept [OF us(11) tl])
  obtain v where v: "inner_step u = (Inr (), v)" "goes_to u d (rs s) 0 ou v"
    using exit_step [OF ul us(3)] b(2) seg_kept [OF us(11)] us by auto
  note vs = goes_to_sel [OF v(2)]
  have "inner_loop u = Some (Inr (), v)" using v(1) vs(4) by (subst inner_loop.simps) simp
  with run u(1) vs code_kept_trans [OF code_kept_trans [OF ts(11) us(11)] vs(11)] show ?thesis by simp
qed

subsection \<open>The demo\<close>

definition DEMO_PRIMITIVES :: "(string \<times> primitive_fn) list" where
  "DEMO_PRIMITIVES = [(''EXIT'', PrimExit), (''LIT'', PrimLit), (''DUP'', PrimDup), (''*'', PrimMul), (''.'', PrimDot)]"

definition demo_env :: demo_env where
  "demo_env = map_of (map (\<lambda>(x, p). (x, Native p)) DEMO_PRIMITIVES)"

definition demo_machine :: demo_vm where
  "demo_machine = (demo_cpu 65536)\<lparr>
     mem := (replicate 65536 0)[4096 := - 1, 4097 := - 1, 4098 := - 1, 4099 := - 1, 4100 := - 1],
     vdict := [''EXIT'' \<mapsto> 4096, ''LIT'' \<mapsto> 4097, ''DUP'' \<mapsto> 4098, ''*'' \<mapsto> 4099, ''.'' \<mapsto> 4100, ''DOCOL'' \<mapsto> - 2],
     vhere := 4101, vprims := DEMO_PRIMITIVES\<rparr>"

lemma demo_start_machine: "demo_start = (Inr (), demo_machine)"
  by (simp add: demo_start_def demo_machine_def vm_init_def install_primitive_def store_cell_def demo_cpu_def
      DEMO_PRIMITIVES_def)

lemma demo_machine_sel:
  "layout_ok demo_machine" "ds demo_machine = []" "rs demo_machine = []" "region (dstk demo_machine) = 1024"
  "region (rstk demo_machine) = 1024" "length (cells demo_machine) = 63488" "reg_IP demo_machine = 0" "vprinted demo_machine = []"
  "vhere demo_machine = 4101"
  by (simp_all add: demo_machine_def demo_cpu_def stack_new_def layout_ok_def stack_ok_def ds_def rs_def content_def
      region_def cells_def)

lemma demo_cells: "4096 \<le> i \<Longrightarrow> i < 4101 \<Longrightarrow> cells demo_machine ! i = - 1"
proof -
  assume i: "4096 \<le> i" "i < 4101"
  then have "cells demo_machine ! i = (replicate 65536 0)[4096 := - 1, 4097 := - 1, 4098 := - 1, 4099 := - 1, 4100 := - 1 :: int] ! i"
    by (simp add: demo_machine_def demo_cpu_def stack_new_def cells_def)
  also have "\<dots> = - 1" using i by (auto simp: nth_list_update)
  finally show ?thesis .
qed

lemma py_int_names:
  "py_int ''EXIT'' = None" "py_int ''LIT'' = None" "py_int ''DUP'' = None" "py_int ''*'' = None" "py_int ''.'' = None"
  "py_int ''DOCOL'' = None" "py_int ''SQUARE'' = None"
  by (simp_all add: py_int_def literal_evals text_simps)

lemma demo_linked: "linked demo_machine demo_env"
proof -
  have code: "code_at_addr (cells demo_machine) a [- 1]" if "4096 \<le> a" "a < 4101" for a
    using that demo_cells [of "nat a"] by (simp add: code_at_addr_Cons demo_machine_sel) (simp add: code_at_addr_def demo_machine_sel)
  have "\<exists>a. vdict demo_machine x = Some a \<and> word_at demo_machine a m" if "demo_env x = Some m" for x m
    using that code
    by (auto simp: demo_env_def demo_machine_def DEMO_PRIMITIVES_def split: if_splits)
  moreover have "\<forall>x. vdict demo_machine x \<noteq> None \<longrightarrow> py_int x = None"
    by (auto simp: demo_machine_def py_int_names)
  ultimately show ?thesis
    by (simp add: linked_def demo_machine_sel) (simp add: demo_machine_def demo_env_def DEMO_PRIMITIVES_def)
qed

theorem add_colon_links_witness:
  "\<exists>t. add_colon ''SQUARE'' [''DUP'', ''*''] demo_machine = (Inr (), t) \<and>
     linked t (demo_env(''SQUARE'' \<mapsto> Thread [''DUP'', ''*'']))"
proof -
  have "vdict demo_machine ''SQUARE'' = None" by (simp add: demo_machine_def)
  moreover have "list_all (\<lambda>w. w = ''SQUARE'' \<or> vdict demo_machine w \<noteq> None \<or> py_int w \<noteq> None) [''DUP'', ''*'']"
    by (simp add: demo_machine_def)
  ultimately show ?thesis
    using add_colon_links [OF demo_linked _ py_int_names(7), of "[''DUP'', ''*'']"] by (auto simp: demo_machine_sel)
qed

text \<open>\<^verbatim>\<open>: SQUARE DUP * ;\<close> on the demo machine, and \<^verbatim>\<open>3 SQUARE .\<close> at its prompt.\<close>

definition square_env :: demo_env where
  "square_env = demo_env(''SQUARE'' \<mapsto> Thread [''DUP'', ''*''])"

lemma square_env_sel:
  "square_env ''SQUARE'' = Some (Thread [''DUP'', ''*''])" "square_env ''DUP'' = Some (Native PrimDup)"
  "square_env ''*'' = Some (Native PrimMul)" "square_env ''.'' = Some (Native PrimDot)"
  by (simp_all add: square_env_def demo_env_def DEMO_PRIMITIVES_def)

lemma square_machine:
  "\<exists>t. add_colon ''SQUARE'' [''DUP'', ''*''] demo_machine = (Inr (), t) \<and> linked t square_env \<and> ds t = [] \<and> rs t = [] \<and>
     reg_IP t = 0 \<and> vprinted t = [] \<and> vprims t = DEMO_PRIMITIVES \<and> vdict t = (vdict demo_machine)(''SQUARE'' \<mapsto> 4101) \<and>
     vhere t = 4105 \<and> length (cells t) = 63488"
proof -
  have "vdict demo_machine ''SQUARE'' = None" "vprims demo_machine = DEMO_PRIMITIVES" by (simp_all add: demo_machine_def)
  moreover have "list_all (\<lambda>w. w = ''SQUARE'' \<or> vdict demo_machine w \<noteq> None \<or> py_int w \<noteq> None) [''DUP'', ''*'']"
    by (simp add: demo_machine_def)
  ultimately show ?thesis
    using add_colon_linked [OF demo_linked _ py_int_names(7), of "[''DUP'', ''*'']"]
    by (auto simp: demo_machine_sel square_env_def)
qed

lemma square_tokens: "py_split (strip ''3 SQUARE .'') = [''3'', ''SQUARE'', ''.'']"
  by (simp add: py_split.simps first_field_def strip_def lstrip_def text_simps)

lemma square_token_kinds:
  "isdigit ''3''" "py_int ''3'' = Some 3" "\<not> isdigit ''SQUARE''" "\<not> isdigit ''.''"
  by (simp_all add: isdigit_def py_int_def literal_evals text_simps)

lemma run_native:
  assumes "layout_ok s" and "vdict s x = Some a" and "code_at_addr (cells s) a [- 1]" and "map_of (vprims s) x = Some p"
  shows "run_word x s = Some (call_primitive p s)"
  using load_cell_low [OF assms(1), of a] assms(2-4)
  by (auto simp: run_word_def lookup_word_def code_at_addr_Cons)

theorem thread_runs_witness:
  "\<exists>t u. add_colon ''SQUARE'' [''DUP'', ''*''] demo_machine = (Inr (), t) \<and> repl ''3 SQUARE .'' t = Some (Inr (), u) \<and>
     vprinted u = [''9'']"
proof -
  obtain s where s: "add_colon ''SQUARE'' [''DUP'', ''*''] demo_machine = (Inr (), s)" "linked s square_env"
      "ds s = []" "rs s = []" "reg_IP s = 0" "vprinted s = []" "vprims s = DEMO_PRIMITIVES"
      "vdict s = (vdict demo_machine)(''SQUARE'' \<mapsto> 4101)"
    using square_machine by blast
  have ok: "layout_ok s" "region (dstk s) = 1024" using s(2) by (simp_all add: linked_def)
  obtain a where a: "D_push 3 s = (Inr (), a)" "goes_to s [3] [] 0 [] a" using D_push_goes [OF ok(1), of 3] ok(2) s by auto
  note as = goes_to_sel [OF a(2)]
  have "runs square_env 0 [''*''] ([3, 3], []) ([9], [])"
    by (rule runs_native [where p = PrimMul and ?c1.0 = "([9], [])"]) (simp_all add: square_env_sel runs_nil)
  then have "runs square_env 0 [''DUP'', ''*''] ([3], []) ([9], [])"
    by (rule runs_native [where p = PrimDup and ?c1.0 = "([3, 3], [])", rotated 2]) (simp_all add: square_env_sel)
  then have "runs square_env 0 [''DUP'', ''*''] (ds a, vprinted a) ([9], [])" using as by simp
  from thread_runs [OF linked_kept [OF as(11) s(2)] square_env_sel(1) this] as(3,4)
  obtain b where b: "run_word ''SQUARE'' a = Some (Inr (), b)" "code_kept a b" "ds b = [9]" "vprinted b = []"
    unfolding as(3) by (metis add_0_right list.size(3) zero_less_numeral)
  have bs: "layout_ok b" "region (dstk b) = 1024" "vprims b = DEMO_PRIMITIVES" "vdict b = vdict s" "linked b square_env"
    using b(2) as s(7) ok(2) linked_kept [OF code_kept_trans [OF as(11) b(2)] s(2)] by (simp_all add: code_kept_def)
  obtain w where w: "vdict b ''.'' = Some w" "code_at_addr (cells b) w [- 1]"
    using linked_word [OF bs(5) square_env_sel(4)] by auto
  obtain c where c: "call_primitive PrimDot b = (Inr (), c)" "vprinted c = [''9'']"
    using native_goes [OF bs(1,2), of PrimDot "[]" "[''9'']"] b(3,4) by (auto simp: goes_to_def print_text_def py_str_int_def decimal.simps)
  have "run_word ''.'' b = Some (Inr (), c)"
    using run_native [OF bs(1) w, of PrimDot] bs(3) c(1) by (simp add: DEMO_PRIMITIVES_def)
  moreover have "vdict a ''SQUARE'' \<noteq> None" using as(9) s(8) by simp
  ultimately have "repl ''3 SQUARE .'' s = Some (Inr (), c)"
    using a(1) b(1) w(1) by (simp add: repl_def square_tokens square_token_kinds)
  with s(1) c(2) show ?thesis by blast
qed

subsection \<open>Redefining a primitive\<close>

lemma inner_step_primitive:
  assumes "layout_ok s" and "code_at_addr (cells s) (reg_IP s) [w]" and "code_at_addr (cells s) w [- 1]"
    and "primitive_at (vprims s) (vdict s) w = Inr q"
  shows "inner_step s = (case q of Some fn \<Rightarrow> call_primitive fn | None \<Rightarrow> pure ()) (s\<lparr>reg_IP := reg_IP s + 1\<rparr>)"
proof -
  let ?s = "s\<lparr>reg_IP := reg_IP s + 1\<rparr>"
  have "layout_ok ?s" "cells ?s = cells s" using assms(1) by (simp_all add: layout_ok_def cells_def)
  then have "load_cell (reg_IP s) s = (Inr w, s)" "load_cell w ?s = (Inr (- 1), ?s)"
    using load_cell_low [OF assms(1), of "reg_IP s"] load_cell_low [of ?s w] assms(2,3) by (simp_all add: code_at_addr_Cons)
  then show ?thesis using assms(4) by (simp add: inner_step_def)
qed

text \<open>What the run of \<^verbatim>\<open>SQUARE\<close> needs of a machine where \<^verbatim>\<open>DUP\<close> has been defined again.\<close>

lemma skipping_square:
  assumes "layout_ok s" and "region (dstk s) = 1024" and "region (rstk s) = 1024" and "vdict s ''SQUARE'' = Some 4101"
    and "code_at_addr (cells s) 4101 [- 2, 4098, 4099, 4096]"
    and "\<And>w. w \<in> {4096, 4098, 4099} \<Longrightarrow> code_at_addr (cells s) w [- 1]"
    and "primitive_at (vprims s) (vdict s) 4098 = Inr None" "primitive_at (vprims s) (vdict s) 4099 = Inr (Some PrimMul)"
    "primitive_at (vprims s) (vdict s) 4096 = Inr (Some PrimExit)"
    and "ds s = a # b # d" and "rs s = []" and "reg_IP s = 0"
  shows "\<exists>t. run_word ''SQUARE'' s = Some (Inr (), t) \<and> ds t = b * a # d \<and> rs t = [] \<and> reg_IP t = 0"
proof -
  have code: "code_at_addr (cells s) 4102 [4098]" "code_at_addr (cells s) 4103 [4099]" "code_at_addr (cells s) 4104 [4096]"
    using code_at_addr_append [of "cells s" 4101 "[- 2]" "[4098, 4099, 4096]"]
      code_at_addr_append [of "cells s" 4102 "[4098]" "[4099, 4096]"] code_at_addr_append [of "cells s" 4103 "[4099]" "[4096]"] assms(5)
    by simp_all
  have "load_cell 4101 s = (Inr (- 2), s)" using load_cell_low [OF assms(1), of 4101] assms(5) by (simp add: code_at_addr_Cons)
  moreover obtain t where t: "enter_colon 4101 s = (Inr (), t)" "goes_to s (a # b # d) [0] 4102 (vprinted s) t"
    using enter_goes [OF assms(1), of 4101] assms(3,10-12) by auto
  ultimately have run: "run_word ''SQUARE'' s = inner_loop t" using assms(4) by (simp add: run_word_def lookup_word_def)
  note ts = goes_to_sel [OF t(2)]
  let ?u = "t\<lparr>reg_IP := 4103\<rparr>"
  have "inner_step t = (Inr (), ?u)"
    using inner_step_primitive [OF ts(1), of 4098 None] code(1) assms(6,7) ts by simp
  then have u: "inner_loop t = inner_loop ?u" by (rule inner_loop_step) simp
  have gu: "goes_to s (a # b # d) [0] 4103 (vprinted s) ?u" by (rule goes_to_regs(1) [OF t(2)])
  note us = goes_to_sel [OF gu]
  let ?v = "?u\<lparr>reg_IP := 4104\<rparr>"
  have gv: "goes_to s (a # b # d) [0] 4104 (vprinted s) ?v" by (rule goes_to_regs(1) [OF gu])
  note vs = goes_to_sel [OF gv]
  obtain w where w: "call_primitive PrimMul ?v = (Inr (), w)" "goes_to ?v (b * a # d) [0] 4104 (vprinted s) w"
    using native_goes [OF vs(1), of PrimMul "b * a # d" "vprinted s"] vs assms(2) by (simp add: mult.commute) blast
  have gw: "goes_to s (b * a # d) [0] 4104 (vprinted s) w" by (rule goes_to_trans [OF gv w(2)])
  note ws = goes_to_sel [OF gw]
  have "inner_step ?u = (Inr (), w)"
    using inner_step_primitive [OF us(1), of 4099 "Some PrimMul"] code(2) assms(6,8) us w(1) by simp
  then have w': "inner_loop ?u = inner_loop w" by (rule inner_loop_step) (simp add: ws)
  let ?x = "w\<lparr>reg_IP := 4105\<rparr>"
  have gx: "goes_to s (b * a # d) [0] 4105 (vprinted s) ?x" by (rule goes_to_regs(1) [OF gw])
  note xs = goes_to_sel [OF gx]
  obtain y where y: "R_pop ?x = (Inr 0, y)" "goes_to ?x (b * a # d) [] 4105 (vprinted s) y"
    using R_pop_goes [OF xs(1), of 0 "[]"] xs by auto
  have "inner_step w = (Inr (), y\<lparr>reg_IP := 0, reg_PC := - 99\<rparr>)"
    using inner_step_primitive [OF ws(1), of 4096 "Some PrimExit"] code(3) assms(6,9) ws y(1) by (simp add: signal_next_def)
  then have "inner_loop w = Some (Inr (), y\<lparr>reg_IP := 0, reg_PC := - 99\<rparr>)" by (subst inner_loop.simps) simp
  moreover have "goes_to s (b * a # d) [] 0 (vprinted s) (y\<lparr>reg_IP := 0, reg_PC := - 99\<rparr>)"
    by (intro goes_to_regs(2) goes_to_regs(1) [OF goes_to_trans [OF gx y(2)]])
  ultimately show ?thesis using run u w' goes_to_sel(2-4) by (metis (no_types, lifting))
qed

lemma redefined_dup:
  assumes "linked s square_env" and "vprims s = DEMO_PRIMITIVES" and "vdict s = (vdict demo_machine)(''SQUARE'' \<mapsto> 4101)"
    and "vhere s = 4105" and "4107 + length bs \<le> length (cells s)"
    and "list_all (\<lambda>w. w \<in> set [''DUP'', ''*'', ''.'']) bs"
  shows "\<exists>t. add_colon ''DUP'' bs s = (Inr (), t) \<and> layout_ok t \<and> region (dstk t) = 1024 \<and> region (rstk t) = 1024 \<and>
     ds t = ds s \<and> rs t = rs s \<and> reg_IP t = reg_IP s \<and>
     (\<forall>u a b d. code_kept t u \<and> ds u = a # b # d \<and> rs u = [] \<and> reg_IP u = 0 \<longrightarrow>
       (\<exists>v. run_word ''SQUARE'' u = Some (Inr (), v) \<and> ds v = b * a # d))"
proof -
  let ?d = "(vdict s)(''DUP'' \<mapsto> vhere s)" and ?vs = "\<lambda>d. - 2 # map (cell_of d) (bs @ [''EXIT''])"
  have "list_all (\<lambda>w. w = ''DUP'' \<or> vdict s w \<noteq> None \<or> py_int w \<noteq> None) bs"
    using assms(6) by (auto simp: list_all_iff assms(3) demo_machine_def)
  moreover have "vhere s + int (length bs) + 2 \<le> int (length (cells s))" using assms(4,5) by linarith
  ultimately obtain t where t: "add_colon ''DUP'' bs s = (Inr (), t)" "grown_by (s\<lparr>vdict := ?d\<rparr>) (?vs ?d) t"
    using add_colon_grows [OF assms(1), of "''DUP''" bs] by auto
  have l: "layout_ok s" "region (dstk s) = 1024" "region (rstk s) = 1024" using assms(1) by (simp_all add: linked_def)
  have ts: "layout_ok t" "cells t = put_cells (cells s) 4105 (?vs ?d)" "vdict t = ?d" "vprims t = DEMO_PRIMITIVES"
      "region (dstk t) = 1024" "region (rstk t) = 1024" "ds t = ds s" "rs t = rs s" "reg_IP t = reg_IP s"
    using t(2) l assms(2,4) by (simp_all add: grown_by_def cells_def ds_def rs_def)
  have room: "4105 + length (?vs ?d) \<le> length (cells s)" using assms(5) by simp
  have addr: "vdict s ''SQUARE'' = Some 4101" "vdict s ''DUP'' = Some 4098" "vdict s ''*'' = Some 4099" "vdict s ''EXIT'' = Some 4096"
    by (simp_all add: assms(3) demo_machine_def)
  have envs: "square_env ''EXIT'' = Some (Native PrimExit)" using assms(1) by (simp add: linked_def)
  have "word_at s 4101 (Thread [''DUP'', ''*''])" "word_at s 4098 (Native PrimDup)" "word_at s 4099 (Native PrimMul)"
      "word_at s 4096 (Native PrimExit)"
    using linked_word [OF assms(1) square_env_sel(1)] linked_word [OF assms(1) square_env_sel(2)]
      linked_word [OF assms(1) square_env_sel(3)] linked_word [OF assms(1) envs] addr by simp_all
  then have code: "code_at_addr (cells s) 4101 [- 2, 4098, 4099, 4096]" "\<And>w. w \<in> {4096, 4098, 4099} \<Longrightarrow> code_at_addr (cells s) w [- 1]"
    using addr by (auto simp: cell_of_def)
  have code': "code_at_addr (cells t) 4101 [- 2, 4098, 4099, 4096]"
    unfolding ts(2) by (rule code_at_addr_grown(1) [OF room code(1)]) simp
  have code'': "code_at_addr (cells t) w [- 1]" if "w \<in> {4096, 4098, 4099}" for w
    unfolding ts(2) by (rule code_at_addr_grown(1) [OF room code(2) [OF that]]) (use that in auto)
  have prims: "primitive_at DEMO_PRIMITIVES ?d 4098 = Inr None" "primitive_at DEMO_PRIMITIVES ?d 4099 = Inr (Some PrimMul)"
      "primitive_at DEMO_PRIMITIVES ?d 4096 = Inr (Some PrimExit)"
    using assms(4) by (simp_all add: DEMO_PRIMITIVES_def assms(3) demo_machine_def)
  have "\<exists>v. run_word ''SQUARE'' u = Some (Inr (), v) \<and> ds v = b * a # d"
    if u: "code_kept t u" "ds u = a # b # d" "rs u = []" "reg_IP u = 0" for u a b d
  proof -
    have us: "layout_ok u" "cells u = cells t" "vdict u = ?d" "vprims u = DEMO_PRIMITIVES" "region (dstk u) = 1024" "region (rstk u) = 1024"
      using u(1) ts by (simp_all add: code_kept_def)
    have sq: "vdict u ''SQUARE'' = Some 4101" using us(3) addr(1) by simp
    from skipping_square [OF us(1,5,6) sq _ _ _ _ _ u(2-4), unfolded us(2-4), OF code' code'' prims] show ?thesis by blast
  qed
  with t(1) ts show ?thesis by blast
qed

text \<open>
  C40. Redefining a primitive of the first prototype disables it in the definitions made before: its address is no longer found
  through its name and the inner interpreter passes over it. After \<^verbatim>\<open>: SQUARE DUP * ;\<close> and any new definition of \<^verbatim>\<open>DUP\<close> by primitives,
  \<^verbatim>\<open>SQUARE\<close> multiplies the two values on top of the stack.
\<close>

theorem redefined_primitive_skipped:
  assumes "list_all (\<lambda>w. w \<in> set [''DUP'', ''*'', ''.'']) bs" and "length bs \<le> 50000"
  shows "\<exists>s t. add_colon ''SQUARE'' [''DUP'', ''*''] demo_machine = (Inr (), s) \<and> add_colon ''DUP'' bs s = (Inr (), t) \<and>
     (\<forall>u a b d. code_kept t u \<and> ds u = a # b # d \<and> rs u = [] \<and> reg_IP u = 0 \<longrightarrow>
       (\<exists>v. run_word ''SQUARE'' u = Some (Inr (), v) \<and> ds v = b * a # d))"
proof -
  obtain s where s: "add_colon ''SQUARE'' [''DUP'', ''*''] demo_machine = (Inr (), s)" "linked s square_env"
      "vprims s = DEMO_PRIMITIVES" "vdict s = (vdict demo_machine)(''SQUARE'' \<mapsto> 4101)" "vhere s = 4105" "length (cells s) = 63488"
    using square_machine by blast
  then show ?thesis using redefined_dup [OF s(2-5) _ assms(1)] assms(2) by auto
qed

theorem redefined_primitive_skipped_witness:
  "\<exists>s t u v. add_colon ''SQUARE'' [''DUP'', ''*''] demo_machine = (Inr (), s) \<and> add_colon ''DUP'' [] s = (Inr (), t) \<and>
     chain (D_push 4) (\<lambda>_. D_push 3) t = (Inr (), u) \<and> run_word ''SQUARE'' u = Some (Inr (), v) \<and> ds v = [12]"
proof -
  obtain s where s: "add_colon ''SQUARE'' [''DUP'', ''*''] demo_machine = (Inr (), s)" "linked s square_env" "ds s = []" "rs s = []"
      "reg_IP s = 0" "vprims s = DEMO_PRIMITIVES" "vdict s = (vdict demo_machine)(''SQUARE'' \<mapsto> 4101)" "vhere s = 4105"
      "length (cells s) = 63488"
    using square_machine by blast
  obtain t where t: "add_colon ''DUP'' [] s = (Inr (), t)" "layout_ok t" "region (dstk t) = 1024" "ds t = []" "rs t = []" "reg_IP t = 0"
    using redefined_dup [OF s(2,6-8), of "[]"] s(3-5,9) by auto
  obtain a where a: "D_push 4 t = (Inr (), a)" "goes_to t [4] [] 0 (vprinted t) a" using D_push_goes [OF t(2), of 4] t by auto
  note as = goes_to_sel [OF a(2)]
  obtain u where u: "D_push 3 a = (Inr (), u)" "goes_to a [3, 4] [] 0 (vprinted t) u" using D_push_goes [OF as(1), of 3] as t(3) by auto
  note us = goes_to_sel [OF goes_to_trans [OF a(2) u(2)]]
  from redefined_primitive_skipped [of "[]"] s(1) t(1) us(2-4,11) obtain v where "run_word ''SQUARE'' u = Some (Inr (), v)" "ds v = [12]"
    by fastforce
  with s(1) t(1) a(1) u(1) show ?thesis by (intro exI conjI) (assumption | simp)+
qed

end
