(* ===== verification/Overrun.thy ===== *)
theory Overrun
  imports Literals Dictionary
begin

section \<open>A token longer than the word buffer\<close>

text \<open>
  The word buffer of \<^verbatim>\<open>layout.py\<close> is the last 64 cells before the data stack's region, and the kernel's \<^verbatim>\<open>WORD\<close> does
  not look at its length. The protected machine claims nothing of a store above the cells, so the proof moves the floor of the data
  stack up: a run that succeeds with a smaller stack region does the same with the larger one.
\<close>

subsection \<open>Moving the floor of the data stack\<close>

definition narrowed :: "int \<Rightarrow> emulator \<Rightarrow> emulator" where
  "narrowed f s = s\<lparr>dstk := (dstk s)\<lparr>sfloor := f\<rparr>\<rparr>"

text \<open>What succeeds with the floor at \<open>f\<close> does the same with the lower floor.\<close>

definition unaffected :: "'a emu \<Rightarrow> bool" where
  "unaffected m \<longleftrightarrow> (\<forall>f s x t. sfloor (dstk s) \<le> f \<longrightarrow> m (narrowed f s) = (Inr x, t) \<longrightarrow>
     (\<exists>u. m s = (Inr x, u) \<and> t = narrowed f u \<and> sfloor (dstk u) = sfloor (dstk s)))"

lemma narrowed_sel [simp]:
  "mem (narrowed f s) = mem s" "rstk (narrowed f s) = rstk s" "regs (narrowed f s) = regs s" "inq (narrowed f s) = inq s"
  "outb (narrowed f s) = outb s" "prog (narrowed f s) = prog s" "pc (narrowed f s) = pc s" "halted (narrowed f s) = halted s"
  "dstk (narrowed f s) = (dstk s)\<lparr>sfloor := f\<rparr>"
  by (simp_all add: narrowed_def)

lemma unaffected_simple [wf_intros]: "unaffected (pure x)" "unaffected (raise e)" "unaffected (read_reg r)" "unaffected fetch"
  by (auto simp: unaffected_def read_reg_def fetch_def split: option.splits)

lemma unaffected_chain [wf_intros]:
  assumes "unaffected m" and "\<And>x. unaffected (g x)"
  shows "unaffected (chain m g)"
  unfolding unaffected_def
proof (intro allI impI)
  fix f s x t
  assume f: "sfloor (dstk s) \<le> f" and run: "chain m g (narrowed f s) = (Inr x, t)"
  then obtain z v where v: "m (narrowed f s) = (Inr z, v)" "g z v = (Inr x, t)" by (auto simp: chain_eq_Inr)
  with assms(1) f obtain w where w: "m s = (Inr z, w)" "v = narrowed f w" "sfloor (dstk w) = sfloor (dstk s)"
    unfolding unaffected_def by blast
  with assms(2) [of z] f v(2) obtain u where "g z w = (Inr x, u)" "t = narrowed f u" "sfloor (dstk u) = sfloor (dstk s)"
    unfolding unaffected_def by metis
  with w(1) show "\<exists>u. chain m g s = (Inr x, u) \<and> t = narrowed f u \<and> sfloor (dstk u) = sfloor (dstk s)" by simp
qed

lemma unaffected_operands [wf_intros]:
  "unaffected (require_register v)" "unaffected (require_offset n)" "unaffected (operand_value v)"
  by (auto simp: require_register_def require_offset_def operand_value_def intro: wf_intros split: option.splits operand.splits)

lemma unaffected_state [wf_intros]:
  "unaffected (write_reg r v)" "unaffected (modify (\<lambda>s. s\<lparr>outb := output_write (outb s) v\<rparr>))" "unaffected (modify (\<lambda>s. s\<lparr>halted := b\<rparr>))"
  "unaffected read_input" "unaffected (load_cell a)" "unaffected (store_cell a v)"
  by (auto simp: unaffected_def write_reg_def read_input_def load_cell_def store_cell_def narrowed_def
      split: prod.splits sum.splits)

lemma unaffected_pc [wf_intros]:
  "unaffected (modify (\<lambda>s. s\<lparr>pc := n\<rparr>))" "unaffected (modify (\<lambda>s. s\<lparr>pc := pc s + n\<rparr>))"
  by (auto simp: unaffected_def narrowed_def)

lemma unaffected_stacks [wf_intros]: "unaffected (push_d v)" "unaffected pop_d" "unaffected (push_r v)" "unaffected pop_r"
  by (auto simp: unaffected_def push_d_def pop_d_def push_r_def pop_r_def stack_push_def stack_pop_def narrowed_def Let_def
      split: prod.splits sum.splits if_splits)

lemma unaffected_handler [wf_intros]: "unaffected (handler op i)"
  by (cases op) (auto simp: handler_defs intro!: wf_intros)

lemma unaffected_step: "unaffected step"
  unfolding step_def by (intro wf_intros)

lemma narrowed_goes:
  "goes n (narrowed f s) t \<Longrightarrow> sfloor (dstk s) \<le> f \<Longrightarrow> \<exists>u. goes n s u \<and> t = narrowed f u"
proof (induction n arbitrary: s)
  case 0
  then show ?case by auto
next
  case (Suc n)
  then obtain x v where v: "\<not> halted s" "step (narrowed f s) = (Inr x, v)" "goes n v t" by auto
  from unaffected_step v(2) Suc.prems(2) obtain w where w: "step s = (Inr x, w)" "v = narrowed f w" "sfloor (dstk w) = sfloor (dstk s)"
    unfolding unaffected_def by blast
  from Suc.IH [of w] v(3) w Suc.prems(2) obtain u where "goes n w u" "t = narrowed f u" by auto
  with v(1) w(1) show ?case by auto
qed

subsection \<open>What WORD does with a long token\<close>

lemma narrowed_layout:
  "layout_ok s \<Longrightarrow> f = spointer (dstk s) \<Longrightarrow> layout_ok (narrowed f s)"
  "ds (narrowed f s) = ds s"
  by (auto simp: layout_ok_def stack_ok_def ds_def content_def)

text \<open>
  C35. The kernel's \<^verbatim>\<open>WORD\<close> does not stop at the 64 cells of its buffer: a token of any length that ends below
  the data stack's pointer is stored in full, so from the 64th character on it is written into the data stack's region, which
  begins at cell 2048. The machine goes on to \<^verbatim>\<open>NEXT\<close> without an error.
\<close>

theorem word_overruns_buffer:
  assumes "layout_ok s" and "prog s = kernel_program" and "pc s = 278" and "\<not> halted s"
    and "register_read (regs s) ''NEXTREG'' = 3" and "ds s = x # d" and "inq s = replicate n x @ tok @ x # rest"
    and "tok \<noteq> []" and "x \<notin> set tok" and "1985 + int (length tok) \<le> spointer (dstk s)"
  shows "\<exists>k t. k \<le> 11 * length (inq s) + 31 \<and> goes k s t \<and> \<not> halted t \<and> pc t = 3 \<and> ds t = 1984 # d \<and> inq t = rest \<and>
    mem t ! 1984 = int (length tok) \<and> (\<forall>i < length tok. mem t ! (1985 + i) = tok ! i)"
proof -
  let ?f = "spointer (dstk s)"
  let ?s = "narrowed ?f s" and ?m = "put_cells (cells (narrowed ?f s)) 1984 (int (length tok) # tok)"
  have ok: "0 \<le> ?f" "?f \<le> int (length (mem s))" "sfloor (dstk s) \<le> ?f"
    using assms(1) by (auto simp: layout_ok_def stack_ok_def)
  have layout: "layout_ok ?s" using narrowed_layout(1) [OF assms(1)] by simp
  have poised: "poised (config_of ?s) 278 (abstract_of ?s)"
    using layout assms(2-5)
    by (auto simp: poised_def aread_def layout_ok_def ds_def rs_def region_def) (auto simp: stack_ok_def intro: nat_mono)
  have size: "length (cells ?s) = nat ?f" using ok by (simp add: cells_def)
  have "within (config_of ?s) (11 * length (inq s) + 31) (abstract_of ?s) (settled (config_of ?s)
      ((view (abstract_of ?s))\<lparr>vds := 1984 # d, vin := rest, vcells := ?m\<rparr>))"
    using word_takes_token [OF poised, of x d n tok rest] assms(6-10) size
    by (simp add: delivers_def narrowed_layout)
  then obtain k where k: "k \<le> 11 * length (inq s) + 31" "after (config_of ?s) k (abstract_of ?s) (settled (config_of ?s)
      ((view (abstract_of ?s))\<lparr>vds := 1984 # d, vin := rest, vcells := ?m\<rparr>))"
    by (auto simp: within_def)
  from after_goes [OF layout k(2)] obtain t where t: "goes k ?s t" "kept ?s t" "\<not> halted t" "pc t = 3" "ds t = 1984 # d"
      "inq t = rest" "cells t = ?m"
    using assms(4) by (auto simp: settled_def view_def)
  from narrowed_goes [OF t(1) ok(3)] obtain u where u: "goes k s u" "t = narrowed ?f u" by blast
  have size': "nat ?f \<le> length (mem u)" using t(2) u(2) by (auto simp: kept_def layout_ok_def stack_ok_def)
  have cell: "mem u ! i = ?m ! i" if "i < nat ?f" for i
  proof -
    have "slice (mem u) 0 (nat ?f) ! i = mem u ! i" using that size' by simp
    moreover have "slice (mem u) 0 (nat ?f) = ?m" using t(7) u(2) by (simp add: cells_def)
    ultimately show ?thesis by metis
  qed
  have "mem u ! 1984 = int (length tok)" "\<forall>i < length tok. mem u ! (1985 + i) = tok ! i"
    using assms(10) size by (auto simp: cell nth_put_cells)
  with k(1) t(3-6) u show ?thesis by (auto simp: narrowed_layout(2))
qed

lemma slice_head_update: "k < length m \<Longrightarrow> slice (m[k := v]) k (Suc k) = [v]"
  by (simp add: slice_Cons)

text \<open>A machine about to run \<^verbatim>\<open>WORD\<close> on a token of 64 times the letter A, a blank on its data stack.\<close>

definition long_token_machine :: emulator where
  "long_token_machine = machine_new\<lparr>mem := (mem machine_new)[3071 := 32], dstk := (dstk machine_new)\<lparr>spointer := 3071\<rparr>,
     regs := (\<lambda>_. None)(''NEXTREG'' \<mapsto> 3), inq := replicate 64 65 @ [32], prog := kernel_program, pc := 278\<rparr>"

lemma long_token_machine_sel:
  "layout_ok long_token_machine" "ds long_token_machine = [32]" "spointer (dstk long_token_machine) = 3071"
  "inq long_token_machine = replicate 0 32 @ replicate 64 65 @ 32 # []" "prog long_token_machine = kernel_program"
  "pc long_token_machine = 278" "\<not> halted long_token_machine" "register_read (regs long_token_machine) ''NEXTREG'' = 3"
  using slice_head_update [of 3071 "replicate 4096 (0 :: int)" 32]
  by (simp_all add: long_token_machine_def machine_new_def memory_new_def stack_new_def layout_ok_def stack_ok_def ds_def
      content_def register_read_def)

theorem word_overruns_buffer_witness:
  "\<exists>k t. goes k long_token_machine t \<and> ds t = [1984] \<and> mem long_token_machine ! 2048 = 0 \<and> mem t ! 2048 = 65"
proof -
  note long = long_token_machine_sel
  have token: "replicate 64 (65 :: int) \<noteq> []" "32 \<notin> set (replicate 64 (65 :: int))"
    "1985 + int (length (replicate 64 (65 :: int))) \<le> spointer (dstk long_token_machine)" by (simp_all add: long)
  from word_overruns_buffer [OF long(1,5,6,7,8,2,4) token] obtain k t where "goes k long_token_machine t" "ds t = [1984]" 
      "\<forall>i < length (replicate 64 (65 :: int)). mem t ! (1985 + i) = replicate 64 65 ! i"
    by blast
  moreover from spec [OF this(3), of 63] have "mem t ! 2048 = 65" by simp
  moreover have "mem long_token_machine ! 2048 = 0"
    by (simp add: long_token_machine_def machine_new_def memory_new_def)
  ultimately show ?thesis by auto
qed

subsection \<open>A dictionary that grows into the stack\<close>

text \<open>
  \<^verbatim>\<open>DICTIONARY_TOP\<close> of \<^verbatim>\<open>layout.py\<close> is not used by the adapter: when the dictionary pointer has come to the top of a data stack
  that is not empty, \<^verbatim>\<open>append_cell\<close> succeeds and replaces the top value.
\<close>

theorem append_cell_hits_stack:
  assumes "layout_ok s" and "0 < sfloor (dstk s)" and "mem s ! 0 = spointer (dstk s)" and "ds s = x # d"
  shows "\<exists>t. append_cell load_cell store_cell v s = (Inr (spointer (dstk s)), t) \<and> ds t = v # d"
proof -
  let ?p = "nat (spointer (dstk s))" and ?b = "nat (sbase (dstk s))"
  have ok: "0 < ?p" "?b \<le> length (mem s)" "0 < spointer (dstk s)" using assms(1,2) by (auto simp: layout_ok_def stack_ok_def)
  have "slice (mem s) ?p ?b = x # d" using assms(4) by (simp add: ds_def content_def)
  moreover have "?p < ?b"
  proof (rule ccontr)
    assume "\<not> ?p < ?b"
    with \<open>slice (mem s) ?p ?b = x # d\<close> show False by simp
  qed
  ultimately have rest: "d = slice (mem s) (Suc ?p) ?b" "?p < length (mem s)" "?p < ?b"
    using ok(2) slice_Cons [of ?p ?b "mem s"] by auto
  then have "content ((mem s)[?p := v, 0 := spointer (dstk s) + 1]) (dstk s) = v # d"
    using ok slice_Cons [of ?p ?b "(mem s)[?p := v, 0 := spointer (dstk s) + 1]"]
    by (simp add: content_def del: zless_nat_conj zless_nat_eq_int_zless)
  moreover have "py_index (length (mem s)) (spointer (dstk s)) = Some ?p" "py_index (length (mem s)) 0 = Some 0"
    using ok rest(2) by (auto simp: py_index_def Let_def)
  ultimately show ?thesis
    using assms(3) ok
    by (simp add: append_cell_def get_dp_def set_dp_def load_cell_def store_cell_def chain_def ds_def memory_read_def memory_write_def)
qed

end
