(* ===== verification/Tokens.thy ===== *)
theory Tokens
  imports Lookup Literals
begin

section \<open>Typed tokens on a built image\<close>

text \<open>
  The pipeline an outer interpreter threads, on a whole system: the kernel and any colon words are built, a line is
  fed to the input, and a boot thread takes a token with \<^verbatim>\<open>WORD\<close> and looks it up with \<^verbatim>\<open>FIND\<close> or reads it with \<^verbatim>\<open>NUMBER\<close>. These are
  the threads of \<^verbatim>\<open>tests/integration/test_interpreter_core_integration.py\<close>, for every dictionary and every token that fits the
  buffer.
\<close>

subsection \<open>A machine with typed input\<close>

definition typed :: "string \<Rightarrow> emulator" where
  "typed input = kernel_machine_new\<lparr>inq := input_feed (inq kernel_machine_new) (codes input)\<rparr>"

lemma typed_ok:
  "layout_ok (typed input)" "dict_ok (cells (typed input)) 8 []" "length (cells (typed input)) = 2048"
  "ds (typed input) = []" "rs (typed input) = []" "region (dstk (typed input)) = 1024" "region (rstk (typed input)) = 1024"
  "inq (typed input) = codes input"
  using kernel_machine_new_ok by (simp_all add: typed_def layout_ok_def ds_def rs_def cells_def input_feed_def)

subsection \<open>Names that are not defined again\<close>

lemma kernel_names_kept:
  assumes "plan_words kernel_labels (kernel_words cs) empty_plan = Inr (k, cfas, es)" and "x \<notin> col_name ` set cs"
  shows "cfas x = kernel_cfas x" and "denote hi kernel_labels (kernel_words cs) empty_plan (\<lambda>_. None) x = kernel_env x"
proof -
  obtain es' where es': "plan_words kernel_labels (map CodeWord CODE_WORDS) empty_plan = Inr (311, kernel_cfas, es')"
    using kernel_plan by blast
  then have "plan_words kernel_labels (map ColonWord cs) (311, kernel_cfas, es') = Inr (k, cfas, es)"
    using assms(1) by (simp add: kernel_words_def plan_words_append)
  from plan_words_other [OF this, unfolded spec_name_colon, OF assms(2)] show "cfas x = kernel_cfas x" .
  have "x \<notin> spec_name ` set (map ColonWord cs)" using assms(2) unfolding spec_name_colon .
  with es' show "denote hi kernel_labels (kernel_words cs) empty_plan (\<lambda>_. None) x = kernel_env x"
    by (simp add: kernel_words_def denote_kernel denote_other)
qed

lemma token_env:
  "kernel_env ''WORD'' = Some (Acts (\<lambda>c v. (4 + (11 * length (vin v) + 31), word_word c v)))"
  "kernel_env ''FIND'' = Some (Acts (\<lambda>c v. (4 + find_cost v, find_word c v)))"
  "kernel_env ''NUMBER'' = Some (Acts (\<lambda>c v. (4 + (26 * nat (vcells v ! nat (hd (vds v))) + 40), number_word c v)))"
  by (simp_all add: kernel_env_def CODE_WORDS_def PRIMITIVES_def primitive_def code_meaning_def code_semantics_def stack_words_def)

lemma token_cfas: "kernel_cfas ''WORD'' = Some 301" "kernel_cfas ''FIND'' = Some 310" "kernel_cfas ''NUMBER'' = Some 292"
  by (simp_all add: kernel_cfas_def)

lemma plan_words_count: "plan_words tab ws (k, cfas, es) = Inr (k', cfas', es') \<Longrightarrow> length es' = length es + length ws"
proof (induction ws arbitrary: k cfas es)
  case (Cons w ws)
  then show ?case by (fastforce simp: plan_word_def attempt_eq_Inr Let_def)
qed simp

lemma kernel_words_count:
  "plan_words kernel_labels (kernel_words cs) empty_plan = Inr (k, cfas, es) \<Longrightarrow> length es = 39 + length cs"
  unfolding empty_plan_def
  by (drule plan_words_count) (simp add: kernel_words_def CODE_WORDS_def PRIMITIVES_def)

subsection \<open>Runs of a boot thread on typed input\<close>

text \<open>What the proofs need of a built image and its first Forth state.\<close>

definition built :: "colon_word list \<Rightarrow> thread_item list \<Rightarrow> string \<Rightarrow> plan \<Rightarrow> kernel_image \<Rightarrow> emulator \<Rightarrow> bool" where
  "built cs items input p img s \<longleftrightarrow>
     build_image cs items (typed input) = (Inr img, s) \<and> kprogram img = kernel_program \<and> layout_ok s \<and>
     plan_done (cells s) p \<and> length (cells s) = 2048 \<and> config_of (boot img s) = kernel_config \<and>
     boot_state img s = \<lparr>vip = kboot_ip img, vds = [], vrs = [], vcells = cells s, vin = codes input, vout = outb s, vhalted = False\<rparr>"

lemma typed_builds:
  assumes "plan_words kernel_labels (kernel_words cs) empty_plan = Inr (k, cfas, es)"
    and "gather (item_cell cfas) items = Inr vs" and "k + length items \<le> 2048"
  shows "\<exists>img s. built cs items input (k + length items, cfas, es) img s \<and>
    (\<forall>c. executes c (boot_state img s) (boot_meaning cs (k + length items) cfas c items (boot_state img s)))"
proof -
  have "k + length items \<le> length (cells (typed input))" using assms(3) by (simp add: typed_ok)
  from image_executes [OF typed_ok(1,2) assms(1,2) this] obtain img s where
    s: "build_image cs items (typed input) = (Inr img, s)" "kprogram img = kernel_program" "layout_ok s"
      "same_but_cells (typed input) s" "plan_done (cells s) (k + length items, cfas, es)"
      "\<And>c. executes c (boot_state img s) (boot_meaning cs (k + length items) cfas c items (boot_state img s))"
    by blast
  note fields = same_but_cells_fields [OF s(4)] typed_ok
  have "length (cells s) = length (cells (typed input))" using s(4) by (simp add: same_but_cells_def cells_def slice_def)
  then have "length (cells s) = 2048" by (simp add: typed_ok)
  then have "built cs items input (k + length items, cfas, es) img s"
    using s(1-3,5) fields by (simp add: built_def boot_state_def kernel_config_def config_of_def boot_def load_def)
  with s(6) show ?thesis by blast
qed

lemma built_halts:
  assumes "built cs items input p img s" and "executes kernel_config (boot_state img s) (n, Next w)" and "vhalted w" and "int (3 + n) < m"
  shows "\<exists>t. run m (boot img s) = (Inr (), t) \<and> halted t \<and> ds t = vds w \<and> inq t = vin w"
proof -
  have "ends_as (Next w) (run m (boot img s))"
    using assms by (intro kernel_ends_as [where n = n]) (simp_all add: built_def view_boot del: boot_sel(4,5))
  with assms(3) show ?thesis by (auto simp: ends_as_def view_def prod_eq_iff)
qed

subsection \<open>Taking a token\<close>

definition token_prefix :: "thread_item list" where
  "token_prefix = [WordReference ''LIT'', LiteralCell 32, WordReference ''WORD'']"

text \<open>The state after \<^verbatim>\<open>LIT 32 WORD\<close>.\<close>

definition token_taken :: "string \<Rightarrow> string \<Rightarrow> vm \<Rightarrow> vm" where
  "token_taken x rest v = v\<lparr>vip := vip v + 3, vds := 1984 # vds v, vin := codes rest,
     vcells := put_cells (vcells v) 1984 (int (length x) # codes x)\<rparr>"

lemma blank_code:
  assumes "CHR '' '' \<notin> set x"
  shows "32 \<notin> set (codes x)"
proof -
  have "c = CHR '' ''" if "(of_char c :: int) = 32" for c
  proof -
    have "codes [c] = codes '' ''" using that by simp
    then have "[c] = '' ''" by (simp only: codes_inject)
    then show ?thesis by simp
  qed
  then show ?thesis using assms by (auto simp: codes_def)
qed

lemma blank_token:
  assumes "x \<noteq> []" and "CHR '' '' \<notin> set x"
  shows "codes x \<noteq> []" "32 \<notin> set (codes x)"
    "codes (replicate n (CHR '' '') @ x @ CHR '' '' # rest) = replicate n 32 @ codes x @ 32 # codes rest"
  using assms blank_code by (auto simp: codes_def)

lemma below_buffer:
  assumes "1985 + length xs \<le> length m" and "j \<le> 1984"
  shows "slice (put_cells m 1984 (n # xs)) i j = slice m i j"
  using assms by (intro nth_equalityI) (auto simp: nth_put_cells)

lemma token_meaning:
  assumes "env ''LIT'' = kernel_env ''LIT''" and "env ''WORD'' = kernel_env ''WORD''" and "hi \<le> 1984"
    and "vin v = codes (replicate n (CHR '' '') @ x @ CHR '' '' # rest)" and "x \<noteq> []" and "CHR '' '' \<notin> set x" and "length x \<le> 63"
    and "length (vcells v) = 2048" and "length (vds v) < dcap c" and "\<not> vhalted v"
  shows "run_items hi env cfas c (token_prefix @ its) v =
    ticks (51 + 11 * length (vin v)) (run_items hi env cfas c its (token_taken x rest v))"
proof -
  let ?v = "v\<lparr>vip := vip v + 2, vds := 32 # vds v\<rparr>"
  note blank = blank_token [OF assms(5,6)]
  have "word_word c (?v\<lparr>vip := 3 + vip v\<rparr>) = Next (token_taken x rest v)"
    using word_word_token [of "?v\<lparr>vip := 3 + vip v\<rparr>" 32 "vds v" n "codes x" "codes rest" c] blank assms(4,7,8)
    by (simp add: token_taken_def add.commute)
  moreover have "slice (vcells (token_taken x rest v)) 8 hi = slice (vcells v) 8 hi"
    using assms(3,7,8) by (simp add: token_taken_def below_buffer)
  moreover have "vip (token_taken x rest v) = vip v + 3" "\<not> vhalted (token_taken x rest v)"
    using assms(10) by (simp_all add: token_taken_def)
  ultimately show ?thesis
    using assms(1,2,9) by (simp add: token_prefix_def kernel_env_lookup token_env pushed_def ticks_def)
qed

subsection \<open>Looking a token up\<close>

lemma find_token:
  assumes "built cs items input (k, cfas, es) img s" and "k \<le> 1984" and "length es = n" and "list_all (\<lambda>e. esmudge (fst e) = 0) es"
    and "vcells v = put_cells (cells s) 1984 (int (length x) # codes x)" and "length x \<le> 63" and "vds v = 1984 # d"
    and "length d + 2 \<le> dcap c"
  shows "find_word c v =
      Next (v\<lparr>vds := find_answer (map_option (header_of (cells s)) (List.find (\<lambda>e. ename e = codes x) (map fst es))) @ d\<rparr>)"
    and "find_cost v \<le> n * (13 * length x + 45) + 21"
proof -
  have d: "dict_ok (cells s) k (map fst es)" and len: "length (cells s) = 2048"
    using assms(1) by (simp_all add: built_def plan_done_def)
  then have chain: "chain_in (cells s) k (cells s ! 1) (map fst es)" and k: "8 \<le> k" by (simp_all add: dict_ok_def)
  have size: "length (vcells v) = 2048" using assms(5,6) len by simp
  have same: "vcells v ! i = cells s ! i" if "i < 1984" for i
    using that assms(5,6) len by (simp add: nth_put_cells)
  have "chain_in (vcells v) k (vcells v ! 1) (map fst es)"
    using chain_in_cong [OF chain, of "vcells v"] size same assms(2) by simp
  moreover have "length (map fst es) < length (vcells v)"
    using chain_in_length [OF chain] assms(2) size by simp
  moreover have "counted (vcells v) 1984 = Some (codes x)"
    using counted_put_cells [of 1984 "codes x" "cells s"] assms(5,6) len by simp
  moreover have "list_all (\<lambda>e. esmudge e = 0) (map fst es)" using assms(4) by (simp add: list.pred_map comp_def)
  moreover have "1 < length (vcells v)" using size by simp
  ultimately have *: "chain_in (vcells v) k (vcells v ! 1) (map fst es)" "list_all (\<lambda>e. esmudge e = 0) (map fst es)"
    "length (map fst es) < length (vcells v)" "1 < length (vcells v)" "counted (vcells v) 1984 = Some (codes x)" by auto
  note find_word_chain [OF *(1-4) assms(7) *(5) assms(8)]
  then show "find_word c v =
      Next (v\<lparr>vds := find_answer (map_option (header_of (cells s)) (List.find (\<lambda>e. ename e = codes x) (map fst es))) @ d\<rparr>)"
    and "find_cost v \<le> n * (13 * length x + 45) + 21"
    using assms(3) by simp_all
qed

text \<open>A boot thread that begins with \<^verbatim>\<open>LIT 32 WORD\<close>, up to the token.\<close>

lemma token_runs:
  assumes "plan_words kernel_labels (kernel_words cs) empty_plan = Inr (k, cfas, es)" and "hi = k + 3 + length its" and "hi \<le> 1984"
    and "''LIT'' \<notin> col_name ` set cs" and "''WORD'' \<notin> col_name ` set cs" and "gather (item_cell cfas) its = Inr vs"
    and "x \<noteq> []" and "CHR '' '' \<notin> set x" and "length x \<le> 63" and "input = replicate n (CHR '' '') @ x @ CHR '' '' # rest"
  shows "\<exists>img s. built cs (token_prefix @ its) input (hi, cfas, es) img s \<and>
    executes kernel_config (boot_state img s) (ticks (51 + 11 * length input)
      (run_items hi (denote hi kernel_labels (kernel_words cs) empty_plan (\<lambda>_. None)) cfas
         kernel_config its (token_taken x rest (boot_state img s))))"
proof -
  note names = kernel_names_kept [OF assms(1) assms(4)] kernel_names_kept [OF assms(1) assms(5)]
  have size: "length (token_prefix @ its) = 3 + length its" by (simp add: token_prefix_def)
  have "gather (item_cell cfas) (token_prefix @ its) = Inr ([15, 32, 301] @ vs)"
    using names(1,3) assms(6) by (simp add: token_prefix_def cfa_of_def kernel_cfas_lookup token_cfas)
  from typed_builds [OF assms(1) this, of input] size assms(2,3) obtain img s where
    b: "built cs (token_prefix @ its) input (hi, cfas, es) img s"
    and exec: "executes kernel_config (boot_state img s)
      (boot_meaning cs hi cfas kernel_config (token_prefix @ its) (boot_state img s))"
    by (auto simp: add.assoc)
  have "boot_meaning cs hi cfas kernel_config (token_prefix @ its) (boot_state img s) =
    ticks (51 + 11 * length (vin (boot_state img s)))
      (run_items hi (denote hi kernel_labels (kernel_words cs) empty_plan (\<lambda>_. None)) cfas
         kernel_config its (token_taken x rest (boot_state img s)))"
    unfolding boot_meaning_def using b names(2,4) assms(3,7-10)
    by (intro token_meaning) (simp_all add: built_def kernel_config_def)
  with b exec show ?thesis by (auto simp: built_def)
qed

definition find_boot :: "thread_item list" where
  "find_boot = boot_thread [Inl ''LIT'', Inr 32, Inl ''WORD'', Inl ''FIND'', Inl ''BYE'']"

lemma find_boot_items: "find_boot = token_prefix @ [WordReference ''FIND'', WordReference ''BYE'']" "length find_boot = 5"
  by (simp_all add: find_boot_def token_prefix_def boot_thread_def)

lemma find_tail:
  assumes "env ''FIND'' = kernel_env ''FIND''" and "env ''BYE'' = kernel_env ''BYE''" and "\<not> vhalted v"
    and "find_word c (v\<lparr>vip := vip v + 1\<rparr>) = Next (v\<lparr>vip := vip v + 1, vds := ys\<rparr>)"
  shows "run_items hi env cfas c [WordReference ''FIND'', WordReference ''BYE''] v =
    (20 + find_cost (v\<lparr>vip := vip v + 1\<rparr>), Next (v\<lparr>vip := vip v + 2, vds := ys, vhalted := True\<rparr>))"
  using assms by (simp add: kernel_env_lookup token_env bye_word_def)

text \<open>
  C8. Typing the name of a word looks it up: on any built system whose words leave \<^verbatim>\<open>LIT\<close>, \<^verbatim>\<open>WORD\<close>, \<^verbatim>\<open>FIND\<close> and \<^verbatim>\<open>BYE\<close> as they are, the
  boot thread \<^verbatim>\<open>LIT 32 WORD FIND BYE\<close> takes the first token of the input, of at most 63 characters, and halts with the
  answer of the host's dictionary for it on the data stack: the code field address of the image's table and the flag, or two zeros.
\<close>

theorem typed_word_found:
  assumes "plan_words kernel_labels (kernel_words cs) empty_plan = Inr (k, cfas, es)" and "k + 5 \<le> 1984"
    and "list_all (\<lambda>w. col_name w \<notin> {''LIT'', ''WORD'', ''FIND'', ''BYE''}) cs"
    and "x \<noteq> []" and "CHR '' '' \<notin> set x" and "length x \<le> 63" and "input = replicate n (CHR '' '') @ x @ CHR '' '' # rest"
    and "95 + 11 * int (length input) + (39 + int (length cs)) * (13 * int (length x) + 45) < m"
  shows "\<exists>img s t h. build_image cs find_boot (typed input) = (Inr img, s) \<and>
    dictionary_find load_cell (codes x) s = Some (Inr h, s) \<and> map_option hcfa h = cfas x \<and>
    run m (boot img s) = (Inr (), t) \<and> halted t \<and> ds t = find_answer h \<and> inq t = codes rest"
proof -
  let ?its = "[WordReference ''FIND'', WordReference ''BYE'']"
  let ?env = "denote (k + 5) kernel_labels (kernel_words cs) empty_plan (\<lambda>_. None)"
  have new: "y \<notin> col_name ` set cs" if "y \<in> {''LIT'', ''WORD'', ''FIND'', ''BYE''}" for y
    using that assms(3) by (auto simp: list_all_iff)
  note names = kernel_names_kept [OF assms(1) new]
  have cells: "gather (item_cell cfas) ?its = Inr [310, 32]"
    using names(1) by (simp add: cfa_of_def kernel_cfas_lookup token_cfas)
  have hi: "k + 5 = k + 3 + length ?its" by simp
  from token_runs [OF assms(1) hi assms(2) new new cells assms(4-7)] obtain img s where
    b: "built cs find_boot input (k + 5, cfas, es) img s"
    and exec: "executes kernel_config (boot_state img s) (ticks (51 + 11 * length input)
      (run_items (k + 5) ?env cfas kernel_config ?its (token_taken x rest (boot_state img s))))"
    unfolding find_boot_items by blast
  let ?h = "map_option (header_of (cells s)) (List.find (\<lambda>e. ename e = codes x) (map fst es))"
  let ?t = "token_taken x rest (boot_state img s)"
  let ?v = "?t\<lparr>vip := vip ?t + 1\<rparr>"
  let ?w = "?t\<lparr>vip := vip ?t + 2, vds := find_answer ?h, vhalted := True\<rparr>"
  have v: "vcells ?v = put_cells (cells s) 1984 (int (length x) # codes x)" "vds ?v = 1984 # []" "\<not> vhalted ?t"
    using b by (simp_all add: token_taken_def built_def)
  have unsmudged: "list_all (\<lambda>e. esmudge (fst e) = 0) es"
    using plan_words_unsmudged [OF assms(1) [unfolded empty_plan_def]] by simp
  note found = find_token [OF b assms(2) kernel_words_count [OF assms(1)] unsmudged v(1) assms(6) v(2), of kernel_config]
  have "run_items (k + 5) ?env cfas kernel_config ?its ?t = (20 + find_cost ?v, Next ?w)"
    using found(1) v(3) by (intro find_tail names(2)) (simp_all add: kernel_config_def)
  with exec have run: "executes kernel_config (boot_state img s) (71 + 11 * length input + find_cost ?v, Next ?w)"
    by (simp add: add.assoc)
  have budget: "int (3 + (71 + 11 * length input + find_cost ?v)) < m"
  proof -
    have "find_cost ?v \<le> (39 + length cs) * (13 * length x + 45) + 21" by (rule found(2)) (simp add: kernel_config_def)
    then have "int (find_cost ?v) \<le> int ((39 + length cs) * (13 * length x + 45) + 21)" by (simp only: of_nat_le_iff)
    with assms(8) show ?thesis by simp
  qed
  have "vhalted ?w" "vds ?w = find_answer ?h" "vin ?w = codes rest" by (simp_all add: token_taken_def)
  with built_halts [OF b run _ budget] obtain t where
    "run m (boot img s) = (Inr (), t)" "halted t" "ds t = find_answer ?h" "inq t = codes rest" by metis
  moreover have "dictionary_find load_cell (codes x) s = Some (Inr ?h, s)"
    using b by (intro shared_memory.dictionary_find_ok) (auto simp: built_def plan_done_def)
  moreover have "map_option hcfa ?h = cfas x"
    using plan_words_finds [OF assms(1) [unfolded empty_plan_def]]
    by (simp add: finds_def header_of_def option.map_comp comp_def)
  ultimately show ?thesis using b by (auto simp: built_def)
qed

theorem typed_word_found_witness:
  "\<exists>img s t. build_image [SQUARE] find_boot (typed '' SQUARE DUP'') = (Inr img, s) \<and>
     run DEFAULT_MAX_STEPS (boot img s) = (Inr (), t) \<and> ds t \<in> {[1, 321], [- 1, 321]} \<and> inq t = codes ''DUP''"
proof -
  obtain es where plan: "plan_words kernel_labels (kernel_words [SQUARE]) empty_plan =
      Inr (325, kernel_cfas(''SQUARE'' \<mapsto> 321), es)"
    using square_plan by blast
  have square: "list_all (\<lambda>w. col_name w \<notin> {''LIT'', ''WORD'', ''FIND'', ''BYE''}) [SQUARE]" by (simp add: SQUARE_def)
  from typed_word_found [OF plan _ square, of "''SQUARE''" "'' SQUARE DUP''" 1 "''DUP''" DEFAULT_MAX_STEPS] obtain img s t z where
      r: "build_image [SQUARE] find_boot (typed '' SQUARE DUP'') = (Inr img, s)" "hcfa z = 321"
      "run DEFAULT_MAX_STEPS (boot img s) = (Inr (), t)" "ds t = find_answer (Some z)" "inq t = codes ''DUP''"
    by auto
  then show ?thesis by auto
qed

subsection \<open>Reading a number\<close>

definition number_boot :: "thread_item list" where
  "number_boot = boot_thread [Inl ''LIT'', Inr 32, Inl ''WORD'', Inl ''DUP'', Inl ''FIND'', Inl ''DROP'', Inl ''DROP'',
     Inl ''NUMBER'', Inl ''BYE'']"

definition number_rest :: "thread_item list" where
  "number_rest = map WordReference [''DUP'', ''FIND'', ''DROP'', ''DROP'', ''NUMBER'', ''BYE'']"

lemma number_boot_items: "number_boot = token_prefix @ number_rest" "length number_rest = 6"
  by (simp_all add: number_boot_def number_rest_def token_prefix_def boot_thread_def)

text \<open>What \<^verbatim>\<open>NUMBER\<close> leaves for a token: the number and a true flag, or two zeros.\<close>

definition number_answer :: "int list \<Rightarrow> int list" where
  "number_answer xs = (case number_value xs of Some i \<Rightarrow> [1, i] | None \<Rightarrow> [0, 0])"

lemma number_tail:
  assumes "\<And>x. x \<in> {''DUP'', ''FIND'', ''DROP'', ''NUMBER'', ''BYE''} \<Longrightarrow> env x = kernel_env x" and "\<not> vhalted v"
    and "vds v = [1984]" and "3 \<le> dcap c" and "counted (vcells v) 1984 = Some xs"
    and "find_word c (v\<lparr>vds := [1984, 1984], vip := 2 + vip v\<rparr>) = Next (v\<lparr>vds := [a, b, 1984], vip := 2 + vip v\<rparr>)"
  shows "run_items hi env cfas c number_rest v =
    (112 + find_cost (v\<lparr>vds := [1984, 1984], vip := 2 + vip v\<rparr>) + 26 * nat (vcells v ! 1984),
     Next (v\<lparr>vip := vip v + 6, vds := number_answer xs, vhalted := True\<rparr>))"
  using assms
  by (simp add: number_rest_def kernel_env_lookup token_env effect_def bye_word_def number_word_def number_answer_def)

lemma number_token: "py_str_int i \<noteq> []" "CHR '' '' \<notin> set (py_str_int i)"
proof -
  have "isspace (CHR '' '')" by (simp add: text_simps)
  then show "CHR '' '' \<notin> set (py_str_int i)"
    using decimal_no_space [of "nat i"] decimal_no_space [of "nat (- i)"] by (auto simp: py_str_int_def list_all_iff)
qed (simp add: py_str_int_def)

lemma token_converted:
  assumes "plan_words kernel_labels (kernel_words cs) empty_plan = Inr (k, cfas, es)" and "k + 9 \<le> 1984"
    and "list_all (\<lambda>w. col_name w \<notin> {''LIT'', ''WORD'', ''DUP'', ''FIND'', ''DROP'', ''NUMBER'', ''BYE''}) cs"
    and "x \<noteq> []" and "CHR '' '' \<notin> set x" and "length x \<le> 63" and "input = replicate n (CHR '' '') @ x @ CHR '' '' # rest"
    and "187 + 11 * int (length input) + 26 * int (length x) +
      (39 + int (length cs)) * (13 * int (length x) + 45) < m"
  shows "\<exists>img s t. build_image cs number_boot (typed input) = (Inr img, s) \<and>
    run m (boot img s) = (Inr (), t) \<and> halted t \<and> ds t = number_answer (codes x) \<and> inq t = codes rest"
proof -
  let ?env = "denote (k + 9) kernel_labels (kernel_words cs) empty_plan (\<lambda>_. None)"
  have new: "y \<notin> col_name ` set cs" if "y \<in> {''LIT'', ''WORD'', ''DUP'', ''FIND'', ''DROP'', ''NUMBER'', ''BYE''}" for y
    using that assms(3) by (auto simp: list_all_iff)
  note names = kernel_names_kept [OF assms(1) new]
  have cells: "gather (item_cell cfas) number_rest = Inr [40, 310, 49, 49, 292, 32]"
    using names(1) by (simp add: number_rest_def cfa_of_def kernel_cfas_lookup token_cfas)
  have hi: "k + 9 = k + 3 + length number_rest" by (simp add: number_boot_items)
  from token_runs [OF assms(1) hi assms(2) new new cells assms(4-7)] obtain img s where
    b: "built cs number_boot input (k + 9, cfas, es) img s"
    and exec: "executes kernel_config (boot_state img s) (ticks (51 + 11 * length input)
      (run_items (k + 9) ?env cfas kernel_config number_rest (token_taken x rest (boot_state img s))))"
    unfolding number_boot_items by blast
  let ?t = "token_taken x rest (boot_state img s)"
  let ?v = "?t\<lparr>vds := [1984, 1984], vip := 2 + vip ?t\<rparr>"
  let ?w = "?t\<lparr>vip := vip ?t + 6, vds := number_answer (codes x), vhalted := True\<rparr>"
  have v: "vcells ?t = put_cells (cells s) 1984 (int (length x) # codes x)" "vds ?t = [1984]" "\<not> vhalted ?t"
      "length (cells s) = 2048"
    using b by (simp_all add: token_taken_def built_def)
  have unsmudged: "list_all (\<lambda>e. esmudge (fst e) = 0) es"
    using plan_words_unsmudged [OF assms(1) [unfolded empty_plan_def]] by simp
  have v': "vcells ?v = put_cells (cells s) 1984 (int (length x) # codes x)" "vds ?v = 1984 # [1984]"
    "length [1984 :: int] + 2 \<le> dcap kernel_config"
    using v(1) by (simp_all add: kernel_config_def)
  note found = find_token [OF b assms(2) kernel_words_count [OF assms(1)] unsmudged v'(1) assms(6) v'(2,3)]
  obtain fl xt where "find_word kernel_config ?v = Next (?v\<lparr>vds := [fl, xt] @ [1984]\<rparr>)"
    using found(1) by (metis find_answer.elims)
  then have step: "find_word kernel_config ?v = Next (?t\<lparr>vds := [fl, xt, 1984], vip := 2 + vip ?t\<rparr>)" by simp
  have counted: "counted (vcells ?t) 1984 = Some (codes x)" and at: "vcells ?t ! 1984 = int (length x)"
    using counted_put_cells [of 1984 "codes x" "cells s"] v(1,4) assms(6) by (simp_all add: nth_put_cells)
  have "run_items (k + 9) ?env cfas kernel_config number_rest ?t = (112 + find_cost ?v + 26 * nat (vcells ?t ! 1984), Next ?w)"
    by (rule number_tail [where a = fl and b = xt]) (use names(2) v(2,3) counted step in \<open>simp_all add: kernel_config_def\<close>)
  with exec at have run: "executes kernel_config (boot_state img s) (163 + 11 * length input + find_cost ?v + 26 * length x, Next ?w)"
    by (simp add: add.assoc)
  have budget: "int (3 + (163 + 11 * length input + find_cost ?v + 26 * length x)) < m"
  proof -
    have "int (find_cost ?v) \<le> int ((39 + length cs) * (13 * length x + 45) + 21)" using found(2) by (simp only: of_nat_le_iff)
    with assms(8) show ?thesis by simp
  qed
  have "vhalted ?w" "vds ?w = number_answer (codes x)" "vin ?w = codes rest" by (simp_all add: token_taken_def)
  with built_halts [OF b run _ budget] b show ?thesis by (metis built_def)
qed

text \<open>
  C9. Typing a token converts it: on any built system whose words leave the ones it uses as they are, the boot thread
  \<^verbatim>\<open>LIT 32 WORD DUP FIND DROP DROP NUMBER BYE\<close>, the choice between lookup and literal of the integration tests, takes the first
  token of the input and halts with what it denotes as a signed decimal number and a true flag on the data stack, or with two zeros
  when it denotes none, whatever \<^verbatim>\<open>FIND\<close> answered.
\<close>

theorem typed_token_converted:
  assumes "plan_words kernel_labels (kernel_words cs) empty_plan = Inr (k, cfas, es)" and "k + 9 \<le> 1984"
    and "list_all (\<lambda>w. col_name w \<notin> {''LIT'', ''WORD'', ''DUP'', ''FIND'', ''DROP'', ''NUMBER'', ''BYE''}) cs"
    and "x \<noteq> []" and "CHR '' '' \<notin> set x" and "length x \<le> 63" and "input = replicate n (CHR '' '') @ x @ CHR '' '' # rest"
    and "187 + 11 * int (length input) + 26 * int (length x) +
      (39 + int (length cs)) * (13 * int (length x) + 45) < m"
  shows "\<exists>img s t. build_image cs number_boot (typed input) = (Inr img, s) \<and>
    run m (boot img s) = (Inr (), t) \<and> halted t \<and> ds t = number_answer (codes x) \<and> inq t = codes rest"
  using assms by (rule token_converted)

theorem typed_token_converted_witness:
  "\<exists>img s t. build_image [] number_boot (typed ''4x2 '') = (Inr img, s) \<and>
     run DEFAULT_MAX_STEPS (boot img s) = (Inr (), t) \<and> ds t = [0, 0] \<and> inq t = []"
proof -
  obtain es where plan: "plan_words kernel_labels (kernel_words []) empty_plan = Inr (311, kernel_cfas, es)"
    using kernel_plan by (auto simp: kernel_words_def)
  from typed_token_converted [OF plan, of "''4x2''" "''4x2 ''" 0 "[]" DEFAULT_MAX_STEPS] show ?thesis
    by (auto simp: number_answer_def)
qed

text \<open>A rendered integer is read back.\<close>

theorem typed_number_read:
  assumes "plan_words kernel_labels (kernel_words cs) empty_plan = Inr (k, cfas, es)" and "k + 9 \<le> 1984"
    and "list_all (\<lambda>w. col_name w \<notin> {''LIT'', ''WORD'', ''DUP'', ''FIND'', ''DROP'', ''NUMBER'', ''BYE''}) cs"
    and "length (py_str_int i) \<le> 63" and "input = replicate n (CHR '' '') @ py_str_int i @ CHR '' '' # rest"
    and "187 + 11 * int (length input) + 26 * int (length (py_str_int i)) +
      (39 + int (length cs)) * (13 * int (length (py_str_int i)) + 45) < m"
  shows "\<exists>img s t. build_image cs number_boot (typed input) = (Inr img, s) \<and>
    run m (boot img s) = (Inr (), t) \<and> halted t \<and> ds t = [1, i] \<and> inq t = codes rest"
  using token_converted [OF assms(1-3) number_token assms(4-6)] by (simp add: number_answer_def number_value_decimal)

theorem typed_number_read_witness:
  "\<exists>img s t. build_image [] number_boot (typed ''-42 '') = (Inr img, s) \<and>
     run DEFAULT_MAX_STEPS (boot img s) = (Inr (), t) \<and> ds t = [1, - 42] \<and> inq t = []"
proof -
  obtain es where plan: "plan_words kernel_labels (kernel_words []) empty_plan = Inr (311, kernel_cfas, es)"
    using kernel_plan by (auto simp: kernel_words_def)
  have rendered: "py_str_int (- 42) = ''-42''" by (simp add: py_str_int_def decimal_small decimal_large digit_char_def)
  from typed_number_read [OF plan, of "- 42" "''-42 ''" 0 "[]" DEFAULT_MAX_STEPS] show ?thesis
    by (auto simp: rendered)
qed

subsection \<open>Input without a delimiter\<close>

lemma until_delim_open: "x \<notin> set tok \<Longrightarrow> until_delim x tok = (tok, None)"
  by (induction tok) auto

lemma word_word_open:
  assumes "vds v = x # d" and "vin v = replicate n x @ tok" and "x \<notin> set tok" and "1985 + length tok \<le> length (vcells v)"
  shows "word_word c v = Fail InputExhaustedError"
proof -
  have "dropWhile (\<lambda>y. y = x) (vin v) = tok"
    using assms(2,3) by (cases tok) (auto simp: dropWhile_append)
  then show ?thesis
    using assms(1,4) until_delim_open [OF assms(3)] by (simp add: word_word_def Let_def)
qed

lemma open_meaning:
  assumes "env ''LIT'' = kernel_env ''LIT''" and "env ''WORD'' = kernel_env ''WORD''"
    and "vin v = codes (replicate n (CHR '' '') @ x)" and "CHR '' '' \<notin> set x" and "length x \<le> 63"
    and "length (vcells v) = 2048" and "length (vds v) < dcap c" and "\<not> vhalted v"
  shows "run_items hi env cfas c (token_prefix @ its) v = (51 + 11 * length (vin v), Fail InputExhaustedError)"
proof -
  let ?v = "v\<lparr>vip := vip v + 2, vds := 32 # vds v\<rparr>"
  have "word_word c (?v\<lparr>vip := 3 + vip v\<rparr>) = Fail InputExhaustedError"
    using assms(3,5,6) blank_code [OF assms(4)]
    by (intro word_word_open [where d = "vds v" and n = n and tok = "codes x"]) (simp_all add: codes_def)
  then show ?thesis
    using assms(1,2,7,8) by (simp add: token_prefix_def kernel_env_lookup token_env pushed_def)
qed

text \<open>
  C10. Input that ends before a token does is reported: on any built system, a boot thread that begins with \<^verbatim>\<open>LIT 32 WORD\<close> ends in
  \<^verbatim>\<open>InputExhaustedError\<close> when the input is blank or its first token, of at most 63 characters, has no blank after it.
\<close>

theorem typed_token_unterminated:
  assumes "plan_words kernel_labels (kernel_words cs) empty_plan = Inr (k, cfas, es)"
    and "list_all (\<lambda>w. col_name w \<notin> {''LIT'', ''WORD''}) cs" and "gather (item_cell cfas) (boot_thread items) = Inr vs"
    and "k + 3 + length items \<le> 2048" and "CHR '' '' \<notin> set x" and "length x \<le> 63" and "input = replicate n (CHR '' '') @ x"
    and "54 + 11 * int (length input) < m"
  shows "\<exists>img s. build_image cs (boot_thread ([Inl ''LIT'', Inr 32, Inl ''WORD''] @ items)) (typed input) = (Inr img, s) \<and>
    fst (run m (boot img s)) = Inl InputExhaustedError"
proof -
  define its where "its = boot_thread items"
  have boot: "boot_thread ([Inl ''LIT'', Inr 32, Inl ''WORD''] @ items) = token_prefix @ its"
    and size: "k + length (token_prefix @ its) \<le> 2048"
    using assms(4) by (simp_all add: its_def boot_thread_def token_prefix_def)
  have new: "''LIT'' \<notin> col_name ` set cs" "''WORD'' \<notin> col_name ` set cs" using assms(2) by (auto simp: list_all_iff)
  note names = kernel_names_kept [OF assms(1) new(1)] kernel_names_kept [OF assms(1) new(2)]
  have "gather (item_cell cfas) (token_prefix @ its) = Inr ([15, 32, 301] @ vs)"
    using names(1,3) assms(3) by (simp add: its_def token_prefix_def cfa_of_def kernel_cfas_lookup token_cfas)
  from typed_builds [OF assms(1) this size, of input] obtain hi img s where
    b: "built cs (token_prefix @ its) input (hi, cfas, es) img s"
    and exec: "executes kernel_config (boot_state img s)
      (boot_meaning cs hi cfas kernel_config (token_prefix @ its) (boot_state img s))"
    by blast
  have "boot_meaning cs hi cfas kernel_config (token_prefix @ its) (boot_state img s) =
      (51 + 11 * length (vin (boot_state img s)), Fail InputExhaustedError)"
    unfolding boot_meaning_def using b names(2,4) assms(5-7)
    by (intro open_meaning) (simp_all add: built_def kernel_config_def)
  with b exec have "executes kernel_config (boot_state img s) (51 + 11 * length input, Fail InputExhaustedError)"
    by (simp add: built_def)
  then have "ends_as (Fail InputExhaustedError) (run m (boot img s))"
    using b assms(8) by (intro kernel_ends_as [where n = "51 + 11 * length input"])
      (simp_all add: built_def view_boot del: boot_sel(4,5))
  with b show ?thesis unfolding boot by (auto simp: ends_as_def built_def)
qed

theorem typed_token_unterminated_witness:
  "\<exists>img s. build_image [] (boot_thread [Inl ''LIT'', Inr 32, Inl ''WORD'', Inl ''FIND'', Inl ''BYE'']) (typed '' DUP'') = (Inr img, s) \<and>
     fst (run DEFAULT_MAX_STEPS (boot img s)) = Inl InputExhaustedError"
proof -
  obtain es where plan: "plan_words kernel_labels (kernel_words []) empty_plan = Inr (311, kernel_cfas, es)"
    using kernel_plan by (auto simp: kernel_words_def)
  have "gather (item_cell kernel_cfas) (boot_thread [Inl ''FIND'', Inl ''BYE'']) = Inr [310, 32]"
    by (simp add: boot_thread_def cfa_of_def kernel_cfas_lookup token_cfas)
  from typed_token_unterminated [OF plan _ this, of "''DUP''" "'' DUP''" 1 DEFAULT_MAX_STEPS] show ?thesis by simp
qed

end
