(* ===== verification/Agreement.thy ===== *)
theory Agreement
  imports Tokens Forth
begin

section \<open>The two Forths agree\<close>

text \<open>
  The package has two Forths: the service of \<^verbatim>\<open>services/forth.py\<close>, which calls Python functions by name, and the
  kernel of \<^verbatim>\<open>services/kernel/\<close>, whose threads the emulator runs instruction by instruction. Here is one meaning of
  colon definitions over the stack words both have, on lists and with early binding, and both are proved to follow it,
  results and stack errors alike. Before that the single words: Python function beside assembled routine.
\<close>

subsection \<open>A meaning on lists\<close>

text \<open>
  \<open>None\<close> is no claim: a word they do not share, a comparison (their truth values differ), or \<^verbatim>\<open>*\<close> with a negative number on
  top, on which the kernel does not stop.
\<close>

definition shared_effect :: "string \<Rightarrow> (nat \<times> (int list \<Rightarrow> int list)) option" where
  "shared_effect x = (if x \<in> set flag_words then None else map_of service_effects x)"

definition basic_meaning :: "nat \<Rightarrow> string \<Rightarrow> int list \<Rightarrow> (error + int list) option" where
  "basic_meaning c x d =
     (if x = ''*'' \<and> 2 \<le> length d \<and> hd d < 0 then None
      else map_option (\<lambda>(n, f). list_effect n f c d) (shared_effect x))"

fun thread_meaning :: "(string \<Rightarrow> int list \<Rightarrow> (error + int list) option) \<Rightarrow> string list \<Rightarrow> int list \<Rightarrow> (error + int list) option" where
  "thread_meaning f [] d = Some (Inr d)"
| "thread_meaning f (x # xs) d =
     (case f x d of
        None \<Rightarrow> None
      | Some (Inl e) \<Rightarrow> Some (Inl e)
      | Some (Inr d') \<Rightarrow> thread_meaning f xs d')"

text \<open>The definitions are listed newest first; the body of one knows the older ones only.\<close>

primrec meaning_in :: "nat \<Rightarrow> colon_word list \<Rightarrow> string \<Rightarrow> int list \<Rightarrow> (error + int list) option" where
  "meaning_in c [] = basic_meaning c"
| "meaning_in c (w # older) =
     (\<lambda>x d. if x = col_name w then thread_meaning (meaning_in c older) (col_words w) d else meaning_in c older x d)"

text \<open>Results fit where the arguments did.\<close>

definition bounded_meaning :: "nat \<Rightarrow> (string \<Rightarrow> int list \<Rightarrow> (error + int list) option) \<Rightarrow> bool" where
  "bounded_meaning c f \<longleftrightarrow> (\<forall>x d d'. f x d = Some (Inr d') \<longrightarrow> length d \<le> c \<longrightarrow> length d' \<le> c)"

lemma thread_meaning_fits:
  "bounded_meaning c f \<Longrightarrow> thread_meaning f xs d = Some (Inr d') \<Longrightarrow> length d \<le> c \<Longrightarrow> length d' \<le> c"
  by (induction xs arbitrary: d) (auto simp: bounded_meaning_def split: option.splits sum.splits)

lemma meaning_fits: "bounded_meaning c (meaning_in c ws)"
proof (induction ws)
  case Nil
  then show ?case
    by (auto simp: bounded_meaning_def basic_meaning_def list_effect_def Let_def split: if_splits)
next
  case (Cons w ws)
  then show ?case
    using thread_meaning_fits [OF Cons] by (auto simp: bounded_meaning_def split: if_splits)
qed

subsection \<open>The kernel follows it\<close>

definition vm_result :: "vm \<Rightarrow> error + int list \<Rightarrow> vm outcome" where
  "vm_result v r = (case r of Inl e \<Rightarrow> Fail e | Inr d \<Rightarrow> Next (v\<lparr>vds := d\<rparr>))"

text \<open>The name acts as \<open>f\<close> means, on every Forth state with \<open>n\<close> free cells on the return stack.\<close>

definition follows_meaning ::
  "environment \<Rightarrow> nat \<Rightarrow> (string \<Rightarrow> int list \<Rightarrow> (error + int list) option) \<Rightarrow> config \<Rightarrow> bool"
where
  "follows_meaning env n f c \<longleftrightarrow>
     (\<forall>x d r. f x d = Some r \<longrightarrow> length d \<le> dcap c \<longrightarrow> (\<exists>g. env x = Some (Acts g) \<and>
        (\<forall>v. vds v = d \<longrightarrow> length (vrs v) + n \<le> rcap c \<longrightarrow> \<not> vhalted v \<longrightarrow> (\<exists>t. g c v = (t, vm_result v r)))))"

lemma effect_result: "vds v = d \<Longrightarrow> effect n f c v = vm_result v (list_effect n f (dcap c) d)"
  by (simp add: effect_def list_effect_def vm_result_def Let_def)

lemma times_result:
  "vds v = d \<Longrightarrow> length d \<le> dcap c \<Longrightarrow> \<not> (2 \<le> length d \<and> hd d < 0) \<Longrightarrow>
     times_word c v = vm_result v (list_effect 2 (\<lambda>s. [s ! 1 * s ! 0]) (dcap c) d)"
  by (cases d; cases "tl d") (auto simp: times_word_def list_effect_def vm_result_def)

lemma shared_kernel_env:
  "list_all (\<lambda>(x, n, f). x \<in> set flag_words \<or> x = ''*'' \<or> kernel_env x = Some (Acts (\<lambda>c v. (16, effect n f c v)))) service_effects"
  by (simp add: service_effects_def flag_words_def kernel_env_def CODE_WORDS_def PRIMITIVES_def primitive_def code_meaning_def
      code_semantics_def stack_words_def)

lemma run_items_follows:
  assumes "follows_meaning env n f c" and "bounded_meaning (dcap c) f"
    and "thread_meaning f xs (vds v) = Some r" and "length (vds v) \<le> dcap c" and "length (vrs v) + n \<le> rcap c" and "\<not> vhalted v"
  shows "\<exists>t. run_items hi env cfas c (map WordReference xs @ its) v =
    (case r of Inl e \<Rightarrow> (t, Fail e)
     | Inr d' \<Rightarrow> ticks t (run_items hi env cfas c its (v\<lparr>vip := vip v + int (length xs), vds := d'\<rparr>)))"
  using assms(3-6)
proof (induction xs arbitrary: v)
  case Nil
  then show ?case by (auto simp: ticks_def intro!: exI [of _ 0])
next
  case (Cons x xs)
  from Cons.prems(1) obtain q where q: "f x (vds v) = Some q"
    and rest: "case q of Inl e \<Rightarrow> r = Inl e | Inr d' \<Rightarrow> thread_meaning f xs d' = Some r"
    by (auto split: option.splits sum.splits)
  let ?v = "v\<lparr>vip := vip v + 1\<rparr>"
  from assms(1) q Cons.prems(2) obtain g where g: "env x = Some (Acts g)"
      "\<And>w. vds w = vds v \<Longrightarrow> length (vrs w) + n \<le> rcap c \<Longrightarrow> \<not> vhalted w \<Longrightarrow> \<exists>t. g c w = (t, vm_result w q)"
    unfolding follows_meaning_def by blast
  from g(2) [of ?v] Cons.prems(3,4) obtain t where t: "g c ?v = (t, vm_result ?v q)" by auto
  show ?case
  proof (cases q)
    case (Inl e)
    with rest g(1) t show ?thesis by (auto simp: vm_result_def)
  next
    case (Inr d')
    let ?w = "?v\<lparr>vds := d'\<rparr>"
    have step: "run_items hi env cfas c (map WordReference (x # xs) @ its) v =
        ticks t (run_items hi env cfas c (map WordReference xs @ its) ?w)"
      using g(1) t Inr Cons.prems(4) by (simp add: vm_result_def)
    have "thread_meaning f xs (vds ?w) = Some r" "length (vds ?w) \<le> dcap c" "length (vrs ?w) + n \<le> rcap c" "\<not> vhalted ?w"
      using rest Inr assms(2) q Cons.prems(2-4) by (auto simp: bounded_meaning_def)
    from Cons.IH [OF this] obtain u where u: "run_items hi env cfas c (map WordReference xs @ its) ?w =
      (case r of Inl e \<Rightarrow> (u, Fail e)
       | Inr d' \<Rightarrow> ticks u (run_items hi env cfas c its (?w\<lparr>vip := vip ?w + int (length xs), vds := d'\<rparr>)))"
      by blast
    show ?thesis
      unfolding step u by (rule exI [of _ "t + u"]) (simp add: ticks_def add.assoc split: sum.splits)
  qed
qed

text \<open>The kernel's own words, then one colon word more at a time.\<close>

lemma kernel_env_follows: "follows_meaning kernel_env n (basic_meaning (dcap c)) c"
  unfolding follows_meaning_def
proof (intro allI impI)
  fix x d r
  assume r: "basic_meaning (dcap c) x d = Some r" and d: "length d \<le> dcap c"
  then obtain k f where e: "map_of service_effects x = Some (k, f)" "x \<notin> set flag_words" "r = list_effect k f (dcap c) d"
      "x = ''*'' \<Longrightarrow> \<not> (2 \<le> length d \<and> hd d < 0)"
    by (auto simp: basic_meaning_def shared_effect_def split: if_splits)
  show "\<exists>g. kernel_env x = Some (Acts g) \<and>
    (\<forall>v. vds v = d \<longrightarrow> length (vrs v) + n \<le> rcap c \<longrightarrow> \<not> vhalted v \<longrightarrow> (\<exists>t. g c v = (t, vm_result v r)))"
  proof (cases "x = ''*''")
    case True
    with e(1) have "k = 2" "f = (\<lambda>s. [s ! 1 * s ! 0])" by (simp_all add: service_effects_def)
    with e(3,4) True d show ?thesis by (simp add: kernel_env_lookup times_result)
  next
    case False
    with shared_kernel_env e(1,2) have "kernel_env x = Some (Acts (\<lambda>c v. (16, effect k f c v)))"
      by (auto simp: list_all_iff dest!: map_of_SomeD)
    with e(3) show ?thesis by (simp add: effect_result)
  qed
qed

lemma colon_follows:
  assumes "follows_meaning env n f c" and "bounded_meaning (dcap c) f"
    and "env EXIT_WORD = kernel_env EXIT_WORD" and "y \<noteq> EXIT_WORD"
  shows "follows_meaning (env(y \<mapsto> Acts (colon_meaning hi env cfas a ws))) (Suc n)
    (\<lambda>x d. if x = y then thread_meaning f ws d else f x d) c"
  unfolding follows_meaning_def
proof (intro allI impI)
  fix x d r
  assume r: "(if x = y then thread_meaning f ws d else f x d) = Some r" and d: "length d \<le> dcap c"
  show "\<exists>g. (env(y \<mapsto> Acts (colon_meaning hi env cfas a ws))) x = Some (Acts g) \<and>
    (\<forall>v. vds v = d \<longrightarrow> length (vrs v) + Suc n \<le> rcap c \<longrightarrow> \<not> vhalted v \<longrightarrow> (\<exists>t. g c v = (t, vm_result v r)))"
  proof (cases "x = y")
    case False
    with assms(1) r d show ?thesis
      unfolding follows_meaning_def by simp (metis Suc_leD)
  next
    case True
    have "\<exists>t. colon_meaning hi env cfas a ws c v = (t, vm_result v r)"
      if v: "vds v = d" "length (vrs v) + Suc n \<le> rcap c" "\<not> vhalted v" for v
    proof -
      let ?e = "v\<lparr>vrs := vip v # vrs v, vip := a + 1\<rparr>"
      have "thread_meaning f ws (vds ?e) = Some r" using r True v(1) by simp
      from run_items_follows [OF assms(1,2) this, where hi = hi and cfas = cfas and its = "[WordReference EXIT_WORD]"] v d obtain t where
        t: "run_items hi env cfas c (map WordReference ws @ [WordReference EXIT_WORD]) ?e =
          (case r of Inl e \<Rightarrow> (t, Fail e)
           | Inr d' \<Rightarrow> ticks t (run_items hi env cfas c [WordReference EXIT_WORD] (?e\<lparr>vip := vip ?e + int (length ws), vds := d'\<rparr>)))"
        by auto
      have "run_items hi env cfas c [WordReference EXIT_WORD] (?e\<lparr>vip := vip ?e + int (length ws), vds := d'\<rparr>) = (16, Next (v\<lparr>vds := d'\<rparr>))"
        for d' using assms(3) v(3) by (simp add: EXIT_WORD_def kernel_env_lookup exit_word_def)
      with t v(2) show ?thesis by (auto simp: colon_meaning_def vm_result_def split: sum.splits)
    qed
    with True show ?thesis by auto
  qed
qed

lemma kernel_follows:
  assumes "plan_words kernel_labels (kernel_words cs) empty_plan = Inr p" and "''EXIT'' \<notin> col_name ` set cs"
  shows "follows_meaning (denote hi kernel_labels (kernel_words cs) empty_plan (\<lambda>_. None)) (length cs) (meaning_in (dcap c) (rev cs)) c"
  using assms
proof (induction cs arbitrary: p rule: rev_induct)
  case Nil
  then show ?case using kernel_plan kernel_env_follows by (auto simp: kernel_words_def denote_kernel [of _ "[]", simplified])
next
  case (snoc w cs)
  have words: "kernel_words (cs @ [w]) = kernel_words cs @ [ColonWord w]" by (simp add: kernel_words_def)
  from snoc.prems(1) obtain q where q: "plan_words kernel_labels (kernel_words cs) empty_plan = Inr q"
      "plan_word kernel_labels (ColonWord w) q = Inr p"
    by (auto simp: words plan_words_append attempt_eq_Inr)
  obtain k cfas es where kce: "q = (k, cfas, es)" by (cases q)
  let ?env = "denote hi kernel_labels (kernel_words cs) empty_plan (\<lambda>_. None)"
  have "denote hi kernel_labels (kernel_words (cs @ [w])) empty_plan (\<lambda>_. None) =
      ?env(col_name w \<mapsto> Acts (colon_meaning hi ?env cfas (int (k + 4 + length (col_name w))) (col_words w)))"
    unfolding words denote_append [OF q(1)] using q(2) by (simp add: kce)
  moreover have exit: "?env EXIT_WORD = kernel_env EXIT_WORD" and fresh: "col_name w \<noteq> EXIT_WORD"
    using kernel_names_kept(2) [OF q(1) [unfolded kce], of "''EXIT''"] snoc.prems(2) by (auto simp: EXIT_WORD_def)
  moreover have old: "follows_meaning ?env (length cs) (meaning_in (dcap c) (rev cs)) c" using snoc.IH [OF q(1)] snoc.prems(2) by auto
  ultimately show ?case
    using colon_follows [OF old meaning_fits exit fresh] by (simp del: fun_upd_apply)
qed

subsection \<open>The service follows it\<close>

definition settles :: "error + int list \<Rightarrow> (error + unit) \<times> 'a datapath_scheme \<Rightarrow> bool" where
  "settles r x \<longleftrightarrow> (case r of Inl e \<Rightarrow> fst x = Inl e | Inr d \<Rightarrow> fst x = Inr () \<and> ds (snd x) = d)"

text \<open>With these definitions, every name does what \<open>f\<close> means, in calls nested \<open>n\<close> deep.\<close>

definition serves ::
  "(string \<rightharpoonup> word) \<Rightarrow> (string \<rightharpoonup> string list) \<Rightarrow> nat \<Rightarrow> nat \<Rightarrow> (string \<Rightarrow> int list \<Rightarrow> (error + int list) option) \<Rightarrow> bool"
where
  "serves D C c n f \<longleftrightarrow>
     (\<forall>x s r m. layout_ok s \<longrightarrow> dictionary s = D \<longrightarrow> colon_defs s = C \<longrightarrow> region (dstk s) = c \<longrightarrow> f x (ds s) = Some r \<longrightarrow> n \<le> m \<longrightarrow>
        (\<exists>w. D x = Some w \<and> settles r (execute m w s)))"

lemma run_words_serves:
  assumes "serves D C c n f" and "layout_ok s" and "dictionary s = D" and "colon_defs s = C" and "region (dstk s) = c"
    and "thread_meaning f xs (ds s) = Some r" and "n \<le> m"
  shows "settles r (run_words (execute m) xs s)"
  using assms(2-6)
proof (induction xs arbitrary: s)
  case Nil
  then show ?case by (auto simp: settles_def)
next
  case (Cons x xs)
  from Cons.prems(5) obtain q where q: "f x (ds s) = Some q"
    and rest: "case q of Inl e \<Rightarrow> r = Inl e | Inr d' \<Rightarrow> thread_meaning f xs d' = Some r"
    by (auto split: option.splits sum.splits)
  from assms(1) q Cons.prems(1-4) assms(7) obtain w where w: "D x = Some w" "settles q (execute m w s)"
    unfolding serves_def by metis
  obtain res t where t: "execute m w s = (res, t)" by (cases "execute m w s")
  with Cons.prems(1) service_keeps_execute [of m w] have kept: "service_kept s t" by (auto simp: service_keeps_def dest: spec [of _ s])
  show ?case
  proof (cases q)
    case (Inl e)
    with rest w t Cons.prems(2) show ?thesis by (simp add: settles_def)
  next
    case (Inr d')
    with w(2) t have "res = Inr ()" "ds t = d'" by (simp_all add: settles_def)
    moreover have "settles r (run_words (execute m) xs t)"
      using Cons.IH [of t] kept rest Inr \<open>ds t = d'\<close> Cons.prems by (simp add: service_kept_def)
    ultimately show ?thesis using w(1) t Cons.prems(2) by simp
  qed
qed

lemma basic_serves:
  assumes "\<And>x. map_of service_effects x \<noteq> None \<Longrightarrow> D x = map_option Builtin (map_of minimal_dictionary x)"
  shows "serves D C c 1 (basic_meaning c)"
  unfolding serves_def
proof (intro allI impI)
  fix x :: string and s :: forth and r m
  assume s: "layout_ok s" "region (dstk s) = c" and "basic_meaning c x (ds s) = Some r" and m: "1 \<le> (m :: nat)"
  then obtain k f where e: "map_of service_effects x = Some (k, f)" "r = list_effect k f c (ds s)"
    by (auto simp: basic_meaning_def shared_effect_def split: if_splits)
  from e(1) have "(x, k, f) \<in> set service_effects" by (rule map_of_SomeD)
  with service_effects_all [OF s(1)] obtain b where
    b: "map_of minimal_dictionary x = Some b" "does_effect k f s (call_builtin b [] s)"
    unfolding list_all_iff by blast
  have "execute m (Builtin b) s = call_builtin b [] s" using m by (cases m) simp_all
  with b(2) e(2) s(2) have "settles r (execute m (Builtin b) s)" by (simp add: does_effect_def settles_def split: sum.splits)
  with assms [of x] e(1) b(1) show "\<exists>w. D x = Some w \<and> settles r (execute m w s)" by auto
qed

lemma colon_serves:
  assumes "serves D C c n f" and "D y = Some (Colon y)" and "C y = Some ws"
  shows "serves D C c (Suc n) (\<lambda>x d. if x = y then thread_meaning f ws d else f x d)"
  unfolding serves_def
proof (intro allI impI)
  fix x :: string and s :: forth and r m
  assume s: "layout_ok s" "dictionary s = D" "colon_defs s = C" "region (dstk s) = c"
    and r: "(if x = y then thread_meaning f ws (ds s) else f x (ds s)) = Some r" and m: "Suc n \<le> (m :: nat)"
  show "\<exists>w. D x = Some w \<and> settles r (execute m w s)"
  proof (cases "x = y")
    case True
    obtain m' where "m = Suc m'" "n \<le> m'" using m by (cases m) auto
    moreover from this True r have "settles r (run_words (execute m') ws s)"
      by (intro run_words_serves [OF assms(1) s]) simp_all
    ultimately show ?thesis using assms(2,3) s(3) True by auto
  next
    case False
    with assms(1) s r m show ?thesis unfolding serves_def by (metis Suc_leD)
  qed
qed

lemma service_follows:
  assumes "\<And>x. map_of service_effects x \<noteq> None \<Longrightarrow> D x = map_option Builtin (map_of minimal_dictionary x)"
    and "\<And>w. w \<in> set ws \<Longrightarrow> D (col_name w) = Some (Colon (col_name w)) \<and> C (col_name w) = Some (col_words w)"
  shows "serves D C c (Suc (length ws)) (meaning_in c ws)"
  using assms(2)
proof (induction ws)
  case Nil
  then show ?case using basic_serves [OF assms(1)] by simp
next
  case (Cons w ws)
  then show ?case using colon_serves [of D C c "Suc (length ws)" "meaning_in c ws" "col_name w" "col_words w"] by simp
qed

text \<open>The service with colon definitions added in order.\<close>

definition service_with :: "colon_word list \<Rightarrow> emulator \<Rightarrow> forth" where
  "service_with cs e = fold (\<lambda>w. add_colon_def (col_name w) (col_words w)) cs (forth_new e)"

lemma service_with_snoc: "service_with (cs @ [w]) e = add_colon_def (col_name w) (col_words w) (service_with cs e)"
  by (simp add: service_with_def)

lemma service_with_sel:
  assumes "layout_ok e"
  shows "layout_ok (service_with cs e)" "ds (service_with cs e) = ds e" "region (dstk (service_with cs e)) = region (dstk e)"
    "x \<notin> col_name ` set cs \<Longrightarrow> dictionary (service_with cs e) x = map_option Builtin (map_of minimal_dictionary x)"
    "distinct (map col_name cs) \<Longrightarrow> w \<in> set cs \<Longrightarrow> dictionary (service_with cs e) (col_name w) = Some (Colon (col_name w)) \<and>
       colon_defs (service_with cs e) (col_name w) = Some (col_words w)"
proof -
  have *: "layout_ok (service_with cs e) \<and> ds (service_with cs e) = ds e \<and> region (dstk (service_with cs e)) = region (dstk e) \<and>
    (x \<notin> col_name ` set cs \<longrightarrow> dictionary (service_with cs e) x = map_option Builtin (map_of minimal_dictionary x)) \<and>
    (distinct (map col_name cs) \<longrightarrow> (\<forall>w \<in> set cs. dictionary (service_with cs e) (col_name w) = Some (Colon (col_name w)) \<and>
       colon_defs (service_with cs e) (col_name w) = Some (col_words w)))"
  proof (induction cs rule: rev_induct)
    case Nil
    show ?case using forth_new_ok [OF assms] by (simp add: service_with_def map_of_map comp_def)
  next
    case (snoc w cs)
    then show ?case
      by (auto simp: service_with_snoc add_colon_def_def layout_ok_def ds_def image_iff)
  qed
  then show "layout_ok (service_with cs e)" "ds (service_with cs e) = ds e" "region (dstk (service_with cs e)) = region (dstk e)"
    "x \<notin> col_name ` set cs \<Longrightarrow> dictionary (service_with cs e) x = map_option Builtin (map_of minimal_dictionary x)"
    "distinct (map col_name cs) \<Longrightarrow> w \<in> set cs \<Longrightarrow> dictionary (service_with cs e) (col_name w) = Some (Colon (col_name w)) \<and>
       colon_defs (service_with cs e) (col_name w) = Some (col_words w)"
    by blast+
qed

subsection \<open>Word by word\<close>

text \<open>The kernel's meaning of a word the service also has: its comparisons give the truth value negated.\<close>

definition kernel_effect :: "string \<Rightarrow> nat \<Rightarrow> (int list \<Rightarrow> int list) \<Rightarrow> word_semantics" where
  "kernel_effect x k f =
     (if x \<in> set flag_words then effect k (\<lambda>s. map uminus (f s)) else if x = ''*'' then times_word else effect k f)"

lemma kernel_effects:
  "list_all (\<lambda>w. case map_of service_effects (cw_name w) of
      None \<Rightarrow> True
    | Some (k, f) \<Rightarrow> \<exists>n. map_of code_semantics (cw_routine_label w) = Some (n, kernel_effect (cw_name w) k f)) CODE_WORDS"
  by (simp add: CODE_WORDS_def PRIMITIVES_def primitive_def code_semantics_def stack_words_def service_effects_def
      kernel_effect_def flag_words_def flag_truth)

lemma kernel_effect_runs:
  assumes "assemble KERNEL_SOURCE = Inr a" and "w \<in> set CODE_WORDS" and "map_of service_effects (cw_name w) = Some (k, f)"
    and "enters a (cw_routine_label w) s" and "\<not> (cw_name w = ''*'' \<and> 2 \<le> length (ds s) \<and> hd (ds s) < 0)"
  shows "case list_effect k (if cw_name w \<in> set flag_words then \<lambda>s. map uminus (f s) else f) (region (dstk s)) (ds s) of
      Inl e \<Rightarrow> \<exists>n t u. goes n s t \<and> \<not> halted t \<and> step t = (Inl e, u)
    | Inr d \<Rightarrow> \<exists>n t. goes n s t \<and> returns a t \<and> ds t = d \<and> cells t = cells s \<and> rs t = rs s"
proof -
  let ?v = "view (abstract_of s)"
  let ?r = "list_effect k (if cw_name w \<in> set flag_words then \<lambda>s. map uminus (f s) else f) (region (dstk s)) (ds s)"
  from kernel_effects assms(2,3) obtain n where "map_of code_semantics (cw_routine_label w) = Some (n, kernel_effect (cw_name w) k f)"
    by (fastforce simp: list_all_iff)
  then have imp: "implements (config_of s) (the (kernel_labels (cw_routine_label w))) n (kernel_effect (cw_name w) k f)"
    using code_semantics_implemented [of "config_of s"] by (auto simp: list_all_iff dest!: map_of_SomeD)
  have s: "layout_ok s" "\<not> halted s" using assms(4) by (auto simp: enters_def)
  have v: "vds ?v = ds s" "vcells ?v = cells s" "vrs ?v = rs s" "\<not> vhalted ?v" "dcap (config_of s) = region (dstk s)"
    using s(2) by (simp_all add: view_def config_of_def)
  have times: "cw_name w = ''*'' \<Longrightarrow> k = 2 \<and> f = (\<lambda>s. [s ! 1 * s ! 0])"
    using assms(3) by (simp add: service_effects_def)
  have "kernel_effect (cw_name w) k f (config_of s) ?v = vm_result ?v ?r"
    using effect_result [OF v(1), of _ _ "config_of s"] times_result [OF v(1), of "config_of s"] stacks_in_region(1) [OF s(1)]
      assms(5) times v(5)
    by (auto simp: kernel_effect_def flag_words_def)
  with routine_runs [OF assms(1,4) imp] show ?thesis
    using settled_returns [OF assms(1)] v(2-4) by (cases ?r) (fastforce simp: vm_result_def)+
qed

lemma flag_word_results:
  "list_all (\<lambda>(x, k, f). x \<in> set flag_words \<longrightarrow> (\<forall>s. \<exists>b. f s = [truth b])) service_effects"
  by (auto simp: service_effects_def flag_words_def)

lemma negated_effect:
  assumes "\<And>s. \<exists>b. f s = [truth b]"
  shows "list_effect k (\<lambda>s. map uminus (f s)) c d =
    (case list_effect k f c d of Inl e \<Rightarrow> Inl e | Inr d' \<Rightarrow> Inr (- hd d' # tl d'))"
  using assms [of "take k d"] by (auto simp: list_effect_def)

lemma data_word_effect:
  assumes "w \<in> set CODE_WORDS" and "map_of minimal_dictionary (cw_name w) = Some b" and "data_word (list_push 0) list_pop list_peek b \<noteq> None"
  obtains k f where "map_of service_effects (cw_name w) = Some (k, f)"
proof -
  have "cw_name w \<notin> set (map fst service_divisions)"
    using assms(1) by (auto simp: CODE_WORDS_def PRIMITIVES_def primitive_def service_divisions_def)
  moreover have "cw_name w \<in> set (map fst service_effects @ map fst service_divisions)"
    using data_words_listed map_of_SomeD [OF assms(2)] assms(3) by (auto simp: list_all_iff)
  ultimately have "cw_name w \<in> fst ` set service_effects" by simp
  then obtain p where "map_of service_effects (cw_name w) = Some p" by (metis map_of_eq_None_iff not_None_eq)
  with that show thesis by (cases p) auto
qed

text \<open>
  C20. The service's words and the kernel's agree, name by name. Take a word of the kernel that the service has under the same name as a
  word on the data stack alone. From the same values on data stacks of the same size, the Python function called by the service and the
  assembled routine run by the emulator end alike: with the same values, except that the kernel's truth values are the service's
  negated, or with the same stack error. Left out is \<^verbatim>\<open>*\<close> with a negative number on top of another, which the kernel never finishes.
\<close>

theorem service_words_match_kernel:
  assumes "assemble KERNEL_SOURCE = Inr a" and "w \<in> set CODE_WORDS" and "map_of minimal_dictionary (cw_name w) = Some b"
    and "data_word (list_push 0) list_pop list_peek b \<noteq> None"
    and "enters a (cw_routine_label w) s" and "layout_ok f" and "ds f = ds s" and "region (dstk f) = region (dstk s)"
    and "\<not> (cw_name w = ''*'' \<and> 2 \<le> length (ds s) \<and> hd (ds s) < 0)"
  shows "case call_builtin b [] f of
      (Inl e, g) \<Rightarrow> \<exists>n t u. goes n s t \<and> \<not> halted t \<and> step t = (Inl e, u)
    | (Inr _, g) \<Rightarrow> \<exists>n t. goes n s t \<and> returns a t \<and> cells t = cells s \<and> rs t = rs s \<and>
        ds t = (if cw_name w \<in> set flag_words then - hd (ds g) # tl (ds g) else ds g)"
proof -
  obtain k h where e: "map_of service_effects (cw_name w) = Some (k, h)" using data_word_effect [OF assms(2-4)] .
  note run = kernel_effect_runs [OF assms(1,2) e assms(5,9)]
  have "does_effect k h f (call_builtin b [] f)"
    using service_effects_all [OF assms(6)] map_of_SomeD [OF e] assms(3) by (fastforce simp: list_all_iff)
  then have settles: "settles (list_effect k h (region (dstk s)) (ds s)) (call_builtin b [] f)"
    using assms(7,8) by (auto simp: does_effect_def settles_def split: sum.splits)
  have flags: "\<exists>b. h s = [truth b]" if "cw_name w \<in> set flag_words" for s
    using flag_word_results map_of_SomeD [OF e] that by (auto simp: list_all_iff)
  obtain r g where c: "call_builtin b [] f = (r, g)" by fastforce
  show ?thesis
  proof (cases "list_effect k h (region (dstk s)) (ds s)")
    case (Inl x)
    with settles run c flags show ?thesis
      by (cases "cw_name w \<in> set flag_words") (auto simp: settles_def negated_effect)
  next
    case (Inr d)
    with settles run c flags show ?thesis
      by (cases "cw_name w \<in> set flag_words") (auto simp: settles_def negated_effect)
  qed
qed

text \<open>\<^verbatim>\<open>3 5 <\<close> on both.\<close>

theorem service_words_match_kernel_witness:
  "\<exists>e n t. ds e = [5, 3] \<and> goes n (entering ''LESSTHAN'' e) t \<and> ds t = [-1] \<and>
     ds (snd (call_builtin (Binary (always (\<lambda>a b. truth (a < b)))) [] (forth_new e))) = [1]"
proof -
  let ?b = "Binary (always (\<lambda>a b. truth (a < b)))" and ?a = "\<lparr>aprogram = kernel_program, alabels = kernel_labels\<rparr>"
  obtain e1 :: emulator where e1: "push_d 3 kernel_machine_new = (Inr (), e1)" "layout_ok e1" "ds e1 = [3]" "same_but_d kernel_machine_new e1"
    using data_stack.push_ok [of kernel_machine_new 3] kernel_machine_new_ok by auto
  then have "region (dstk e1) = 1024" using kernel_machine_new_ok by (simp add: same_but_d_def same_region_def region_def)
  moreover from this obtain e :: emulator where "push_d 5 e1 = (Inr (), e)" "layout_ok e" "ds e = [5, 3]" "same_but_d e1 e"
    using data_stack.push_ok [of e1 5] e1(2,3) by auto
  ultimately have e: "layout_ok e" "ds e = [5, 3]" "region (dstk e) = 1024"
    by (simp_all add: same_but_d_def same_region_def region_def)
  have label: "kernel_labels ''LESSTHAN'' = Some 152" by (simp add: kernel_label_lookup)
  note s = entering_sel [OF e(1) label]
  note f = forth_new_ok [OF e(1)]
  let ?w = "\<lparr>cw_name = ''<'', cw_routine_label = ''LESSTHAN'', cw_immediate = False\<rparr>"
  have w: "?w \<in> set CODE_WORDS" by (simp add: CODE_WORDS_def PRIMITIVES_def primitive_def)
  have "does_effect 2 (\<lambda>s. [truth (s ! 1 < s ! 0)]) (forth_new e) (call_builtin ?b [] (forth_new e))"
    using service_effects_all [OF f(1)] by (simp add: service_effects_def minimal_dictionary_def del: call_builtin.simps)
  then have "fst (call_builtin ?b [] (forth_new e)) = Inr ()" "ds (snd (call_builtin ?b [] (forth_new e))) = [1]"
    using f e(2,3) by (simp_all add: does_effect_def list_effect_def truth_def)
  then obtain g where g: "call_builtin ?b [] (forth_new e) = (Inr (), g)" "ds g = [1]" by (metis prod.collapse)
  have "map_of minimal_dictionary ''<'' = Some ?b" by (simp add: minimal_dictionary_def)
  with service_words_match_kernel [OF assemble_kernel w, of ?b "entering ''LESSTHAN'' e" "forth_new e"] s f e g
  obtain n t where "goes n (entering ''LESSTHAN'' e) t" "ds t = [-1]"
    by (auto simp: flag_words_def simp del: call_builtin.simps)
  with e(2) g show ?thesis by (intro exI [of _ e]) auto
qed

subsection \<open>Agreement\<close>

lemma denote_installed:
  "plan_words tab ws (k, cfas, es) = Inr (k', cfas', es') \<Longrightarrow> dom env \<subseteq> dom cfas \<Longrightarrow> dom (denote hi tab ws (k, cfas, es) env) \<subseteq> dom cfas'"
proof (induction ws arbitrary: k cfas es env)
  case (Cons w ws)
  from Cons.prems(1) obtain k1 cfas1 es1 where one: "plan_word tab w (k, cfas, es) = Inr (k1, cfas1, es1)"
    and rest: "plan_words tab ws (k1, cfas1, es1) = Inr (k', cfas', es')"
    by (auto simp: attempt_eq_Inr)
  have "dom (env(spec_name w := word_meaning hi env (k, cfas, es) w)) \<subseteq> dom cfas1"
    using one Cons.prems(2) by (auto simp: plan_word_def attempt_eq_Inr Let_def split: if_splits)
  from Cons.IH [OF rest this] one show ?case by (simp del: fun_upd_apply)
qed simp

text \<open>The kernel with a boot thread of one name and \<^verbatim>\<open>BYE\<close>.\<close>

lemma kernel_settles:
  assumes "layout_ok e" and "dict_ok (cells e) 8 []"
    and "plan_words kernel_labels (kernel_words cs) empty_plan = Inr (k, cfas, es)" and "k + 2 \<le> length (cells e)"
    and "''EXIT'' \<notin> col_name ` set cs" and "''BYE'' \<notin> col_name ` set cs"
    and "length (rs e) + length cs \<le> region (rstk e)" and "meaning_in (region (dstk e)) (rev cs) x (ds e) = Some r"
  shows "\<exists>img s N. build_image cs (boot_thread [Inl x, Inl ''BYE'']) e = (Inr img, s) \<and> (\<forall>m. N < m \<longrightarrow> settles r (run m (boot img s)))"
proof -
  define hi where "hi = k + 2"
  let ?its = "[WordReference x, WordReference ''BYE'']" and ?c = "\<lparr>ccode = kernel_program, dcap = region (dstk e), rcap = region (rstk e)\<rparr>"
  let ?env = "denote hi kernel_labels (kernel_words cs) empty_plan (\<lambda>_. None)"
  note follows = kernel_follows [OF assms(3,5), of hi ?c]
  have fits: "length (ds e) \<le> dcap ?c" using stacks_in_region(1) [OF assms(1)] by simp
  with follows assms(8) obtain g where "?env x = Some (Acts g)" unfolding follows_meaning_def by fastforce
  then have "x \<in> dom cfas" using denote_installed [OF assms(3) [unfolded empty_plan_def], of "\<lambda>_. None" hi]
    by (auto simp: empty_plan_def)
  moreover have bye: "cfas ''BYE'' = Some 32" "?env ''BYE'' = kernel_env ''BYE''"
    using kernel_names_kept [OF assms(3,6)] by (simp_all add: kernel_cfas_lookup)
  ultimately obtain a where cells: "gather (item_cell cfas) ?its = Inr [a, 32]" by (auto simp: cfa_of_def)
  have size: "k + length ?its \<le> length (cells e)" using assms(4) by simp
  from image_executes [OF assms(1-3) cells size] obtain img s where
    s: "build_image cs ?its e = (Inr img, s)" "kprogram img = kernel_program" "layout_ok s" "same_but_cells e s"
    and run: "\<And>c. executes c (boot_state img s) (boot_meaning cs (k + length ?its) cfas c ?its (boot_state img s))"
    by blast
  have "k + length ?its = hi" by (simp add: hi_def)
  with run [of ?c] have exec: "executes ?c (boot_state img s) (run_items hi ?env cfas ?c ?its (boot_state img s))"
    by (simp only: boot_meaning_def)
  let ?v = "boot_state img s"
  note fields = same_but_cells_fields [OF s(4)]
  have c: "config_of (boot img s) = ?c" using s(2) fields by (simp add: config_of_def boot_def load_def)
  have v: "vds ?v = ds e" "vrs ?v = rs e" "\<not> vhalted ?v" using fields by (simp_all add: boot_state_def)
  have "thread_meaning (meaning_in (dcap ?c) (rev cs)) [x] (vds ?v) = Some r"
    using assms(8) v(1) by (simp split: sum.split)
  moreover have "length (vds ?v) \<le> dcap ?c" "length (vrs ?v) + length cs \<le> rcap ?c" using v fits assms(7) by simp_all
  ultimately obtain t where "run_items hi ?env cfas ?c (map WordReference [x] @ [WordReference ''BYE'']) ?v =
      (case r of Inl e \<Rightarrow> (t, Fail e)
       | Inr d \<Rightarrow> ticks t (run_items hi ?env cfas ?c [WordReference ''BYE''] (?v\<lparr>vip := vip ?v + int (length [x]), vds := d\<rparr>)))"
    using run_items_follows [OF follows meaning_fits _ _ _ v(3)] by blast
  then have t: "run_items hi ?env cfas ?c ?its ?v =
      (case r of Inl e \<Rightarrow> (t, Fail e)
       | Inr d \<Rightarrow> ticks t (run_items hi ?env cfas ?c [WordReference ''BYE''] (?v\<lparr>vip := vip ?v + 1, vds := d\<rparr>)))"
    by (simp del: run_items.simps split: sum.splits)
  have bye_step: "run_items hi ?env cfas ?c [WordReference ''BYE''] w = (16, Next (w\<lparr>vip := vip w + 1, vhalted := True\<rparr>))"
    for w using bye(2) by (simp add: kernel_env_lookup bye_word_def)
  have ends: "ends_as q (run m (boot img s))" if "executes ?c ?v (n, q)" "int (3 + n) < m" for n q m
    using that s(2,3) c by (intro kernel_ends_as [where n = n]) (simp_all add: view_boot del: boot_sel(4,5))
  have "settles r (run m (boot img s))" if "int (3 + (t + 16)) < m" for m
  proof (cases r)
    case (Inl f)
    with exec t have "executes ?c ?v (t, Fail f)" by simp
    from ends [OF this, of m] that Inl show ?thesis by (simp add: ends_as_def settles_def)
  next
    case (Inr d)
    with exec t have "executes ?c ?v (t + 16, Next (?v\<lparr>vds := d, vip := 2 + vip ?v, vhalted := True\<rparr>))"
      by (simp add: bye_step del: run_items.simps)
    from ends [OF this that] have "fst (run m (boot img s)) = Inr ()" "vds (view (abstract_of (snd (run m (boot img s))))) = d"
      by (simp_all add: ends_as_def)
    with Inr show ?thesis by (simp add: settles_def view_def)
  qed
  with s(1) show ?thesis by (auto simp: boot_thread_def)
qed

lemma shared_names: "map_of service_effects x \<noteq> None \<Longrightarrow> map_of minimal_dictionary x \<noteq> None"
proof -
  have "list_all (\<lambda>(y, _). map_of minimal_dictionary y \<noteq> None) service_effects"
    by (simp add: service_effects_def minimal_dictionary_def)
  then show "map_of service_effects x \<noteq> None \<Longrightarrow> map_of minimal_dictionary x \<noteq> None"
    by (auto simp: list_all_iff dest: map_of_SomeD)
qed

lemma service_settles:
  assumes "layout_ok e" and "distinct (map col_name cs)" and "list_all (\<lambda>w. map_of minimal_dictionary (col_name w) = None) cs"
    and "meaning_in (region (dstk e)) (rev cs) x (ds e) = Some r"
  shows "\<exists>w. dictionary (service_with cs e) x = Some w \<and> settles r (execute (Suc (length cs)) w (service_with cs e))"
proof -
  let ?s = "service_with cs e"
  note sel = service_with_sel [OF assms(1)]
  have "y \<notin> col_name ` set cs" if "map_of service_effects y \<noteq> None" for y
    using shared_names [OF that] assms(3) by (auto simp: list_all_iff)
  then have "serves (dictionary ?s) (colon_defs ?s) (region (dstk e)) (Suc (length (rev cs))) (meaning_in (region (dstk e)) (rev cs))"
    using sel(4) sel(5) [OF assms(2)] by (intro service_follows) auto
  then show ?thesis using sel(1-3) assms(4) unfolding serves_def by (metis length_rev order_refl)
qed

text \<open>
  C2. The two Forths agree on programs, not only on words: take colon definitions over the stack words both have and a name
  among these. On the same machine, the service executing the name and the built and booted kernel running it end alike, both
  with the data stack the list meaning gives or both with its stack error; the kernel for every step budget that is large enough.
\<close>

theorem forths_agree:
  assumes "layout_ok e" and "dict_ok (cells e) 8 []"
    and "plan_words kernel_labels (kernel_words cs) empty_plan = Inr (k, cfas, es)" and "k + 2 \<le> length (cells e)"
    and "distinct (map col_name cs)" and "list_all (\<lambda>w. map_of minimal_dictionary (col_name w) = None) cs"
    and "length (rs e) + length cs \<le> region (rstk e)" and "meaning_in (region (dstk e)) (rev cs) x (ds e) = Some r"
  shows "\<exists>img s N w. build_image cs (boot_thread [Inl x, Inl ''BYE'']) e = (Inr img, s) \<and>
    dictionary (service_with cs e) x = Some w \<and> settles r (execute (Suc (length cs)) w (service_with cs e)) \<and>
    (\<forall>m. N < m \<longrightarrow> settles r (run m (boot img s)))"
proof -
  have new: "y \<notin> col_name ` set cs" if "map_of minimal_dictionary y \<noteq> None" for y
    using that assms(6) by (auto simp: list_all_iff)
  have "''EXIT'' \<notin> col_name ` set cs" "''BYE'' \<notin> col_name ` set cs"
    by (rule new, simp add: minimal_dictionary_def)+
  from kernel_settles [OF assms(1-4) this assms(7,8)] service_settles [OF assms(1,5,6,8)] show ?thesis by blast
qed

text \<open>\<^verbatim>\<open>: SQUARE DUP * ;\<close> with 3 on the stack.\<close>

theorem forths_agree_witness:
  "\<exists>e. ds e = [3] \<and> (\<exists>img s N w. build_image [SQUARE] (boot_thread [Inl ''SQUARE'', Inl ''BYE'']) e = (Inr img, s) \<and>
    dictionary (service_with [SQUARE] e) ''SQUARE'' = Some w \<and>
    settles (Inr [9]) (execute 2 w (service_with [SQUARE] e)) \<and> (\<forall>m. N < m \<longrightarrow> settles (Inr [9]) (run m (boot img s))))"
proof -
  obtain e :: emulator where e: "push_d 3 kernel_machine_new = (Inr (), e)" "layout_ok e" "ds e = [3]" "same_but_d kernel_machine_new e"
    using data_stack.push_ok [of kernel_machine_new 3] kernel_machine_new_ok by auto
  then have m: "dict_ok (cells e) 8 []" "length (cells e) = 2048" "rs e = []" "region (dstk e) = 1024" "region (rstk e) = 1024"
    using kernel_machine_new_ok by (simp_all add: same_but_d_def same_region_def region_def)
  obtain es where plan: "plan_words kernel_labels (kernel_words [SQUARE]) empty_plan =
      Inr (325, kernel_cfas(''SQUARE'' \<mapsto> 321), es)"
    using square_plan by blast
  have name: "list_all (\<lambda>w. map_of minimal_dictionary (col_name w) = None) [SQUARE]"
    by (simp add: SQUARE_def minimal_dictionary_def STRUCTURE_WORDS_def)
  have "meaning_in (region (dstk e)) (rev [SQUARE]) ''SQUARE'' (ds e) = Some (Inr [9])"
    by (simp add: SQUARE_def e(3) m(4) basic_meaning_def shared_effect_def flag_words_def service_effects_def list_effect_def)
  from forths_agree [OF e(2) m(1) plan _ _ name _ this] m e(3) show ?thesis
    by (intro exI [of _ e]) (simp add: numeral_2_eq_2)
qed

end
