(* ===== verification/Diagnostics.thy ===== *)
theory Diagnostics
  imports Assembler
begin

section \<open>What the assembler reports\<close>

text \<open>
  When the assembler refuses a unit and what it says: the first stage that finds a fault reports the first one in
  source order, and the line number in the report is that of the faulty line.
\<close>

subsection \<open>The first fault\<close>

text \<open>Element \<open>i\<close> is the first on which a stage raises, and it raises \<open>e\<close>.\<close>

definition first_fault :: "('a \<Rightarrow> 'e + 'b) \<Rightarrow> 'a list \<Rightarrow> nat \<Rightarrow> 'e \<Rightarrow> bool" where
  "first_fault f xs i e \<longleftrightarrow> i < length xs \<and> f (xs ! i) = Inl e \<and> list_all (\<lambda>x. \<not> isl (f x)) (take i xs)"

lemma first_fault_simps [simp]:
  "\<not> first_fault f [] i e"
  "first_fault f (x # xs) 0 e \<longleftrightarrow> f x = Inl e"
  "first_fault f (x # xs) (Suc i) e \<longleftrightarrow> \<not> isl (f x) \<and> first_fault f xs i e"
  by (auto simp: first_fault_def)

lemma first_fault_Cons:
  "(\<exists>i. first_fault f (x # xs) i e) \<longleftrightarrow> f x = Inl e \<or> \<not> isl (f x) \<and> (\<exists>i. first_fault f xs i e)"
  by (metis first_fault_simps(2,3) not0_implies_Suc)

lemma not_isl: "\<not> isl r \<longleftrightarrow> (\<exists>x. r = Inr x)"
  by (cases r) auto

lemma gather_eq_Inl: "gather f xs = Inl e \<longleftrightarrow> (\<exists>i. first_fault f xs i e)"
  by (induction xs) (simp_all add: attempt_eq_Inl first_fault_Cons not_isl)

subsection \<open>Parser and emitter\<close>

definition parse_numbered :: "nat \<times> string \<Rightarrow> error + line" where
  "parse_numbered = (\<lambda>(n, raw). parse_line n raw)"

lemma parse_lines_gather: "parse_lines n raws = gather parse_numbered (enumerate n raws)"
  by (induction raws arbitrary: n) (simp_all add: parse_numbered_def)

lemma parse_line_number: "parse_line n raw = Inr l \<Longrightarrow> lineno l = n"
  by (auto simp: parse_line_def Let_def attempt_eq_Inr split: prod.splits if_splits)

lemma parse_lines_numbers: "parse_lines n raws = Inr ls \<Longrightarrow> i < length ls \<Longrightarrow> lineno (ls ! i) = n + i"
proof (induction raws arbitrary: n ls i)
  case (Cons raw raws)
  then show ?case by (cases i) (auto simp: attempt_eq_Inr dest: parse_line_number)
qed simp

lemma parsed_number: "parse source = Inr ls \<Longrightarrow> i < length ls \<Longrightarrow> lineno (ls ! i) = i + 1"
  by (simp add: parse_def parse_lines_numbers)

lemma emit_lines_error_iff:
  "emit_lines ls tab = Inl e \<longleftrightarrow> (\<exists>i. first_fault (\<lambda>l. emit_line l tab) ls i e)"
  by (induction ls) (simp_all add: attempt_eq_Inl first_fault_Cons not_isl)

text \<open>The line number a report carries; the parser's has none.\<close>

fun fault_line :: "error \<Rightarrow> nat option" where
  "fault_line (AssemblerError (DuplicateLabel n _)) = Some n"
| "fault_line (AssemblerError (UnknownMnemonic n _)) = Some n"
| "fault_line (AssemblerError (OperandCount n _ _ _)) = Some n"
| "fault_line (AssemblerError (ExpectedRegisterName n _)) = Some n"
| "fault_line (AssemblerError (UndefinedBranchLabel n _)) = Some n"
| "fault_line (AssemblerError (ExpectedConstant n _)) = Some n"
| "fault_line _ = None"

lemma token_fault_line:
  "resolve_register t l = Inl e \<Longrightarrow> fault_line e = Some (lineno l)"
  "resolve_reg_or_immediate t tab l = Inl e \<Longrightarrow> fault_line e = Some (lineno l)"
  "resolve_offset t tab l = Inl e \<Longrightarrow> fault_line e = Some (lineno l)"
  "resolve_constant t tab l = Inl e \<Longrightarrow> fault_line e = Some (lineno l)"
  by (auto simp: resolve_register_def resolve_reg_or_immediate_def resolve_offset_def
      resolve_constant_def attempt_eq_Inl split: option.splits if_splits)

lemma slot_fault_line: "fill_slot spec t tab l sl = Inl e \<Longrightarrow> fault_line e = Some (lineno l)"
  by (induction spec t tab l sl rule: fill_slot.induct) (auto simp: attempt_eq_Inl dest: token_fault_line)

lemma slots_fault_line: "fill_slots ps tab l sl = Inl e \<Longrightarrow> fault_line e = Some (lineno l)"
  by (induction ps tab l sl rule: fill_slots.induct) (auto simp: attempt_eq_Inl dest: slot_fault_line)

lemma emit_fault_line: "emit_line l tab = Inl e \<Longrightarrow> fault_line e = Some (lineno l)"
  by (auto simp: emit_line_def emit_set_def emit_mov_def emit_opcode_def attempt_eq_Inl Let_def
      split: option.splits if_splits list.splits dest: token_fault_line slots_fault_line)

lemma placed_from_nth: "i < length ls \<Longrightarrow> lineno (placed_from a ls ! i) = lineno (ls ! i)"
  by (induction ls arbitrary: a i) (auto simp: nth_Cons split: nat.split)

lemma length_placed_from [simp]: "length (placed_from a ls) = length ls"
  by (induction ls arbitrary: a) auto

lemma emit_first_fault_line:
  assumes "parse source = Inr ls" and "first_fault (\<lambda>l. emit_line l tab) (placed_from a ls) i e"
  shows "fault_line e = Some (i + 1)"
  using assms emit_fault_line parsed_number [OF assms(1)] by (auto simp: first_fault_def placed_from_nth)

subsection \<open>Resolver\<close>

text \<open>The labels of a unit with the numbers of their lines, and the first one that stands before.\<close>

definition occurrences :: "line list \<Rightarrow> (nat \<times> string) list" where
  "occurrences ls = concat (map (\<lambda>l. map (Pair (lineno l)) (labels l)) ls)"

definition repeats :: "(nat \<times> string) list \<Rightarrow> nat \<Rightarrow> string \<Rightarrow> bool" where
  "repeats ps n x \<longleftrightarrow> (\<exists>us vs. ps = us @ (n, x) # vs \<and> distinct (map snd us) \<and> x \<in> set (map snd us))"

fun first_repeat :: "string set \<Rightarrow> (nat \<times> string) list \<Rightarrow> (nat \<times> string) option" where
  "first_repeat seen [] = None"
| "first_repeat seen ((n, x) # ps) = (if x \<in> seen then Some (n, x) else first_repeat (insert x seen) ps)"

lemma first_repeat_append:
  "first_repeat seen (ps @ qs) =
     (case first_repeat seen ps of None \<Rightarrow> first_repeat (seen \<union> snd ` set ps) qs | Some r \<Rightarrow> Some r)"
  by (induction seen ps rule: first_repeat.induct) (auto split: option.split)

lemma ex_split_Cons:
  "(\<exists>us vs. p # ps = us @ q # vs \<and> P us) \<longleftrightarrow> p = q \<and> P [] \<or> (\<exists>us vs. ps = us @ q # vs \<and> P (p # us))"
  by (auto simp: Cons_eq_append_conv)

lemma first_repeat_eq:
  "first_repeat seen ps = Some (n, x) \<longleftrightarrow>
     (\<exists>us vs. ps = us @ (n, x) # vs \<and> distinct (map snd us) \<and> seen \<inter> set (map snd us) = {} \<and> x \<in> seen \<union> set (map snd us))"
proof (induction seen ps rule: first_repeat.induct)
  case (2 seen m y ps)
  have "distinct (map snd us) \<and> insert y seen \<inter> set (map snd us) = {} \<and> x \<in> insert y seen \<union> set (map snd us) \<longleftrightarrow>
      distinct (map snd ((m, y) # us)) \<and> seen \<inter> set (map snd ((m, y) # us)) = {} \<and> x \<in> seen \<union> set (map snd ((m, y) # us))"
    if "y \<notin> seen" for us :: "(nat \<times> string) list" using that by auto
  with 2 show ?case unfolding ex_split_Cons by (cases "y \<in> seen") auto
qed simp

lemma first_repeat_repeats: "first_repeat {} ps = Some (n, x) \<longleftrightarrow> repeats ps n x"
  by (simp add: first_repeat_eq repeats_def)

definition duplicate :: "nat \<times> string \<Rightarrow> error" where
  "duplicate = (\<lambda>(n, x). AssemblerError (DuplicateLabel n x))"

lemma define_labels_repeat:
  "define_labels n a names tab = Inl e \<longleftrightarrow>
     map_option duplicate (first_repeat (dom tab) (map (Pair n) names)) = Some e"
  by (induction names arbitrary: tab) (auto simp: duplicate_def domIff)

lemma place_lines_repeat:
  "place_lines ls a tab = Inl e \<longleftrightarrow> map_option duplicate (first_repeat (dom tab) (occurrences ls)) = Some e"
proof (induction ls arbitrary: a tab)
  case (Cons l ls)
  have first: "define_labels (lineno l) a (labels l) tab = Inl f \<longleftrightarrow>
      map_option duplicate (first_repeat (dom tab) (map (Pair (lineno l)) (labels l))) = Some f" for f
    by (rule define_labels_repeat)
  show ?case
  proof (cases "define_labels (lineno l) a (labels l) tab")
    case (Inl f)
    with first [of f] show ?thesis by (auto simp: occurrences_def first_repeat_append)
  next
    case (Inr tab')
    with first have "first_repeat (dom tab) (map (Pair (lineno l)) (labels l)) = None" by (cases "first_repeat (dom tab) (map (Pair (lineno l)) (labels l))") auto
    moreover have "dom tab' = dom tab \<union> set (labels l)" using Inr by (auto simp: define_labels_eq domIff)
    ultimately show ?thesis
      using Inr Cons.IH [of "a + line_size l" tab']
      by (auto simp: occurrences_def first_repeat_append attempt_eq_Inl image_image split: prod.splits)
  qed
qed (simp add: occurrences_def)

lemma resolve_repeats:
  "resolve ls = Inl e \<longleftrightarrow> (\<exists>n x. repeats (occurrences ls) n x \<and> e = AssemblerError (DuplicateLabel n x))"
proof -
  have "resolve ls = Inl e \<longleftrightarrow> place_lines ls 0 Map.empty = Inl e"
    by (auto simp: resolve_def attempt_eq_Inl)
  then show ?thesis
    by (auto simp: place_lines_repeat duplicate_def first_repeat_repeats)
qed

subsection \<open>The diagnosis\<close>

text \<open>In a parsed unit the numbers of the lines are their positions, from 1.\<close>

definition label_positions :: "line list \<Rightarrow> (nat \<times> string) list" where
  "label_positions ls = concat (map (\<lambda>(n, l). map (Pair n) (labels l)) (enumerate 1 ls))"

lemma parsed_occurrences:
  assumes "parse source = Inr ls"
  shows "occurrences ls = label_positions ls"
proof -
  have "map (\<lambda>l. map (Pair (lineno l)) (labels l)) ls = map (\<lambda>(n, l). map (Pair n) (labels l)) (enumerate 1 ls)"
    by (rule nth_equalityI) (simp_all add: nth_enumerate_eq parsed_number [OF assms])
  then show ?thesis by (simp only: occurrences_def label_positions_def)
qed

text \<open>A label of the second line that the first one has.\<close>

definition twice_source :: string where
  "twice_source = ''go: HALT'' @ [CHR 0x0A] @ ''at: go: HALT''"

lemma twice_rejected: "assemble twice_source = Inl (AssemblerError (DuplicateLabel 2 ''go''))"
  by (simp add: twice_source_def assemble_def text_assemble_def parse_def onto_first_def parse_evals text_simps peel_labels.simps
      resolve_def line_size_def PSEUDO_OP_SIZES_def)

text \<open>
  C14. The assembler's diagnoses: a unit is refused with an error exactly when its first line, in source order, whose mnemonic is malformed
  gives it; or, in a unit that parses, the first label in source order that stands before gives it, under its line number; or, in a unit
  without such a label, the first line the emitter cannot translate gives it, and then the error carries that line's number.
\<close>

theorem assemble_rejects:
  "assemble source = Inl e \<longleftrightarrow>
     (\<exists>i. first_fault parse_numbered (enumerate 1 (splitlines source)) i e) \<or>
     (\<exists>ls. parse source = Inr ls \<and>
        ((\<exists>n x. repeats (label_positions ls) n x \<and> e = AssemblerError (DuplicateLabel n x)) \<or>
         distinct (all_labels ls) \<and>
           (\<exists>i. first_fault (\<lambda>l. emit_line l (map_of (label_sites 0 ls))) (placed_from 0 ls) i e \<and>
              fault_line e = Some (i + 1))))"
proof -
  have parser: "parse source = Inl e \<longleftrightarrow> (\<exists>i. first_fault parse_numbered (enumerate 1 (splitlines source)) i e)"
    by (simp only: parse_def parse_lines_gather gather_eq_Inl)
  have emitter: "(\<exists>r. resolve ls = Inr r \<and> emit r = Inl e) \<longleftrightarrow> distinct (all_labels ls) \<and>
      (\<exists>i. first_fault (\<lambda>l. emit_line l (map_of (label_sites 0 ls))) (placed_from 0 ls) i e \<and> fault_line e = Some (i + 1))"
    if "parse source = Inr ls" for ls
    using emit_first_fault_line [OF that] by (auto simp: resolve_eq emit_def emit_lines_error_iff)
  have resolver: "(\<exists>n x. repeats (label_positions ls) n x \<and> e = AssemblerError (DuplicateLabel n x)) \<longleftrightarrow> resolve ls = Inl e"
    if "parse source = Inr ls" for ls
    by (simp only: resolve_repeats parsed_occurrences [OF that])
  show ?thesis
    unfolding assemble_def text_assemble_error parser using resolver emitter by blast
qed

end
