(* ===== verification/Spec2Isabelle.thy ===== *)
theory Spec2Isabelle
  imports Lookup Forth Listing Codegen StackRuns Executioner ThreadedDemo Overrun Tokens Agreement Diagnostics
begin

section \<open>A verification library for the min-cpu-forth machine\<close>

text \<open>
  \<^bold>\<open>The program.\<close> A Python package (under \<^verbatim>\<open>src/src/min_cpu_forth/\<close>) that simulates a 17-instruction processor
  made for an indirect-threaded Forth. A text assembler (\<^verbatim>\<open>services/assembler/\<close>) turns source into instructions
  and a label table. The emulator (\<^verbatim>\<open>services/emulator.py\<close>) runs instructions over a register file, character
  devices and two stacks that live in one shared memory (\<^verbatim>\<open>adapters/\<close>, wired in \<^verbatim>\<open>containers.py\<close>, addresses in
  \<^verbatim>\<open>layout.py\<close>). The kernel (\<^verbatim>\<open>services/kernel/routines.py\<close>) is assembler text: the threading core \<^verbatim>\<open>START\<close>,
  \<^verbatim>\<open>NEXT\<close>, \<^verbatim>\<open>ENTER\<close> and one routine for each of 39 Forth words. The builder (\<^verbatim>\<open>services/kernel/builder.py\<close>) assembles
  it and writes a dictionary of headers, code fields and threads into the memory through the dictionary adapter
  (\<^verbatim>\<open>adapters/dictionary.py\<close>); \<^verbatim>\<open>boot\<close> loads the program and points \<^verbatim>\<open>IP\<close> at the boot thread. Beside it stands a
  second Forth, \<^verbatim>\<open>services/forth.py\<close>, with the words as Python functions over the same stacks and memory.

  \<^bold>\<open>How the code appears here.\<close> Integers of the code are unbounded and stay \<^typ>\<open>int\<close>. Text is \<^typ>\<open>string\<close>, code points
  below 256; a stored string is a list of cells. A dictionary is a map. A method that changes state or may
  raise is a function from the state to an error or a result, and the state (\<open>exec\<close> in \<^verbatim>\<open>Prelude\<close>): what was changed before
  an exception stays changed, as in Python. A pure function that may raise returns \<open>error + 'a\<close>. Exceptions are
  constructors of \<open>error\<close> that carry the data their messages are formatted from. An index into a list is Python's:
  negative ones count from the end, others outside raise \<open>IndexError\<close> (\<open>py_index\<close>).

  \<^bold>\<open>Data and adapters.\<close>
  \<^item> \<^verbatim>\<open>Prelude\<close>: the result types, loops over lists, indices, slices. \<^verbatim>\<open>Domain\<close>: \<^verbatim>\<open>domain/\<close>, \<^verbatim>\<open>errors.py\<close>, \<^verbatim>\<open>layout.py\<close>.
  \<^item> \<^verbatim>\<open>Memory\<close>: \<^verbatim>\<open>adapters/memory.py\<close>, \<^verbatim>\<open>registers.py\<close>, \<^verbatim>\<open>io.py\<close>, \<^verbatim>\<open>source.py\<close> and the contract \<open>memory_port\<close>.
  \<^item> \<^verbatim>\<open>Stack\<close>: \<^verbatim>\<open>adapters/stack.py\<close>, the data path both services share and the contracts \<open>lifo_stack\<close> (pushes and pops in
    bounds) and \<open>stack_port\<close>, which adds the errors at the bounds and which both stacks satisfy. \<^verbatim>\<open>StackRuns\<close>: any sequence of calls answers as a bounded list and stays in its region.
  \<^item> \<^verbatim>\<open>Dictionary\<close>: \<^verbatim>\<open>adapters/dictionary.py\<close>, \<^verbatim>\<open>counted_string.py\<close>, \<^verbatim>\<open>system_variables.py\<close> over any memory port, the contract
    \<open>store_port\<close>, the invariant of the header chain and its preservation, what \<^verbatim>\<open>find\<close> and \<^verbatim>\<open>headers\<close> return.

  \<^bold>\<open>The assembler.\<close>
  \<^item> \<^verbatim>\<open>PyText\<close>: the string methods used, \<^verbatim>\<open>int(s, 0)\<close>, \<^verbatim>\<open>str(n)\<close>. \<^verbatim>\<open>Parser\<close>, \<^verbatim>\<open>Resolver\<close>, \<^verbatim>\<open>Emitter\<close>: \<^verbatim>\<open>parser.py\<close>, \<^verbatim>\<open>resolver.py\<close>, \<^verbatim>\<open>specs.py\<close>
    and \<^verbatim>\<open>emitter.py\<close>. \<^verbatim>\<open>Assembler\<close>: \<^verbatim>\<open>service.py\<close> over the ports of its three stages, their contract \<open>assembler_stages\<close>, which gives
    the contract \<open>assembler_port\<close>, and the stages \<^verbatim>\<open>AssemblerContainer\<close> binds; where lines and labels end up.
  \<^item> \<^verbatim>\<open>Diagnostics\<close>: which units the assembler refuses, and which line and fault it reports.
  \<^item> \<^verbatim>\<open>Literals\<close>: numbers survive rendering and reading, in the assembler and in the kernel's \<^verbatim>\<open>NUMBER\<close>; what \<^verbatim>\<open>WORD\<close> reads.
    \<^verbatim>\<open>Listing\<close>: the assembler inverts the printing of programs.
  \<^item> \<^verbatim>\<open>Codegen\<close>: the assembler's output on the emulator: no malformed instruction, what \<^verbatim>\<open>SET\<close> and \<^verbatim>\<open>MOV\<close> compute, where
    branches go.

  \<^bold>\<open>The emulator.\<close>
  \<^item> \<^verbatim>\<open>Emulator\<close>: \<^verbatim>\<open>services/emulator.py\<close>: fetch, the 17 handlers, \<^verbatim>\<open>step\<close>, \<^verbatim>\<open>run\<close> with its step budget, \<^verbatim>\<open>load\<close>.
  \<^item> \<^verbatim>\<open>Protected\<close>: the abstract machine in which the two stacks are lists and the cells below them a third; an
    instruction that addresses a cell outside those has no claim (\<open>Wild\<close>). \<open>step_refines\<close> is the simulation.
  \<^item> \<^verbatim>\<open>Runs\<close>: invariants of runs, how a run ends, the effect of the budget; \<open>within\<close>, the rules by which programs
    of the abstract machine are verified with a step count. \<^verbatim>\<open>Exec\<close>: back to the emulator, \<open>run_diverges\<close> for
    programs that never stop.

  \<^bold>\<open>The kernel.\<close>
  \<^item> \<^verbatim>\<open>Routines\<close>: the text of \<^verbatim>\<open>services/kernel/routines.py\<close>, kept as text. \<^verbatim>\<open>KernelImage\<close>: what it assembles to, proved by
    running the assembler's definitions in the simplifier, routine by routine.
  \<^item> \<^verbatim>\<open>Threaded\<close>: the Forth machine: a state \<open>vm\<close> of instruction pointer, stacks, cells, input and output; the meaning of
    each word on it; \<open>implements\<close>, that the routine at an index does that within so many CPU steps.
    \<^verbatim>\<open>Primitives\<close>: the words without a loop. \<^verbatim>\<open>Loops\<close>: \<^verbatim>\<open>*\<close>, \<^verbatim>\<open>NUMBER\<close>, \<^verbatim>\<open>WORD\<close>, \<^verbatim>\<open>FIND\<close>. \<^verbatim>\<open>Interpreter\<close>: all words of \<^verbatim>\<open>CODE_WORDS\<close>, one
    turn of the inner interpreter, and runs of it.
  \<^item> \<^verbatim>\<open>Builder\<close>: \<^verbatim>\<open>services/kernel/builder.py\<close> over the contract \<open>dictionary_port\<close>; what cells a build writes (\<open>plan\<close>).
    \<^verbatim>\<open>Threads\<close>: the meaning of a program by word names (\<open>denote\<close>), without addresses, and that the booted image
    follows it. \<^verbatim>\<open>Programs\<close>: which builds are refused and with what, the theorem on built images, \<^verbatim>\<open>SQUARE\<close>, the example of the repository, and
    that compiled words and boot threads keep the words they were compiled with, whatever is built later.
  \<^item> \<^verbatim>\<open>Lookup\<close>: the routine \<^verbatim>\<open>FIND\<close> run on the emulator, the adapter's \<^verbatim>\<open>find\<close> and the builder's table; \<open>enters\<close> and \<open>returns\<close>
    say that the emulator is at a routine of the assembled kernel and back at \<^verbatim>\<open>NEXT\<close>.
  \<^item> \<^verbatim>\<open>Tokens\<close>: \<^verbatim>\<open>WORD\<close>, \<^verbatim>\<open>FIND\<close> and \<^verbatim>\<open>NUMBER\<close> in boot threads of a built image, on typed input.
  \<^item> \<^verbatim>\<open>Overrun\<close>: what \<^verbatim>\<open>WORD\<close> does with a token longer than its buffer, by moving the floor of the protected data stack; and what
    appending to a full dictionary does to the stack.

  \<^bold>\<open>The Forth service.\<close>
  \<^item> \<^verbatim>\<open>Forth\<close>: \<^verbatim>\<open>services/forth.py\<close>: every built-in word and its stack effect, colon definitions bound late by name,
    what execution keeps, what a new definition changes in older ones.
  \<^item> \<^verbatim>\<open>Agreement\<close>: each word of the service beside the assembled routine of the same name, run on the emulator; then one meaning of colon definitions on lists (\<open>meaning_in\<close>, a word keeps the meanings it was defined with) that
    both Forths follow, the kernel through \<open>denote\<close> and the service through \<open>execute\<close>. It has a claim (\<open>Some\<close>) for the
    words that mean the same in both: not for the comparisons, whose true values differ, and \<^verbatim>\<open>*\<close> only where the top is not negative.
  \<^item> \<^verbatim>\<open>Executioner\<close>: \<^verbatim>\<open>docs/prototypes/assembler-interpreter-2.py\<close>, \<^verbatim>\<open>-3.py\<close>, \<^verbatim>\<open>-4.py\<close>, from which the service was ported; its data stack is
    a \<open>lifo_stack\<close> while it is in bounds, and successes of the service are successes of the prototype, each with its own dictionary and
    the same further definitions.
  \<^item> \<^verbatim>\<open>ThreadedDemo\<close>: \<^verbatim>\<open>docs/prototypes/assembler-interpreter-1.py\<close>, the earlier threaded Forth: compiler and inner interpreter
    against a step-free meaning \<open>runs\<close> of its words by name.

  \<^bold>\<open>How the properties build on each other.\<close> \<open>step_refines\<close> moves reasoning from memory to lists.
  \<open>kernel_words_correct\<close> verifies the routines there. \<open>image_runs\<close> composes assembler, builder, boot and emulator: a run of the
  built image ends as the boot thread means by name, errors included, within the counted steps.
  \<open>square_runs\<close> is its use on a concrete program, \<open>early_binding\<close> on programs built with any later definitions, \<open>typed_word_found\<close>, \<open>typed_token_converted\<close> and
  \<open>typed_token_unterminated\<close> on every dictionary and every token that fits the buffer, \<open>negative_times_exceeds\<close> is about a program that
  does not end. \<open>forths_agree\<close> sets the built image beside the Forth service on all programs of the words they share.

  \<^bold>\<open>Bounds and fuel.\<close> \<open>run_loop\<close> recurses on the step budget of \<^verbatim>\<open>run\<close>, which is the code's own. \<open>find_loop\<close> and \<open>headers_loop\<close>
  follow links in memory that need not end, so they are partial functions whose value \<open>None\<close> is not returning; on a
  well-formed dictionary, where each link goes to an earlier header, they are proved to return. \<open>execute\<close> of the Forth service has Python's recursion
  limit as a parameter; \<open>self_reference_recurses\<close> holds for all values of it. Step counts in the theorems on kernel words and
  programs are upper bounds on CPU steps; \<open>forths_agree\<close> says of the kernel that a bound exists, and gives the service a recursion limit of one more
  than the number of definitions. The inner loop of the first prototype is a partial function too, and \<open>thread_runs\<close>
  shows that it returns; the index of \<open>runs\<close> bounds the nesting of calls, which must fit the return stack.

  \<^bold>\<open>Not modelled.\<close> The dependency-injection library of \<^verbatim>\<open>containers.py\<close> is represented
  by what it wires. The protocols of \<^verbatim>\<open>ports.py\<close> have no code. The memory, the stacks, the dictionary, the assembler and its
  stages are locales; the register file, the character devices, the source, the system variables and the counted strings have one
  adapter each, which the model calls directly. Characters above code
  point 255 in assembler source, message texts of exceptions: formatting one is taken to succeed, also where it contains an integer of more than
  4300 digits, which Python refuses to print (where \<^verbatim>\<open>.\<close> of the first prototype prints a number, and where text is read as one, that limit is in the model). In the
  prototypes: printing beyond the list of printed lines, the
  abstract class \<^verbatim>\<open>Instruction\<close>, and registers named after attributes that are not integers. Runs of the protected machine that
  leave its cells have no claim; \<open>word_overruns_buffer\<close> is about one such run of the emulator itself, as long as the token ends below
  the live part of the data stack.
\<close>

end
